(* ===== verification/Pfr_Prelude.thy ===== *)
theory Pfr_Prelude
  imports Complex_Main
begin

text \<open>
  The prelude of the development: what every component shares.

  The error values of the C++ program (\<open>cpp_error\<close>), results \<open>cpp_error + 'a\<close> with a bind and a
  monadic fold, and the collections of lemmas the components add their facts to.  Undefined
  behaviour of C++ (a null dereference, a read of an uninitialised value, an erased iterator) is a
  value of \<open>cpp_error\<close>, so that every operation of the model is total and says where the source has
  no defined result.
\<close>

named_theorems map_simps \<open>rewrite rules of the std::map model\<close>
named_theorems dbl_simps \<open>rewrite rules of the binary64 model\<close>
named_theorems res_simps \<open>rewrite rules of results\<close>


section \<open>Errors and results\<close>

datatype cpp_error =
    Undefined_Behaviour string  \<comment> \<open>the source's behaviour is undefined from here on\<close>
  | Uncaught string             \<comment> \<open>an exception that nobody catches: \<open>std::terminate\<close>\<close>
  | Exit int                    \<comment> \<open>\<open>exit(n)\<close>\<close>

definition null_deref :: cpp_error where
  "null_deref = Undefined_Behaviour ''null pointer''"

definition uninitialised :: cpp_error where
  "uninitialised = Undefined_Behaviour ''uninitialised value''"

type_synonym 'a res = "cpp_error + 'a"

definition res_bind :: "'a res \<Rightarrow> ('a \<Rightarrow> 'b res) \<Rightarrow> 'b res" where
  "res_bind m f = (case m of Inl e \<Rightarrow> Inl e | Inr x \<Rightarrow> f x)"

definition res_map :: "('a \<Rightarrow> 'b) \<Rightarrow> 'a res \<Rightarrow> 'b res" where
  "res_map f m = res_bind m (\<lambda>x. Inr (f x))"

text \<open>A loop whose body may fail: the first error stops it.\<close>

fun fold_res :: "('a \<Rightarrow> 's \<Rightarrow> 's res) \<Rightarrow> 'a list \<Rightarrow> 's \<Rightarrow> 's res" where
  "fold_res f [] s = Inr s"
| "fold_res f (x # xs) s = res_bind (f x s) (fold_res f xs)"

lemma res_bind_simps [simp, res_simps]:
  "res_bind (Inl e) f = Inl e"
  "res_bind (Inr x) f = f x"
  by (simp_all add: res_bind_def)

lemma res_map_simps [simp, res_simps]:
  "res_map f (Inl e) = Inl e"
  "res_map f (Inr x) = Inr (f x)"
  by (simp_all add: res_map_def)

lemma res_bind_assoc: "res_bind (res_bind m f) g = res_bind m (\<lambda>x. res_bind (f x) g)"
  by (cases m) simp_all

lemma res_bind_Inr_iff: "res_bind m f = Inr y \<longleftrightarrow> (\<exists>x. m = Inr x \<and> f x = Inr y)"
  by (cases m) auto

lemma res_bind3_Inr_iff:
  "res_bind a (\<lambda>x. res_bind (b x) (\<lambda>y. res_bind (e y) (\<lambda>w. Inr (F y w)))) = Inr v
    \<longleftrightarrow> (\<exists>x y w. a = Inr x \<and> b x = Inr y \<and> e y = Inr w \<and> v = F y w)"
  by (auto simp: res_bind_Inr_iff)

lemma res_bind_InrE:
  assumes "res_bind m f = Inr y"
  obtains x where "m = Inr x" and "f x = Inr y"
  using assms by (auto simp: res_bind_Inr_iff)

lemma res_map_Inr_iff: "res_map f m = Inr y \<longleftrightarrow> (\<exists>x. m = Inr x \<and> y = f x)"
  by (cases m) auto

lemma fold_res_append:
  "fold_res f (xs @ ys) s = res_bind (fold_res f xs s) (fold_res f ys)"
proof (induction xs arbitrary: s)
  case (Cons x xs)
  have "fold_res f (xs @ ys) = (\<lambda>s. res_bind (fold_res f xs s) (fold_res f ys))"
    using Cons by (rule ext)
  then show ?case by (simp add: res_bind_assoc)
qed simp

text \<open>The loop rule: an invariant the body keeps holds for the result of the loop.\<close>

lemma fold_res_invariant:
  assumes "fold_res f xs s = Inr t" and "P s"
    and "\<And>x u v. x \<in> set xs \<Longrightarrow> P u \<Longrightarrow> f x u = Inr v \<Longrightarrow> P v"
  shows "P t"
  using assms
proof (induction xs arbitrary: s)
  case Nil
  then show ?case by simp
next
  case (Cons x xs)
  from Cons.prems(1) obtain u where u: "f x s = Inr u" "fold_res f xs u = Inr t"
    by (auto elim: res_bind_InrE)
  have "P u" by (rule Cons.prems(3) [OF _ Cons.prems(2) u(1)]) simp
  with u(2) Cons.prems(3) show ?case by (auto intro: Cons.IH)
qed

text \<open>The loop returns when its body returns on every state that satisfies the invariant.\<close>

lemma fold_res_total:
  assumes "P s"
    and "\<And>x u. x \<in> set xs \<Longrightarrow> P u \<Longrightarrow> \<exists>v. f x u = Inr v \<and> P v"
  shows "\<exists>t. fold_res f xs s = Inr t \<and> P t"
  using assms
proof (induction xs arbitrary: s)
  case Nil
  then show ?case by simp
next
  case (Cons x xs)
  obtain v where "f x s = Inr v" "P v" using Cons.prems by (metis list.set_intros(1))
  with Cons.IH [of v] Cons.prems(2) show ?case by auto
qed

lemma fold_res_pure:
  "(\<And>x s. x \<in> set xs \<Longrightarrow> f x s = Inr (g x s)) \<Longrightarrow> fold_res f xs s = Inr (fold g xs s)"
  by (induction xs arbitrary: s) simp_all

lemma fold_invariant_on:
  assumes "P s" and "\<And>x u. x \<in> set xs \<Longrightarrow> P u \<Longrightarrow> P (f x u)"
  shows "P (fold f xs s)"
  using assms by (induction xs arbitrary: s) auto

text \<open>
  A loop over distinct keys whose body changes only what belongs to its key: the result relates to
  the start key by key.
\<close>

lemma fold_res_local:
  assumes "fold_res f ks s = Inr t" and "distinct ks"
    and own: "\<And>k u v. k \<in> set ks \<Longrightarrow> f k u = Inr v \<Longrightarrow> R k (get u k) (get v k)"
    and other: "\<And>k u v j. k \<in> set ks \<Longrightarrow> f k u = Inr v \<Longrightarrow> j \<noteq> k \<Longrightarrow> get v j = get u j"
  shows "(k \<in> set ks \<longrightarrow> R k (get s k) (get t k)) \<and> (k \<notin> set ks \<longrightarrow> get t k = get s k)"
  using assms
proof (induction ks arbitrary: s)
  case Nil
  then show ?case by simp
next
  case (Cons x xs)
  from Cons.prems(1) obtain u where u: "f x s = Inr u" "fold_res f xs u = Inr t"
    by (auto elim: res_bind_InrE)
  have IH: "(k \<in> set xs \<longrightarrow> R k (get u k) (get t k)) \<and> (k \<notin> set xs \<longrightarrow> get t k = get u k)"
  proof (rule Cons.IH [OF u(2)])
    show "distinct xs" using Cons.prems(2) by simp
  qed (use Cons.prems(3,4) in \<open>meson list.set_intros(2)\<close>)+
  have x: "R x (get s x) (get u x)" "\<And>j. j \<noteq> x \<Longrightarrow> get u j = get s j"
    using Cons.prems(3,4) [OF _ u(1)] by simp_all
  show ?case
  proof (cases "k = x")
    case True
    then show ?thesis using IH x Cons.prems(2) by auto
  next
    case False
    then have "get u k = get s k" by (rule x(2))
    then show ?thesis using IH False by auto
  qed
qed

text \<open>The same for a loop that cannot fail.\<close>

lemma fold_local:
  assumes "distinct ks"
    and own: "\<And>k u. k \<in> set ks \<Longrightarrow> get (f k u) k = F k (get u k)"
    and other: "\<And>k u j. k \<in> set ks \<Longrightarrow> j \<noteq> k \<Longrightarrow> get (f k u) j = get u j"
  shows "get (fold f ks s) k = (if k \<in> set ks then F k (get s k) else get s k)"
  using assms
proof (induction ks arbitrary: s)
  case (Cons x xs)
  have "get (fold f xs (f x s)) k = (if k \<in> set xs then F k (get (f x s) k) else get (f x s) k)"
    using Cons.prems by (intro Cons.IH) auto
  then show ?case using Cons.prems by (cases "k = x") auto
qed simp

lemma find_append: "find P (xs @ ys) = (case find P xs of None \<Rightarrow> find P ys | Some x \<Rightarrow> Some x)"
  by (induction xs) simp_all

end
