(* ===== verification/Std_Map.thy ===== *)
theory Std_Map
  imports Pfr_Prelude "HOL-Library.List_Lexorder" "HOL-Library.Char_ord"
begin

text \<open>
  \<open>std::map\<close>, the container the program keeps all of its state in.

  A map is its list of entries in the order of iteration: strictly increasing keys (\<open>std::less\<close>; on
  \<open>std::string\<close> the lexicographic order of the bytes).  The type hides the invariant, so that nested
  maps such as \<open>r[dst_ip][probe_id][peer_id][seq]\<close> are well formed by construction and two maps with
  the same entries are equal.  \<open>sm_find\<close> is \<open>find\<close>, \<open>sm_put\<close> is \<open>m[k] = v\<close>, \<open>sm_erase\<close> is
  \<open>erase(k)\<close>, \<open>sm_insert\<close> is \<open>insert\<close> (which keeps an existing entry), and \<open>sm_modify d k f\<close> is an
  operation \<open>f\<close> on the reference \<open>m[k]\<close>, which first creates the entry with the default value \<open>d\<close>.
\<close>


section \<open>The interface\<close>

text \<open>
  What a client of a map relies on: the laws of \<open>find\<close> after \<open>put\<close> and \<open>erase\<close>, extensionality, and
  the iteration order.  The lemmas of the block are the client's: they rest on these laws only.
\<close>

locale ordered_map =
  fixes empty :: "'m"
    and find :: "'m \<Rightarrow> 'k::linorder \<Rightarrow> 'v option"
    and put :: "'k \<Rightarrow> 'v \<Rightarrow> 'm \<Rightarrow> 'm"
    and erase :: "'k \<Rightarrow> 'm \<Rightarrow> 'm"
    and keys :: "'m \<Rightarrow> 'k list"
  assumes find_empty: "find empty k = None"
    and find_put: "find (put k v m) k' = (if k' = k then Some v else find m k')"
    and find_erase: "find (erase k m) k' = (if k' = k then None else find m k')"
    and ext: "(\<And>k. find m k = find m' k) \<Longrightarrow> m = m'"
    and set_keys: "set (keys m) = {k. find m k \<noteq> None}"
    and sorted_keys: "sorted_wrt (<) (keys m)"
begin

lemma put_put: "put k v (put k w m) = put k v m"
  by (rule ext) (simp add: find_put)

lemma put_commute: "k \<noteq> l \<Longrightarrow> put k v (put l w m) = put l w (put k v m)"
  by (rule ext) (simp add: find_put)

lemma put_same: "find m k = Some v \<Longrightarrow> put k v m = m"
  by (rule ext) (auto simp: find_put)

lemma erase_put: "erase k (put k v m) = erase k m"
  by (rule ext) (simp add: find_put find_erase)

lemma erase_absent: "find m k = None \<Longrightarrow> erase k m = m"
  by (rule ext) (simp add: find_erase)

lemma erase_erase: "erase k (erase l m) = erase l (erase k m)"
  by (rule ext) (simp add: find_erase)

lemma distinct_keys: "distinct (keys m)"
  using sorted_keys [of m] by (simp add: strict_sorted_iff)

text \<open>A loop that erases every key it visits leaves the other keys alone.\<close>

lemma find_fold_erase: "find (fold erase ks m) k = (if k \<in> set ks then None else find m k)"
  by (induction ks arbitrary: m) (auto simp: find_erase)

lemma fold_erase_keys: "fold erase (keys m) m = empty"
  by (rule ext) (auto simp: find_fold_erase find_empty set_keys)

text \<open>
  A loop over distinct keys whose body writes the entry of the key it visits, from that entry's
  value alone, computes each entry independently of the others.
\<close>

lemma find_fold_put:
  assumes "distinct ks"
  shows "find (fold (\<lambda>k m. put k (g k (find m k)) m) ks m) k
    = (if k \<in> set ks then Some (g k (find m k)) else find m k)"
  using assms by (induction ks arbitrary: m) (auto simp: find_put)

end


section \<open>The type\<close>

typedef (overloaded) ('k::linorder, 'v) std_map =
  "{xs :: ('k \<times> 'v) list. sorted_wrt (<) (map fst xs)}"
  morphisms entries Std_map
proof
  show "[] \<in> {xs :: ('k \<times> 'v) list. sorted_wrt (<) (map fst xs)}" by simp
qed

setup_lifting type_definition_std_map

fun al_put :: "'k::linorder \<Rightarrow> 'v \<Rightarrow> ('k \<times> 'v) list \<Rightarrow> ('k \<times> 'v) list" where
  "al_put k v [] = [(k, v)]"
| "al_put k v ((k', v') # xs) =
     (if k < k' then (k, v) # (k', v') # xs
      else if k = k' then (k, v) # xs
      else (k', v') # al_put k v xs)"

lemma set_al_put: "fst ` set (al_put k v xs) = insert k (fst ` set xs)"
  by (induction k v xs rule: al_put.induct) auto

lemma al_put_sorted: "sorted_wrt (<) (map fst xs) \<Longrightarrow> sorted_wrt (<) (map fst (al_put k v xs))"
proof (induction k v xs rule: al_put.induct)
  case (2 k v k' v' xs)
  have "\<forall>x \<in> fst ` set xs. k' < x" using "2.prems" by auto
  then show ?case using 2 set_al_put [of k v xs] by (auto simp: image_iff)
qed simp

lemma map_of_al_put:
  "sorted_wrt (<) (map fst xs) \<Longrightarrow> map_of (al_put k v xs) = (map_of xs)(k \<mapsto> v)"
proof (induction k v xs rule: al_put.induct)
  case (2 k v k' v' xs)
  then show ?case by (auto simp: fun_eq_iff)
qed simp

lemma map_of_filter_key: "map_of (filter (\<lambda>p. fst p \<noteq> k) xs) = (map_of xs)(k := None)"
  by (induction xs) (auto simp: fun_eq_iff)

lemma sorted_wrt_map_fst_filter:
  "sorted_wrt R (map fst xs) \<Longrightarrow> sorted_wrt R (map fst (filter P xs))"
  by (induction xs) auto

lemma map_of_sorted_eq_imp_eq:
  assumes "sorted_wrt (<) (map fst xs)" and "sorted_wrt (<) (map fst ys)" and "map_of xs = map_of ys"
  shows "xs = (ys :: ('k::linorder \<times> 'v) list)"
proof -
  have d: "distinct (map fst xs)" "distinct (map fst ys)"
    using assms(1,2) by (simp_all add: strict_sorted_iff)
  have "set xs = set ys" using map_of_inject_set [OF d] assms(3) by simp
  then have "map fst xs = map fst ys"
    using assms(1,2) by (intro strict_sorted_equal) auto
  then show ?thesis
    using d assms(3) by (metis map_of_eqI map_of_zip_map zip_map_fst_snd map_of_zip_inject
        map_fst_zip length_map map_snd_zip)
qed

lift_definition sm_empty :: "('k::linorder, 'v) std_map" is "[]" by simp

lift_definition sm_find :: "('k::linorder, 'v) std_map \<Rightarrow> 'k \<Rightarrow> 'v option" is "map_of" .

lift_definition sm_put :: "'k::linorder \<Rightarrow> 'v \<Rightarrow> ('k, 'v) std_map \<Rightarrow> ('k, 'v) std_map" is al_put
  by (rule al_put_sorted)

lift_definition sm_erase :: "'k::linorder \<Rightarrow> ('k, 'v) std_map \<Rightarrow> ('k, 'v) std_map"
  is "\<lambda>k. filter (\<lambda>p. fst p \<noteq> k)"
  by (rule sorted_wrt_map_fst_filter)

definition sm_keys :: "('k::linorder, 'v) std_map \<Rightarrow> 'k list" where
  "sm_keys m = map fst (entries m)"

lemma sm_eqI: "(\<And>k. sm_find m k = sm_find m' k) \<Longrightarrow> m = m'"
proof (transfer)
  fix m m' :: "('a \<times> 'b) list"
  assume "sorted_wrt (<) (map fst m)" "sorted_wrt (<) (map fst m')" "\<And>k. map_of m k = map_of m' k"
  then show "m = m'" by (intro map_of_sorted_eq_imp_eq ext)
qed

lemma sm_find_empty: "sm_find sm_empty k = None"
  by transfer simp

lemma sm_find_put: "sm_find (sm_put k v m) k' = (if k' = k then Some v else sm_find m k')"
  by transfer (simp add: map_of_al_put)

lemma sm_find_erase: "sm_find (sm_erase k m) k' = (if k' = k then None else sm_find m k')"
  by transfer (simp add: map_of_filter_key)

lemma sorted_sm_keys: "sorted_wrt (<) (sm_keys m)"
  unfolding sm_keys_def using entries [of m] by simp

lemma set_sm_keys: "set (sm_keys m) = {k. sm_find m k \<noteq> None}"
  unfolding sm_keys_def by transfer (auto simp: map_of_eq_None_iff)

text \<open>The red-black tree of the standard library is a map: the model is, too.\<close>

interpretation smap: ordered_map sm_empty sm_find sm_put sm_erase sm_keys
  by unfold_locales
    (auto simp: sm_find_empty sm_find_put sm_find_erase set_sm_keys sorted_sm_keys intro: sm_eqI)

lemmas sm_find_simps [simp, map_simps] = sm_find_empty sm_find_put sm_find_erase

lemmas sm_laws [map_simps] = smap.put_put smap.erase_put smap.erase_absent

lemma sm_in_keys: "k \<in> set (sm_keys m) \<longleftrightarrow> sm_find m k \<noteq> None"
  by (simp add: set_sm_keys)

lemma sm_keys_empty [simp, map_simps]: "sm_keys sm_empty = []"
  unfolding sm_keys_def by transfer simp

lemma entries_empty [simp, map_simps]: "entries sm_empty = []"
  by transfer simp

lemma entries_conv_keys: "entries m = map (\<lambda>k. (k, the (sm_find m k))) (sm_keys m)"
proof -
  have "distinct (map fst (entries m))"
    using smap.distinct_keys [of m] by (simp add: sm_keys_def)
  moreover have "sm_find m = map_of (entries m)" by (simp add: sm_find.rep_eq fun_eq_iff)
  ultimately have "\<forall>p \<in> set (entries m). p = (fst p, the (sm_find m (fst p)))"
    by (auto simp: map_of_eq_Some_iff)
  then show ?thesis by (simp add: sm_keys_def o_def map_idI)
qed

lemma entries_iff_find: "(k, v) \<in> set (entries m) \<longleftrightarrow> sm_find m k = Some v"
proof -
  have "distinct (map fst (entries m))"
    using smap.distinct_keys [of m] by (simp add: sm_keys_def)
  then show ?thesis by (simp add: sm_find.rep_eq)
qed

lemma sm_empty_iff_keys: "sm_keys m = [] \<longleftrightarrow> m = sm_empty"
proof
  assume "sm_keys m = []"
  then have "\<forall>k. sm_find m k = None" using set_sm_keys [of m] by simp
  then show "m = sm_empty" by (intro sm_eqI) simp
qed simp


section \<open>Derived operations\<close>

definition sm_count :: "('k::linorder, 'v) std_map \<Rightarrow> 'k \<Rightarrow> nat" where
  "sm_count m k = (case sm_find m k of None \<Rightarrow> 0 | Some _ \<Rightarrow> 1)"

definition sm_insert :: "'k::linorder \<Rightarrow> 'v \<Rightarrow> ('k, 'v) std_map \<Rightarrow> ('k, 'v) std_map" where
  "sm_insert k v m = (case sm_find m k of None \<Rightarrow> sm_put k v m | Some _ \<Rightarrow> m)"

definition sm_at :: "'v \<Rightarrow> ('k::linorder, 'v) std_map \<Rightarrow> 'k \<Rightarrow> 'v" where
  "sm_at d m k = (case sm_find m k of None \<Rightarrow> d | Some v \<Rightarrow> v)"

definition sm_modify :: "'v \<Rightarrow> 'k::linorder \<Rightarrow> ('v \<Rightarrow> 'v) \<Rightarrow> ('k, 'v) std_map \<Rightarrow> ('k, 'v) std_map" where
  "sm_modify d k f m = sm_put k (f (sm_at d m k)) m"

text \<open>\<open>m[k]\<close> read and not written: it still creates the entry.\<close>

definition sm_touch :: "'v \<Rightarrow> 'k::linorder \<Rightarrow> ('k, 'v) std_map \<Rightarrow> ('k, 'v) std_map" where
  "sm_touch d k m = sm_insert k d m"

lemma sm_find_insert [simp, map_simps]:
  "sm_find (sm_insert k v m) k'
    = (if k' = k then (case sm_find m k of None \<Rightarrow> Some v | Some w \<Rightarrow> Some w) else sm_find m k')"
  by (simp add: sm_insert_def split: option.splits)

lemma sm_find_touch [simp, map_simps]:
  "sm_find (sm_touch d k m) k' = (if k' = k then Some (sm_at d m k) else sm_find m k')"
  by (simp add: sm_touch_def sm_at_def split: option.splits)

lemma sm_find_modify [simp, map_simps]:
  "sm_find (sm_modify d k f m) k' = (if k' = k then Some (f (sm_at d m k)) else sm_find m k')"
  by (simp add: sm_modify_def)

lemma sm_at_simps [simp, map_simps]:
  "sm_at d sm_empty k = d"
  "sm_at d (sm_put k v m) k' = (if k' = k then v else sm_at d m k')"
  "sm_at d (sm_erase k m) k' = (if k' = k then d else sm_at d m k')"
  "sm_at d (sm_touch d k m) k' = sm_at d m k'"
  "sm_at d (sm_modify d k f m) k' = (if k' = k then f (sm_at d m k) else sm_at d m k')"
  by (auto simp: sm_at_def sm_touch_def sm_modify_def split: option.splits)

lemma sm_find_Some_at: "sm_find m k = Some v \<Longrightarrow> sm_at d m k = v"
  by (simp add: sm_at_def)

lemma sm_find_None_at: "sm_find m k = None \<Longrightarrow> sm_at d m k = d"
  by (simp add: sm_at_def)

lemma sm_count_eq_1_iff [simp]: "sm_count m k = Suc 0 \<longleftrightarrow> sm_find m k \<noteq> None"
  by (simp add: sm_count_def split: option.splits)

lemma sm_count_eq_0_iff [simp]: "sm_count m k = 0 \<longleftrightarrow> sm_find m k = None"
  by (simp add: sm_count_def split: option.splits)

lemma sm_touch_present: "sm_find m k = Some v \<Longrightarrow> sm_touch d k m = m"
  by (simp add: sm_touch_def sm_insert_def)

lemma sm_modify_id: "sm_modify d k (\<lambda>x. x) m = sm_touch d k m"
  by (rule sm_eqI) simp

lemma sm_keys_eqI:
  assumes "\<And>k. sm_find m k \<noteq> None \<longleftrightarrow> sm_find m' k \<noteq> None"
  shows "sm_keys m = sm_keys m'"
  by (rule strict_sorted_equal [OF sorted_sm_keys sorted_sm_keys]) (use assms in \<open>auto simp: set_sm_keys\<close>)


section \<open>Instances\<close>

text \<open>\<open>std::map::size\<close>, and the equality the code generator evaluates.\<close>

instantiation std_map :: (linorder, type) size
begin

definition size_std_map :: "('a, 'b) std_map \<Rightarrow> nat" where
  "size_std_map m = length (entries m)"

instance ..

end

lemma size_eq_card: "size (m :: ('k::linorder, 'v) std_map) = card {k. sm_find m k \<noteq> None}"
proof -
  have "size m = length (sm_keys m)" by (simp add: size_std_map_def sm_keys_def)
  also have "\<dots> = card (set (sm_keys m))" using smap.distinct_keys [of m] by (simp add: distinct_card)
  finally show ?thesis by (simp add: set_sm_keys)
qed

instantiation std_map :: (linorder, type) equal
begin

definition equal_std_map :: "('a, 'b) std_map \<Rightarrow> ('a, 'b) std_map \<Rightarrow> bool" where
  "equal_std_map m n \<longleftrightarrow> entries m = entries n"

instance
  by standard (simp add: equal_std_map_def entries_inject)

end

lemma map_of_entries: "map_of (entries m) k = sm_find m k"
  by (simp add: sm_find.rep_eq)

lemma sm_find_fold_insert:
  "sm_find (fold (\<lambda>(i, p). sm_insert i p) es m) k
    = (case sm_find m k of Some v \<Rightarrow> Some v | None \<Rightarrow> map_of es k)"
  by (induction es arbitrary: m) (auto split: option.splits)

end
