(* ===== verification/Double64.thy ===== *)
theory Double64
  imports Pfr_Prelude "HOL-Library.Log_Nat"
begin

text \<open>
  \<open>double\<close>: IEEE 754 binary64 with round-to-nearest, ties to even.

  A finite value is the rational number it denotes; every operation is the exact operation on
  rationals followed by the rounding \<open>dround\<close>, which overflows to an infinity.  Comparisons with a
  NaN are false, as in C++.  The sign of a zero is not kept: the program never divides by a zero whose
  sign it has computed.  The contract the rest of the development relies on is the locale
  \<open>rounding\<close>: rounding is monotone, odd and idempotent.
\<close>


section \<open>Powers of two and the binary logarithm\<close>

definition pow2 :: "int \<Rightarrow> rat" where
  "pow2 e = (if 0 \<le> e then 2 ^ nat e else 1 / 2 ^ nat (- e))"

lemma pow2_powi: "pow2 e = 2 powi e"
  by (simp only: pow2_def power_int_def inverse_eq_divide power_one_over)

lemma pow2_pos [simp]: "0 < pow2 e"
  by (simp add: pow2_def)

lemma pow2_nonneg [simp]: "0 \<le> pow2 e"
  using pow2_pos [of e] by (rule less_imp_le)

lemma pow2_nz [simp]: "pow2 e \<noteq> 0"
  by (metis less_irrefl pow2_pos)

lemma pow2_add: "pow2 (a + b) = pow2 a * pow2 b"
  by (simp add: pow2_powi power_int_add)

lemma pow2_diff: "pow2 (a - b) = pow2 a / pow2 b"
  by (simp add: pow2_powi power_int_diff)

lemma pow2_mono: "a \<le> b \<Longrightarrow> pow2 a \<le> pow2 b"
  by (simp add: pow2_powi power_int_increasing)

lemma pow2_less: "a < b \<Longrightarrow> pow2 a < pow2 b"
  by (simp add: pow2_powi power_int_strict_increasing)

lemma pow2_less_iff: "pow2 a < pow2 b \<longleftrightarrow> a < b"
  using pow2_less [of a b] pow2_mono [of b a] by (cases "a < b") auto

lemma pow2_le_iff: "pow2 a \<le> pow2 b \<longleftrightarrow> a \<le> b"
  using pow2_less_iff [of b a] by (simp add: linorder_not_less [symmetric])

lemma pow2_0 [simp]: "pow2 0 = 1"
  by (simp add: pow2_def)

lemma pow2_int: "0 \<le> n \<Longrightarrow> pow2 n = of_int (2 ^ nat n)"
  by (simp add: pow2_def)

text \<open>\<open>ilog2 q\<close>: the exponent of the leading binary digit of a positive \<open>q\<close>.\<close>

definition ilog2 :: "rat \<Rightarrow> int" where
  "ilog2 q = (if 1 \<le> q then bitlen \<lfloor>q\<rfloor> - 1 else - bitlen (\<lceil>1 / q\<rceil> - 1))"

lemma bitlen_pow2:
  assumes "0 < a"
  shows "pow2 (bitlen a - 1) \<le> of_int a" and "of_int a < pow2 (bitlen a)"
proof -
  have "1 \<le> bitlen a" using assms by (auto simp: bitlen_alt_def)
  then show "pow2 (bitlen a - 1) \<le> of_int a" and "of_int a < pow2 (bitlen a)"
    using bitlen_bounds [OF assms]
    by (simp_all only: pow2_int of_int_le_iff of_int_less_iff le_diff_eq add_0 bitlen_nonneg)
qed

lemma ilog2_bounds_ge_1:
  assumes "1 \<le> q"
  shows "pow2 (ilog2 q) \<le> q" and "q < pow2 (ilog2 q + 1)"
proof -
  define n where "n = \<lfloor>q\<rfloor>"
  have n: "0 < n" "of_int n \<le> q" "q < of_int (n + 1)"
    using assms by (simp_all add: n_def; linarith)+
  have il: "ilog2 q = bitlen n - 1" using assms by (simp add: ilog2_def n_def)
  have "n + 1 \<le> 2 ^ nat (bitlen n)" using bitlen_bounds [OF n(1)] by simp
  then have "of_int (n + 1) \<le> pow2 (bitlen n)"
    by (simp only: pow2_int bitlen_nonneg of_int_le_iff)
  then show "q < pow2 (ilog2 q + 1)" using n(3) il by simp
  show "pow2 (ilog2 q) \<le> q" using bitlen_pow2(1) [OF n(1)] n(2) il by simp
qed

lemma ilog2_bounds_less_1:
  assumes "0 < q" and "q < 1"
  shows "pow2 (ilog2 q) \<le> q" and "q < pow2 (ilog2 q + 1)"
proof -
  define m where "m = \<lceil>1 / q\<rceil> - 1"
  have "1 < 1 / q" using assms by simp
  then have m: "0 < m" "of_int m < 1 / q" "1 / q \<le> of_int (m + 1)"
    by (simp_all add: m_def; linarith)+
  have il: "ilog2 q = - bitlen m" using assms by (simp add: ilog2_def m_def)
  have "m + 1 \<le> 2 ^ nat (bitlen m)" using bitlen_bounds [OF m(1)] by simp
  then have "of_int (m + 1) \<le> pow2 (bitlen m)"
    by (simp only: pow2_int bitlen_nonneg of_int_le_iff)
  then have "1 / q \<le> pow2 (bitlen m)" using m(3) by simp
  then have "1 / pow2 (bitlen m) \<le> q" using assms by (simp add: field_simps)
  then show "pow2 (ilog2 q) \<le> q" using pow2_diff [of 0 "bitlen m"] il by simp
  have "pow2 (bitlen m - 1) < 1 / q" using bitlen_pow2(1) [OF m(1)] m(2) by simp
  then have "q < 1 / pow2 (bitlen m - 1)" using assms by (simp add: field_simps)
  also have "\<dots> = pow2 (- bitlen m + 1)" using pow2_diff [of 0 "bitlen m - 1"] by simp
  finally show "q < pow2 (ilog2 q + 1)" using il by simp
qed

lemma ilog2_bounds:
  assumes "0 < q"
  shows "pow2 (ilog2 q) \<le> q" and "q < pow2 (ilog2 q + 1)"
  using ilog2_bounds_ge_1 [of q] ilog2_bounds_less_1 [OF assms] by (metis not_le)+

text \<open>Evaluation by the simplifier: the bits of a numeral are its digits.\<close>

lemma bitlen_numeral_simps [dbl_simps]:
  "bitlen 0 = 0"
  "bitlen 1 = 1"
  "bitlen (numeral Num.One) = 1"
  "bitlen (numeral (Num.Bit0 k)) = bitlen (numeral k) + 1"
  "bitlen (numeral (Num.Bit1 k)) = bitlen (numeral k) + 1"
proof -
  show "bitlen 0 = 0" by (simp add: bitlen_def floorlog_def)
  show one: "bitlen 1 = 1" by (subst compute_bitlen) (simp add: bitlen_def floorlog_def)
  then show "bitlen (numeral Num.One) = 1" by simp
  show "bitlen (numeral (Num.Bit0 k)) = bitlen (numeral k) + 1"
    by (subst compute_bitlen) simp
  show "bitlen (numeral (Num.Bit1 k)) = bitlen (numeral k) + 1"
    by (subst compute_bitlen) simp
qed

lemma ilog2_less: "0 < q \<Longrightarrow> q < pow2 e \<Longrightarrow> ilog2 q < e"
  using ilog2_bounds(1) [of q] by (meson order.strict_trans1 pow2_less_iff)

lemma ilog2_mono: "0 < p \<Longrightarrow> p \<le> q \<Longrightarrow> ilog2 p \<le> ilog2 q"
  using ilog2_less [of p "ilog2 q + 1"] ilog2_bounds(2) [of q] by simp

lemma ilog2_unique: "0 < q \<Longrightarrow> pow2 e \<le> q \<Longrightarrow> q < pow2 (e + 1) \<Longrightarrow> ilog2 q = e"
  using ilog2_bounds [of q] pow2_less_iff [of e "ilog2 q + 1"] pow2_less_iff [of "ilog2 q" "e + 1"]
  by force


lemma floor_numeral_divide [dbl_simps]:
  "\<lfloor>numeral a / numeral b :: rat\<rfloor> = numeral a div numeral b"
  "\<lfloor>1 / numeral b :: rat\<rfloor> = 1 div numeral b"
  "\<lfloor>- (numeral a / numeral b) :: rat\<rfloor> = - numeral a div numeral b"
  "\<lfloor>- (1 / numeral b) :: rat\<rfloor> = - 1 div numeral b"
  using floor_divide_of_int_eq [where 'a = rat, of "numeral a" "numeral b"]
    floor_divide_of_int_eq [where 'a = rat, of 1 "numeral b"]
    floor_divide_of_int_eq [where 'a = rat, of "- numeral a" "numeral b"]
    floor_divide_of_int_eq [where 'a = rat, of "- 1" "numeral b"]
  by simp_all

lemma ceiling_numeral_divide [dbl_simps]:
  "\<lceil>numeral a / numeral b :: rat\<rceil> = - (- numeral a div numeral b)"
  "\<lceil>1 / numeral b :: rat\<rceil> = - (- 1 div numeral b)"
  "\<lceil>- (numeral a / numeral b) :: rat\<rceil> = - (numeral a div numeral b)"
  "\<lceil>- (1 / numeral b) :: rat\<rceil> = - (1 div numeral b)"
  by (simp_all add: ceiling_def floor_numeral_divide)


section \<open>Rounding\<close>

text \<open>Round half to even, on rationals.\<close>

definition rhe :: "rat \<Rightarrow> int" where
  "rhe x = (let f = \<lfloor>x\<rfloor>; d = x - of_int f
            in if d < 1 / 2 then f else if d > 1 / 2 then f + 1 else if even f then f else f + 1)"

lemma rhe_int [simp]: "rhe (of_int n) = n"
  by (simp add: rhe_def)

lemma rhe_bounds: "of_int (rhe x) - 1 / 2 \<le> x" "x \<le> of_int (rhe x) + 1 / 2"
  unfolding rhe_def Let_def by (auto; linarith)+

lemma rhe_floor: "\<lfloor>x\<rfloor> \<le> rhe x" "rhe x \<le> \<lfloor>x\<rfloor> + 1"
  by (auto simp: rhe_def Let_def)

lemma rhe_mono: "x \<le> y \<Longrightarrow> rhe x \<le> rhe y"
proof -
  assume xy: "x \<le> y"
  then have f: "\<lfloor>x\<rfloor> \<le> \<lfloor>y\<rfloor>" by (rule floor_mono)
  show ?thesis
  proof (cases "\<lfloor>x\<rfloor> = \<lfloor>y\<rfloor>")
    case True
    then show ?thesis using xy by (auto simp: rhe_def Let_def)
  next
    case False
    then show ?thesis using f rhe_floor [of x] rhe_floor [of y] by linarith
  qed
qed

lemma rhe_le_int: "x \<le> of_int n \<Longrightarrow> rhe x \<le> n"
  using rhe_mono [of x "of_int n"] by simp

lemma rhe_ge_int: "of_int n \<le> x \<Longrightarrow> n \<le> rhe x"
  using rhe_mono [of "of_int n" x] by simp

lemma rhe_small: "0 \<le> x \<Longrightarrow> x < 1 / 2 \<Longrightarrow> rhe x = 0"
proof -
  assume x: "0 \<le> x" "x < 1 / 2"
  then have "\<lfloor>x\<rfloor> = 0" by (simp add: floor_eq_iff)
  with x show ?thesis by (simp add: rhe_def)
qed

lemma rhe_minus: "rhe (- x) = - rhe x"
proof (cases "x = of_int \<lfloor>x\<rfloor>")
  case True
  then show ?thesis using rhe_int [of "- \<lfloor>x\<rfloor>"] rhe_int [of "\<lfloor>x\<rfloor>"] by simp
next
  case False
  have "\<lfloor>- x\<rfloor> = - \<lfloor>x\<rfloor> - 1"
    using False by (intro floor_unique; linarith)
  then show ?thesis by (auto simp: rhe_def Let_def)
qed

text \<open>The exponent of the unit in the last place: 53 significant bits, subnormals from \<open>2^-1074\<close>.\<close>

definition ulp_exp :: "rat \<Rightarrow> int" where
  "ulp_exp q = max (ilog2 \<bar>q\<bar> - 52) (- 1074)"

definition rnd :: "rat \<Rightarrow> rat" where
  "rnd q = (if q = 0 then 0
            else of_int (rhe (q / pow2 (ulp_exp q))) * pow2 (ulp_exp q))"

lemma rnd_0 [simp]: "rnd 0 = 0"
  by (simp add: rnd_def)

lemma rnd_minus: "rnd (- q) = - rnd q"
  by (simp add: rnd_def ulp_exp_def rhe_minus)

lemma rnd_nonneg: "0 \<le> q \<Longrightarrow> 0 \<le> rnd q"
  using rhe_ge_int [of 0 "q / pow2 (ulp_exp q)"] by (simp add: rnd_def)

lemma rnd_upper:
  assumes "0 < q"
  shows "rnd q \<le> pow2 (ilog2 q + 1)"
proof -
  let ?e = "ulp_exp q" and ?k = "ilog2 q + 1"
  have q: "q / pow2 ?e < pow2 (?k - ?e)"
    using ilog2_bounds(2) [OF assms] by (simp add: pow2_diff divide_strict_right_mono)
  show ?thesis
  proof (cases "?e \<le> ?k")
    case True
    then have "pow2 (?k - ?e) = of_int (2 ^ nat (?k - ?e))" by (simp add: pow2_int)
    then have "of_int (rhe (q / pow2 ?e)) \<le> pow2 (?k - ?e)"
      using rhe_le_int [of "q / pow2 ?e" "2 ^ nat (?k - ?e)"] q by (simp only: of_int_le_iff less_imp_le)
    then have "of_int (rhe (q / pow2 ?e)) * pow2 ?e \<le> pow2 (?k - ?e) * pow2 ?e"
      by (rule mult_right_mono) simp
    then show ?thesis using assms by (simp add: rnd_def pow2_diff)
  next
    case False
    then have "pow2 (?k - ?e) \<le> pow2 (- 1)" by (intro pow2_mono) simp
    moreover have "pow2 (- 1) = 1 / 2" by (simp add: pow2_def)
    ultimately have "q / pow2 ?e < 1 / 2" using q by linarith
    then have "rhe (q / pow2 ?e) = 0" using assms by (intro rhe_small) auto
    then show ?thesis using assms by (simp add: rnd_def)
  qed
qed

lemma rnd_lower:
  assumes "0 < q" and "- 1022 \<le> ilog2 q"
  shows "pow2 (ilog2 q) \<le> rnd q"
proof -
  let ?e = "ulp_exp q"
  have e: "?e = ilog2 q - 52" using assms by (simp add: ulp_exp_def)
  have "pow2 52 \<le> q / pow2 ?e"
    using ilog2_bounds(1) [OF assms(1)] by (simp add: e pow2_diff field_simps)
  then have "2 ^ 52 \<le> rhe (q / pow2 ?e)"
    using rhe_ge_int [of "2 ^ 52" "q / pow2 ?e"] by (simp add: pow2_def)
  then have "(of_int (2 ^ 52) :: rat) \<le> of_int (rhe (q / pow2 ?e))" by (simp only: of_int_le_iff)
  then have "pow2 52 \<le> of_int (rhe (q / pow2 ?e))" by (simp add: pow2_def)
  then have "pow2 52 * pow2 ?e \<le> of_int (rhe (q / pow2 ?e)) * pow2 ?e"
    by (rule mult_right_mono) simp
  then show ?thesis using assms by (simp add: rnd_def e pow2_diff)
qed

lemma rnd_mono_pos:
  assumes "0 < p" and "p \<le> q"
  shows "rnd p \<le> rnd q"
proof (cases "ulp_exp p = ulp_exp q")
  case True
  have "p / pow2 (ulp_exp q) \<le> q / pow2 (ulp_exp q)"
    using assms by (intro divide_right_mono) auto
  then have "rhe (p / pow2 (ulp_exp q)) \<le> rhe (q / pow2 (ulp_exp q))" by (rule rhe_mono)
  then show ?thesis using assms True by (simp add: rnd_def mult_right_mono)
next
  case False
  have q: "0 < q" using assms by simp
  have "ilog2 p \<le> ilog2 q" using assms by (rule ilog2_mono)
  with False have l: "ilog2 p < ilog2 q" "- 1022 \<le> ilog2 q"
    using assms q by (auto simp: ulp_exp_def max_def split: if_splits)
  have "rnd p \<le> pow2 (ilog2 p + 1)" using assms(1) by (rule rnd_upper)
  also have "\<dots> \<le> pow2 (ilog2 q)" using l by (intro pow2_mono) simp
  also have "\<dots> \<le> rnd q" using q l(2) by (rule rnd_lower)
  finally show ?thesis .
qed

lemma rnd_mono: "p \<le> q \<Longrightarrow> rnd p \<le> rnd q"
proof -
  assume pq: "p \<le> q"
  consider "0 < p" | "p \<le> 0" "0 \<le> q" | "q < 0" by linarith
  then show ?thesis
  proof cases
    case 1
    then show ?thesis using pq by (rule rnd_mono_pos)
  next
    case 2
    then show ?thesis using rnd_nonneg [of q] rnd_nonneg [of "- p"] by (simp add: rnd_minus)
  next
    case 3
    then show ?thesis using rnd_mono_pos [of "- q" "- p"] pq by (simp add: rnd_minus)
  qed
qed

lemma rnd_grid:
  assumes "x = of_int n * pow2 e" and "ulp_exp x \<le> e"
  shows "rnd x = x"
proof (cases "x = 0")
  case False
  let ?u = "ulp_exp x"
  have "x / pow2 ?u = of_int n * pow2 (e - ?u)" using assms(1) by (simp add: pow2_diff)
  also have "\<dots> = of_int (n * 2 ^ nat (e - ?u))" using assms(2) by (simp add: pow2_int)
  finally have "rhe (x / pow2 ?u) = n * 2 ^ nat (e - ?u)" and eq: "x / pow2 ?u = of_int (n * 2 ^ nat (e - ?u))"
    by (metis rhe_int)+
  then have "rnd x = x / pow2 ?u * pow2 ?u" using False by (simp only: rnd_def if_False)
  then show ?thesis by simp
qed simp

lemma rnd_idem_pos:
  assumes "0 < q"
  shows "rnd (rnd q) = rnd q"
proof (cases "rnd q = 0")
  case False
  let ?x = "rnd q" and ?e = "ulp_exp q" and ?k = "ilog2 q + 1"
  have x: "?x = of_int (rhe (q / pow2 ?e)) * pow2 ?e" using assms by (simp add: rnd_def)
  have pos: "0 < ?x" using False rnd_nonneg [of q] assms by simp
  show ?thesis
  proof (cases "?x < pow2 ?k")
    case True
    then have "ilog2 ?x \<le> ilog2 q" using ilog2_less [OF pos] by fastforce
    then have "ulp_exp ?x \<le> ?e" using assms pos by (simp add: ulp_exp_def)
    with x show ?thesis by (rule rnd_grid)
  next
    case False
    then have xk: "?x = pow2 ?k" using rnd_upper [OF assms] by simp
    have "0 < rhe (q / pow2 ?e)" 
      using zero_less_mult_pos2 [OF _ pow2_pos, of "of_int (rhe (q / pow2 ?e))" ?e] pos by (simp add: x)
    then have "pow2 ?e \<le> ?x" by (simp add: x)
    then have "?e \<le> ?k" by (simp add: xk pow2_le_iff)
    then have k: "- 1074 \<le> ?k" by (simp add: ulp_exp_def)
    have "ilog2 ?x = ?k" using pos xk by (intro ilog2_unique) (auto simp: pow2_less_iff)
    then have "ulp_exp ?x \<le> ?k" using pos k by (simp add: ulp_exp_def)
    moreover have "?x = of_int 1 * pow2 ?k" by (simp add: xk)
    ultimately show ?thesis by (intro rnd_grid)
  qed
qed simp

lemma rnd_idem: "rnd (rnd q) = rnd q"
proof -
  consider "0 < q" | "q = 0" | "0 < - q" by linarith
  then show ?thesis
  proof cases
    case 3
    then show ?thesis using rnd_idem_pos [of "- q"] by (simp add: rnd_minus)
  qed (simp_all add: rnd_idem_pos)
qed

lemma rnd_int:
  assumes "\<bar>n\<bar> \<le> 2 ^ 53"
  shows "rnd (of_int n) = of_int n"
proof -
  have pos: "rnd (of_int n) = of_int n" if n: "0 < n" "n \<le> 2 ^ 53" for n
  proof (cases "n = 2 ^ 53")
    case True
    have "ilog2 (of_int n) = 53" by (rule ilog2_unique) (simp_all add: True pow2_def)
    then have "ulp_exp (of_int n) \<le> 53" by (simp add: ulp_exp_def True)
    then show ?thesis by (intro rnd_grid [of _ 1 53]) (simp_all add: True pow2_def)
  next
    case False
    then have "(of_int n :: rat) < of_int (2 ^ 53)" using n by (simp only: of_int_less_iff)
    then have "ilog2 (of_int n) < 53" using n by (intro ilog2_less) (simp_all add: pow2_def)
    then have "ulp_exp (of_int n) \<le> 0" using n by (simp add: ulp_exp_def)
    then show ?thesis by (intro rnd_grid [of _ n 0]) simp_all
  qed
  consider "0 < n" | "n = 0" | "0 < - n" by linarith
  then show ?thesis
  proof cases
    case 3
    then show ?thesis using pos [of "- n"] assms by (simp add: rnd_minus)
  qed (use pos assms in simp_all)
qed

text \<open>
  The contract of rounding, and what the program's arithmetic gets from it: a correction that is not
  negative never makes a value larger, and a comparison survives rounding.
\<close>

locale rounding =
  fixes round :: "rat \<Rightarrow> rat"
  assumes mono: "p \<le> q \<Longrightarrow> round p \<le> round q"
    and idem: "round (round q) = round q"
    and odd: "round (- q) = - round q"
begin

lemma zero: "round 0 = 0"
  using odd [of 0] by simp

lemma nonneg: "0 \<le> q \<Longrightarrow> 0 \<le> round q"
  using mono [of 0 q] by (simp add: zero)

lemma diff_le: "round p = p \<Longrightarrow> 0 \<le> d \<Longrightarrow> round (p - d) \<le> p"
  using mono [of "p - d" p] by simp

lemma le_add: "round p = p \<Longrightarrow> 0 \<le> d \<Longrightarrow> p \<le> round (p + d)"
  using mono [of p "p + d"] by simp

lemma le_round: "round p = p \<Longrightarrow> p \<le> q \<Longrightarrow> p \<le> round q"
  using mono [of p q] by simp

lemma round_le: "round q = q \<Longrightarrow> p \<le> q \<Longrightarrow> round p \<le> q"
  using mono [of p q] by simp

lemma less_of_round_less: "round p < round q \<Longrightarrow> p < q"
  using mono [of q p] by force

end

interpretation binary64: rounding rnd
  by unfold_locales (simp_all add: rnd_mono rnd_idem rnd_minus)


section \<open>The type\<close>

datatype double = NaN | Inf bool | Fin rat  \<comment> \<open>\<open>Inf True\<close> is minus infinity\<close>

definition dround :: "rat \<Rightarrow> double" where
  "dround q = (if pow2 1024 \<le> \<bar>rnd q\<bar> then Inf (q < 0) else Fin (rnd q))"

text \<open>The values a \<open>double\<close> can hold.\<close>

fun representable :: "double \<Rightarrow> bool" where
  "representable (Fin q) \<longleftrightarrow> rnd q = q \<and> \<bar>q\<bar> < pow2 1024"
| "representable _ \<longleftrightarrow> True"

fun is_finite :: "double \<Rightarrow> bool" where
  "is_finite (Fin q) \<longleftrightarrow> True"
| "is_finite _ \<longleftrightarrow> False"

fun value_of :: "double \<Rightarrow> rat" where
  "value_of (Fin q) = q"
| "value_of _ = 0"

definition d_of_int :: "int \<Rightarrow> double" where
  "d_of_int n = dround (of_int n)"

fun dneg :: "double \<Rightarrow> double" where
  "dneg NaN = NaN"
| "dneg (Inf s) = Inf (\<not> s)"
| "dneg (Fin q) = Fin (- q)"

fun dadd :: "double \<Rightarrow> double \<Rightarrow> double" where
  "dadd (Fin p) (Fin q) = dround (p + q)"
| "dadd NaN _ = NaN"
| "dadd _ NaN = NaN"
| "dadd (Inf s) (Inf t) = (if s = t then Inf s else NaN)"
| "dadd (Inf s) (Fin _) = Inf s"
| "dadd (Fin _) (Inf t) = Inf t"

definition dsub :: "double \<Rightarrow> double \<Rightarrow> double" where
  "dsub x y = dadd x (dneg y)"

fun dmul :: "double \<Rightarrow> double \<Rightarrow> double" where
  "dmul (Fin p) (Fin q) = dround (p * q)"
| "dmul NaN _ = NaN"
| "dmul _ NaN = NaN"
| "dmul (Inf s) (Inf t) = Inf (s \<noteq> t)"
| "dmul (Inf s) (Fin q) = (if q = 0 then NaN else Inf (s \<noteq> (q < 0)))"
| "dmul (Fin p) (Inf t) = (if p = 0 then NaN else Inf (t \<noteq> (p < 0)))"

text \<open>A division by zero is a NaN for \<open>0 / 0\<close> and an infinity otherwise (the zero is positive).\<close>

fun ddiv :: "double \<Rightarrow> double \<Rightarrow> double" where
  "ddiv (Fin p) (Fin q) =
     (if q = 0 then (if p = 0 then NaN else Inf (p < 0)) else dround (p / q))"
| "ddiv NaN _ = NaN"
| "ddiv _ NaN = NaN"
| "ddiv (Inf s) (Inf t) = NaN"
| "ddiv (Inf s) (Fin q) = Inf (s \<noteq> (q < 0))"
| "ddiv (Fin p) (Inf t) = Fin 0"

fun dceil :: "double \<Rightarrow> double" where
  "dceil (Fin q) = Fin (of_int \<lceil>q\<rceil>)"
| "dceil x = x"

fun dless :: "double \<Rightarrow> double \<Rightarrow> bool" where
  "dless (Fin p) (Fin q) \<longleftrightarrow> p < q"
| "dless NaN _ \<longleftrightarrow> False"
| "dless _ NaN \<longleftrightarrow> False"
| "dless (Inf s) (Inf t) \<longleftrightarrow> s \<and> \<not> t"
| "dless (Inf s) (Fin _) \<longleftrightarrow> s"
| "dless (Fin _) (Inf t) \<longleftrightarrow> \<not> t"

text \<open>
  \<open>sqrt\<close> is correctly rounded: the integer square root of the argument scaled by an even power of two,
  corrected to the nearest.
\<close>

fun isqrt :: "nat \<Rightarrow> nat" where
  "isqrt n = (if n = 0 then 0
     else let r = 2 * isqrt (n div 4) in if (r + 1) * (r + 1) \<le> n then r + 1 else r)"

declare isqrt.simps [simp del]

definition sqrt_scaled :: "rat \<Rightarrow> nat" where
  "sqrt_scaled s = (let n = isqrt (nat \<lfloor>s\<rfloor>); h = (of_nat n + 1 / 2) * (of_nat n + 1 / 2)
     in if h < s \<or> h = s \<and> odd n then n + 1 else n)"

fun dsqrt :: "double \<Rightarrow> double" where
  "dsqrt (Fin q) =
     (if q < 0 then NaN else if q = 0 then Fin 0
      else let u = ilog2 q div 2 - 52 in Fin (of_nat (sqrt_scaled (q / pow2 (2 * u))) * pow2 u))"
| "dsqrt (Inf False) = Inf False"
| "dsqrt _ = NaN"


section \<open>Facts\<close>

lemma isqrt_correct: "isqrt n * isqrt n \<le> n \<and> n < (isqrt n + 1) * (isqrt n + 1)"
proof (induction n rule: isqrt.induct)
  case (1 n)
  show ?case
  proof (cases "n = 0")
    case True
    then show ?thesis by (simp add: isqrt.simps [of 0])
  next
    case False
    define r where "r = isqrt (n div 4)"
    have IH: "r * r \<le> n div 4" "n div 4 < (r + 1) * (r + 1)"
      using "1" [OF False] by (simp_all add: r_def)
    have "2 * r * (2 * r) \<le> n" using IH(1) by linarith
    moreover have "n < (2 * r + 1 + 1) * (2 * r + 1 + 1)" using IH(2) by (simp add: algebra_simps)
    ultimately show ?thesis
      using False by (simp add: isqrt.simps [of n] r_def [symmetric] Let_def)
  qed
qed

text \<open>\<open>sqrt_scaled s\<close> is the integer nearest to the square root of \<open>s\<close>, stated on squares.\<close>

lemma sqrt_scaled_nearest:
  assumes "0 \<le> s"
  shows "s \<le> (of_nat (sqrt_scaled s) + 1 / 2) * (of_nat (sqrt_scaled s) + 1 / 2)"
    and "0 < sqrt_scaled s \<Longrightarrow>
      (of_nat (sqrt_scaled s) - 1 / 2) * (of_nat (sqrt_scaled s) - 1 / 2) \<le> s"
proof -
  define n where "n = isqrt (nat \<lfloor>s\<rfloor>)"
  have fl: "of_nat (nat \<lfloor>s\<rfloor>) \<le> s" "s < of_nat (nat \<lfloor>s\<rfloor> + 1)"
    using assms by (simp_all add: of_nat_nat) linarith+
  have n: "n * n \<le> nat \<lfloor>s\<rfloor>" "nat \<lfloor>s\<rfloor> + 1 \<le> (n + 1) * (n + 1)"
    using isqrt_correct [of "nat \<lfloor>s\<rfloor>"] by (simp_all add: n_def)
  have lo: "of_nat n * of_nat n \<le> s"
    using of_nat_mono [OF n(1), where 'a = rat] fl(1) by simp
  have hi: "s < (of_nat n + 1) * (of_nat n + 1)"
    using n(2) fl(2) of_nat_mono [OF n(2), where 'a = rat] by (simp add: algebra_simps)
  show "s \<le> (of_nat (sqrt_scaled s) + 1 / 2) * (of_nat (sqrt_scaled s) + 1 / 2)"
    using hi by (auto simp: sqrt_scaled_def n_def [symmetric] Let_def algebra_simps)
  show "0 < sqrt_scaled s \<Longrightarrow>
      (of_nat (sqrt_scaled s) - 1 / 2) * (of_nat (sqrt_scaled s) - 1 / 2) \<le> s"
    using lo by (auto simp: sqrt_scaled_def n_def [symmetric] Let_def algebra_simps split: if_splits)
qed

lemma representable_dround [simp]: "representable (dround q)"
  by (simp add: dround_def rnd_idem)

lemma representable_neg: "representable x \<Longrightarrow> representable (dneg x)"
  by (cases x) (simp_all add: rnd_minus)

lemma representable_add: "representable x \<Longrightarrow> representable y \<Longrightarrow> representable (dadd x y)"
  by (cases x; cases y) simp_all

lemma representable_sub: "representable x \<Longrightarrow> representable y \<Longrightarrow> representable (dsub x y)"
  by (simp add: dsub_def representable_add representable_neg)

lemma representable_mul: "representable x \<Longrightarrow> representable y \<Longrightarrow> representable (dmul x y)"
  by (cases x; cases y) simp_all

lemma pow2_1024_pos [simp]: "\<not> pow2 1024 \<le> 0" "0 < pow2 1024"
  by (simp_all add: not_le)

lemma representable_div: "representable x \<Longrightarrow> representable y \<Longrightarrow> representable (ddiv x y)"
  by (cases x; cases y) simp_all

lemma representable_of_int [simp]: "representable (d_of_int n)"
  by (simp add: d_of_int_def)

lemmas representable_ops = representable_neg representable_add representable_sub
  representable_mul representable_div

lemma dround_exact: "representable (Fin q) \<Longrightarrow> dround q = Fin q"
  by (simp add: dround_def not_le)

lemma two_53_less: "(2::rat) ^ 53 < pow2 1024"
proof -
  have "(2::rat) ^ 53 = pow2 53" by (simp add: pow2_def)
  also have "\<dots> < pow2 1024" by (rule pow2_less) simp
  finally show ?thesis .
qed

lemma dround_between:
  assumes "of_int l \<le> q" and "q \<le> of_int u" and "\<bar>l\<bar> \<le> 2 ^ 53" and "\<bar>u\<bar> \<le> 2 ^ 53"
  obtains x where "dround q = Fin x" and "of_int l \<le> x" and "x \<le> of_int u"
proof -
  have x: "of_int l \<le> rnd q" "rnd q \<le> of_int u"
    using rnd_mono [OF assms(1)] rnd_mono [OF assms(2)] assms(3,4) by (simp_all add: rnd_int)
  have "\<bar>of_int l :: rat\<bar> \<le> 2 ^ 53" "\<bar>of_int u :: rat\<bar> \<le> 2 ^ 53"
    using assms(3,4) by (metis of_int_abs of_int_le_iff of_int_numeral of_int_power)+
  then have "\<bar>rnd q\<bar> \<le> 2 ^ 53" using x by linarith
  then have "\<not> pow2 1024 \<le> \<bar>rnd q\<bar>" using two_53_less by linarith
  then have "dround q = Fin (rnd q)" by (simp add: dround_def)
  then show thesis using that x by blast
qed

lemma d_of_int_exact [dbl_simps]:
  assumes "\<bar>n\<bar> \<le> 2 ^ 53"
  shows "d_of_int n = Fin (of_int n)"
proof -
  have "(of_int \<bar>n\<bar> :: rat) \<le> of_int (2 ^ 53)" using assms by (simp only: of_int_le_iff)
  then have "\<bar>of_int n :: rat\<bar> < pow2 1024" using two_53_less by simp
  then show ?thesis using assms by (simp add: d_of_int_def dround_def rnd_int)
qed

lemma dless_irrefl [simp]: "\<not> dless x x"
  by (cases x) auto

lemma dless_trans: "dless x y \<Longrightarrow> dless y z \<Longrightarrow> dless x z"
  by (cases x; cases y; cases z) auto

lemma dless_asym: "dless x y \<Longrightarrow> \<not> dless y x"
  by (cases x; cases y) auto

lemma dless_NaN [simp]: "\<not> dless NaN x" "\<not> dless x NaN"
  by (cases x; simp)+

lemma dless_not_NaN: "dless x y \<Longrightarrow> x \<noteq> NaN \<and> y \<noteq> NaN"
  by auto

text \<open>On values that are not NaNs the comparison is a strict linear order.\<close>

lemma dless_total: "x \<noteq> NaN \<Longrightarrow> y \<noteq> NaN \<Longrightarrow> x = y \<or> dless x y \<or> dless y x"
  by (cases x; cases y) auto

lemma not_dless_trans:
  assumes "\<not> dless y x" and "\<not> dless z y" and "y \<noteq> NaN"
  shows "\<not> dless z x"
  using assms dless_total [of x y] dless_total [of y z] dless_trans [of z x y] dless_trans [of x y z]
  by (metis dless_NaN dless_trans)

text \<open>A correction that is not negative never makes a finite value larger.\<close>

lemma dsub_nonneg_le:
  assumes "representable (Fin p)" and "0 \<le> d"
  shows "\<not> dless (Fin p) (dsub (Fin p) (Fin d))"
proof -
  have le: "rnd (p - d) \<le> p" using binary64.diff_le assms by simp
  moreover have "p - d < 0" if "pow2 1024 \<le> \<bar>rnd (p - d)\<bar>"
  proof (rule ccontr)
    assume "\<not> p - d < 0"
    then have "\<bar>rnd (p - d)\<bar> \<le> p" using le rnd_nonneg [of "p - d"] by simp
    then show False using that assms by simp
  qed
  ultimately show ?thesis by (simp add: dsub_def dround_def not_less)
qed

lemma dmul_nonneg:
  assumes "0 \<le> p" and "0 \<le> q" and "dmul (Fin p) (Fin q) = Fin d"
  shows "0 \<le> d"
  using assms rnd_nonneg [of "p * q"] by (simp add: dround_def split: if_splits)

text \<open>The values between two integers, and what sums of them become.\<close>

definition between :: "int \<Rightarrow> int \<Rightarrow> double \<Rightarrow> bool" where
  "between l u x \<longleftrightarrow> (\<exists>q. x = Fin q \<and> of_int l \<le> q \<and> q \<le> of_int u)"

lemma fold_dadd_between:
  assumes "\<forall>x \<in> set xs. between l u x" and "0 \<le> l" and "(int j + int (length xs)) * u \<le> 2 ^ 53"
    and "between (int j * l) (int j * u) a"
  shows "between ((int j + int (length xs)) * l) ((int j + int (length xs)) * u)
    (fold (\<lambda>x a. dadd a x) xs a)"
  using assms
proof (induction xs arbitrary: j a)
  case (Cons x xs)
  obtain q where q: "x = Fin q" "of_int l \<le> q" "q \<le> of_int u" using Cons.prems(1) by (auto simp: between_def)
  obtain p where p: "a = Fin p" "of_int (int j * l) \<le> p" "p \<le> of_int (int j * u)"
    using Cons.prems(4) by (auto simp: between_def)
  have lu: "0 \<le> u" "l \<le> u" using q(2,3) Cons.prems(2) of_int_le_iff [of l u, where 'a = rat] by auto
  have "int (Suc j) * u \<le> (int j + int (length (x # xs))) * u" using lu by (intro mult_right_mono) simp_all
  then have U: "int (Suc j) * u \<le> 2 ^ 53" using Cons.prems(3) by linarith
  have "int (Suc j) * l \<le> int (Suc j) * u" using lu by (intro mult_left_mono) simp_all
  moreover have "0 \<le> int (Suc j) * l" using Cons.prems(2) by (intro mult_nonneg_nonneg) simp_all
  ultimately have L: "\<bar>int (Suc j) * l\<bar> \<le> 2 ^ 53" using U by linarith
  have b: "of_int (int (Suc j) * l) \<le> p + q" "p + q \<le> of_int (int (Suc j) * u)"
    using p(2,3) q(2,3) by (simp_all add: algebra_simps)
  have "\<bar>int (Suc j) * u\<bar> \<le> 2 ^ 53" using U lu(1) by simp
  then obtain y where y: "dround (p + q) = Fin y" "of_int (int (Suc j) * l) \<le> y" "y \<le> of_int (int (Suc j) * u)"
    using dround_between [OF b L] by blast
  have "between (int (Suc j) * l) (int (Suc j) * u) (dadd a x)"
    using y by (simp add: between_def p(1) q(1) del: of_nat_Suc)
  then have "between ((int (Suc j) + int (length xs)) * l) ((int (Suc j) + int (length xs)) * u)
      (fold (\<lambda>x a. dadd a x) xs (dadd a x))"
    using Cons.prems by (intro Cons.IH) (simp_all add: algebra_simps)
  then show ?case by (simp add: add.commute add.left_commute)
qed simp

text \<open>What evaluates a closed term of the model's arithmetic.\<close>

lemmas dbl_eval = dbl_simps dround_def rnd_def ulp_exp_def ilog2_def rhe_def pow2_def Let_def
  d_of_int_def dsub_def sqrt_scaled_def isqrt.simps

end
