(* ===== verification/C_String.thy ===== *)
theory C_String
  imports Pfr_Prelude "HOL-Library.Word"
begin

text \<open>
  Strings and the conversions of the C and C++ standard libraries the program calls: \<open>atoi\<close>,
  \<open>std::stoi\<close>, \<open>std::to_string\<close>, \<open>std::string::find\<close> and \<open>substr\<close>; and the interfaces of the two
  functions the program calls outside of them: \<open>boost::split\<close> with compressed tokens and the C
  library's \<open>inet_aton\<close>.  These two are parameters of the definitions that use them; the locales
  state what their documentation promises and are interpreted on the reference functions
  \<open>split_runs\<close> and \<open>aton_dotted\<close>, which the witnesses run.
\<close>


section \<open>Integers\<close>

text \<open>Conversion to a 32-bit \<open>int\<close>: two's complement, as the compiler does it.\<close>

definition to_int32 :: "int \<Rightarrow> int" where
  "to_int32 n = signed_take_bit 31 n"

lemma to_int32_id: "- (2 ^ 31) \<le> n \<Longrightarrow> n < 2 ^ 31 \<Longrightarrow> to_int32 n = n"
  by (simp add: to_int32_def signed_take_bit_int_eq_self)

lemma to_int32_range: "- (2 ^ 31) \<le> to_int32 n" "to_int32 n < 2 ^ 31"
  using signed_take_bit_int_greater_eq_minus_exp [of 31 n] signed_take_bit_int_less_exp [of 31 n]
  by (simp_all add: to_int32_def)


section \<open>Decimal numbers\<close>

definition is_digit :: "char \<Rightarrow> bool" where
  "is_digit c \<longleftrightarrow> 48 \<le> (of_char c :: nat) \<and> (of_char c :: nat) \<le> 57"

definition digit_val :: "char \<Rightarrow> nat" where
  "digit_val c = of_char c - 48"

definition is_space :: "char \<Rightarrow> bool" where
  "is_space c \<longleftrightarrow> (of_char c :: nat) = 32 \<or> 9 \<le> (of_char c :: nat) \<and> (of_char c :: nat) \<le> 13"

fun dec_value :: "string \<Rightarrow> nat \<Rightarrow> nat" where
  "dec_value [] acc = acc"
| "dec_value (c # cs) acc = dec_value cs (10 * acc + digit_val c)"

text \<open>\<open>strtol(s, 0, 10)\<close> before any clamping; \<open>None\<close> when there is no digit to convert.\<close>

definition unsigned_prefix :: "string \<Rightarrow> nat option" where
  "unsigned_prefix s =
     (let ds = takeWhile is_digit s in if ds = [] then None else Some (dec_value ds 0))"

definition strtol10 :: "string \<Rightarrow> int option" where
  "strtol10 s = (case dropWhile is_space s of
       [] \<Rightarrow> None
     | c # cs \<Rightarrow> (if c = CHR ''-'' then map_option (\<lambda>n. - int n) (unsigned_prefix cs)
                 else if c = CHR ''+'' then map_option int (unsigned_prefix cs)
                 else map_option int (unsigned_prefix (c # cs))))"

text \<open>\<open>atoi\<close> is \<open>(int) strtol(s, 0, 10)\<close>: 0 for a string without a number, clamped to 64 bits and cut
  to 32.\<close>

definition atoi :: "string \<Rightarrow> int" where
  "atoi s = (case strtol10 s of None \<Rightarrow> 0
     | Some n \<Rightarrow> to_int32 (max (- (2 ^ 63)) (min (2 ^ 63 - 1) n)))"

text \<open>\<open>std::stoi\<close> throws where \<open>atoi\<close> invents a number.\<close>

definition stoi :: "string \<Rightarrow> int res" where
  "stoi s = (case strtol10 s of
       None \<Rightarrow> Inl (Uncaught ''std::invalid_argument'')
     | Some n \<Rightarrow> (if - (2 ^ 31) \<le> n \<and> n < 2 ^ 31 then Inr n
                 else Inl (Uncaught ''std::out_of_range'')))"

definition digit_char :: "nat \<Rightarrow> char" where
  "digit_char d = char_of (48 + d)"

fun nat_to_string :: "nat \<Rightarrow> string" where
  "nat_to_string n =
     (if n < 10 then [digit_char n] else nat_to_string (n div 10) @ [digit_char (n mod 10)])"

declare nat_to_string.simps [simp del]

definition to_string :: "int \<Rightarrow> string" where
  "to_string n = (if n < 0 then CHR ''-'' # nat_to_string (nat (- n)) else nat_to_string (nat n))"

lemma digit_char_props:
  assumes "d < 10"
  shows "is_digit (digit_char d)" and "digit_val (digit_char d) = d"
  using assms by (simp_all add: is_digit_def digit_val_def digit_char_def)

lemma dec_value_append: "dec_value (xs @ ys) a = dec_value ys (dec_value xs a)"
  by (induction xs arbitrary: a) simp_all

lemma nat_to_string_digits: "\<forall>c \<in> set (nat_to_string n). is_digit c"
  by (induction n rule: nat_to_string.induct)
    (subst nat_to_string.simps, auto simp: digit_char_props)

lemma nat_to_string_nonempty: "nat_to_string n \<noteq> []"
  by (subst nat_to_string.simps) simp

lemma dec_value_nat_to_string: "dec_value (nat_to_string n) 0 = n"
proof (induction n rule: nat_to_string.induct)
  case (1 n)
  then show ?case
    by (subst nat_to_string.simps) (auto simp: dec_value_append digit_char_props)
qed

lemma unsigned_prefix_nat_to_string:
  assumes "rest = [] \<or> \<not> is_digit (hd rest)"
  shows "unsigned_prefix (nat_to_string n @ rest) = Some n"
proof -
  have "takeWhile is_digit (nat_to_string n @ rest) = nat_to_string n"
    using assms nat_to_string_digits [of n]
    by (cases rest) (auto simp: takeWhile_append takeWhile_eq_all_conv)
  then show ?thesis
    by (simp add: unsigned_prefix_def nat_to_string_nonempty dec_value_nat_to_string)
qed

lemma digit_not_special:
  "is_digit c \<Longrightarrow> \<not> is_space c \<and> c \<noteq> CHR ''-'' \<and> c \<noteq> CHR ''+''
    \<and> c \<noteq> CHR ''.'' \<and> c \<noteq> CHR '':'' \<and> c \<noteq> CHR '','' \<and> c \<noteq> CHR ''/''"
  by (auto simp: is_digit_def is_space_def)

lemma nat_to_string_hd: "\<exists>c cs. nat_to_string n = c # cs \<and> is_digit c"
  using nat_to_string_nonempty [of n] nat_to_string_digits [of n]
  by (cases "nat_to_string n") auto

lemma strtol10_nat:
  assumes "rest = [] \<or> \<not> is_digit (hd rest)"
  shows "strtol10 (nat_to_string n @ rest) = Some (int n)"
proof -
  obtain c cs where c: "nat_to_string n = c # cs" "is_digit c" using nat_to_string_hd by blast
  have "unsigned_prefix (c # cs @ rest) = Some n"
    using unsigned_prefix_nat_to_string [OF assms, of n] c by simp
  then show ?thesis using c digit_not_special [OF c(2)] by (simp add: strtol10_def)
qed

lemma strtol10_to_string: "strtol10 (to_string n) = Some n"
proof (cases "n < 0")
  case True
  have "unsigned_prefix (nat_to_string (nat (- n))) = Some (nat (- n))"
    using unsigned_prefix_nat_to_string [of "[]"] by simp
  then show ?thesis using True by (simp add: to_string_def strtol10_def is_space_def)
next
  case False
  then show ?thesis using strtol10_nat [of "[]" "nat n"] by (simp add: to_string_def)
qed

lemma stoi_to_string: "- (2 ^ 31) \<le> n \<Longrightarrow> n < 2 ^ 31 \<Longrightarrow> stoi (to_string n) = Inr n"
  by (simp add: stoi_def strtol10_to_string)

lemma atoi_to_string: "- (2 ^ 31) \<le> n \<Longrightarrow> n < 2 ^ 31 \<Longrightarrow> atoi (to_string n) = n"
  by (simp add: atoi_def strtol10_to_string to_int32_id min_def max_def)


section \<open>Searching\<close>

text \<open>\<open>s.find(c)\<close> (\<open>None\<close> is \<open>npos\<close>), \<open>s.substr(0, pos)\<close> and \<open>s.substr(pos)\<close>.\<close>

fun str_find :: "char \<Rightarrow> string \<Rightarrow> nat option" where
  "str_find c [] = None"
| "str_find c (d # ds) = (if d = c then Some 0 else map_option Suc (str_find c ds))"

text \<open>\<open>s.substr(0, s.find(c))\<close> and \<open>s.substr(s.find(c) + 1)\<close>: with \<open>npos\<close> both are the whole string.\<close>

definition before_char :: "char \<Rightarrow> string \<Rightarrow> string" where
  "before_char c s = (case str_find c s of None \<Rightarrow> s | Some i \<Rightarrow> take i s)"

definition after_char :: "char \<Rightarrow> string \<Rightarrow> string" where
  "after_char c s = (case str_find c s of None \<Rightarrow> s | Some i \<Rightarrow> drop (i + 1) s)"

lemma str_find_None_iff: "str_find c s = None \<longleftrightarrow> c \<notin> set s"
  by (induction c s rule: str_find.induct) auto

lemma str_find_append:
  "c \<notin> set a \<Longrightarrow> str_find c (a @ c # b) = Some (length a)"
  by (induction a) auto

lemma before_after_append:
  assumes "c \<notin> set a"
  shows "before_char c (a @ c # b) = a" and "after_char c (a @ c # b) = b"
  using assms by (simp_all add: before_char_def after_char_def str_find_append)


section \<open>Splitting: \<open>boost::split\<close> with \<open>token_compress_on\<close>\<close>

text \<open>
  Documented behaviour: the input is cut at every maximal run of delimiters; runs at the ends give
  empty tokens, and an input without delimiters is its only token.
\<close>

locale token_split =
  fixes split :: "(char \<Rightarrow> bool) \<Rightarrow> string \<Rightarrow> string list"
  assumes split_none: "\<forall>c \<in> set s. \<not> p c \<Longrightarrow> split p s = [s]"
    and split_run: "\<forall>c \<in> set a. \<not> p c \<Longrightarrow> d \<noteq> [] \<Longrightarrow> \<forall>c \<in> set d. p c \<Longrightarrow> b = [] \<or> \<not> p (hd b)
      \<Longrightarrow> split p (a @ d @ b) = a # split p b"
begin

lemma split_nonempty: "split p s \<noteq> []"
proof -
  define a where "a = takeWhile (\<lambda>c. \<not> p c) s"
  define r where "r = dropWhile (\<lambda>c. \<not> p c) s"
  have s: "s = a @ r" by (simp add: a_def r_def)
  have a: "\<forall>c \<in> set a. \<not> p c" by (auto simp: a_def dest: set_takeWhileD)
  show ?thesis
  proof (cases r)
    case Nil
    then show ?thesis using split_none [OF a] s by simp
  next
    case (Cons c cs)
    then have "r \<noteq> []" by simp
    then have c: "p c" using hd_dropWhile [of "\<lambda>c. \<not> p c" s] Cons unfolding r_def by fastforce
    have "r = takeWhile p r @ dropWhile p r" by simp
    moreover have "takeWhile p r \<noteq> []" using Cons c by simp
    moreover have "\<forall>c \<in> set (takeWhile p r). p c" by (auto dest: set_takeWhileD)
    moreover have "dropWhile p r = [] \<or> \<not> p (hd (dropWhile p r))" using hd_dropWhile by blast
    ultimately show ?thesis using split_run [OF a] s by (metis list.distinct(1))
  qed
qed

text \<open>A line of two tokens is a key, a run of delimiters and a value.\<close>

lemma split_key_value:
  assumes "\<forall>c \<in> set k. \<not> p c" and "d \<noteq> []" and "\<forall>c \<in> set d. p c" and "\<forall>c \<in> set v. \<not> p c"
  shows "split p (k @ d @ v) = [k, v]"
proof -
  have "v = [] \<or> \<not> p (hd v)" using assms(4) by (cases v) auto
  then show ?thesis using split_run [OF assms(1-3)] split_none [OF assms(4)] by simp
qed

end

function split_runs :: "(char \<Rightarrow> bool) \<Rightarrow> string \<Rightarrow> string list" where
  "split_runs p s =
     (let a = takeWhile (\<lambda>c. \<not> p c) s; r = dropWhile (\<lambda>c. \<not> p c) s
      in if r = [] then [a] else a # split_runs p (dropWhile p (tl r)))"
  by pat_completeness auto
termination
proof (relation "measure (\<lambda>(p, s). length s)", goal_cases)
  case (2 p s a r)
  have "length (dropWhile p (tl r)) \<le> length (tl r)" by (rule length_dropWhile_le)
  also have "\<dots> < length r" using 2 by (cases r) auto
  also have "\<dots> \<le> length s" using 2 by (simp add: length_dropWhile_le)
  finally show ?case by simp
qed simp

declare split_runs.simps [simp del]

interpretation runs: token_split split_runs
proof (unfold_locales, goal_cases)
  case (1 s p)
  then have "dropWhile (\<lambda>c. \<not> p c) s = []" "takeWhile (\<lambda>c. \<not> p c) s = s"
    by (simp_all add: dropWhile_eq_Nil_conv takeWhile_eq_all_conv)
  then show ?case by (simp add: split_runs.simps [of p s] Let_def)
next
  case (2 a p d b)
  obtain c d' where d: "d = c # d'" "p c" using 2 by (cases d) auto
  have "takeWhile (\<lambda>c. \<not> p c) (a @ d @ b) = a" "dropWhile (\<lambda>c. \<not> p c) (a @ d @ b) = d @ b"
    using 2 d by (simp_all add: takeWhile_append dropWhile_append takeWhile_eq_all_conv dropWhile_eq_Nil_conv)
  moreover have "dropWhile p (d' @ b) = b"
    using 2 d by (cases b) (auto simp: dropWhile_append dropWhile_eq_Nil_conv)
  ultimately show ?case by (subst split_runs.simps) (simp add: Let_def d(1))
qed


section \<open>IPv4 addresses: \<open>inet_aton\<close>\<close>

text \<open>
  \<open>s_addr\<close> of an address: the four octets in network order, read as a 32-bit word by a little-endian
  host (the program swaps the fields of its packets unconditionally, so that is the host it is for).
\<close>

definition s_addr_of :: "nat \<Rightarrow> nat \<Rightarrow> nat \<Rightarrow> nat \<Rightarrow> 32 word" where
  "s_addr_of a b c d = of_nat a + of_nat b * 2 ^ 8 + of_nat c * 2 ^ 16 + of_nat d * 2 ^ 24"

definition dotted :: "nat \<Rightarrow> nat \<Rightarrow> nat \<Rightarrow> nat \<Rightarrow> string" where
  "dotted a b c d = nat_to_string a @ ''.'' @ nat_to_string b @ ''.'' @ nat_to_string c @ ''.'' @ nat_to_string d"

lemma length_nat_to_string: "n < 10 \<Longrightarrow> length (nat_to_string n) = 1"
  "10 \<le> n \<Longrightarrow> n < 100 \<Longrightarrow> length (nat_to_string n) = 2"
  "100 \<le> n \<Longrightarrow> n < 1000 \<Longrightarrow> length (nat_to_string n) = 3"
proof -
  show one: "length (nat_to_string n) = 1" if "n < 10" for n
    using that by (subst nat_to_string.simps) simp
  show two: "length (nat_to_string n) = 2" if "10 \<le> n" "n < 100" for n
    using that one [of "n div 10"] by (subst nat_to_string.simps) simp
  show "length (nat_to_string n) = 3" if "100 \<le> n" "n < 1000" for n
    using that two [of "n div 10"] by (subst nat_to_string.simps) simp
qed

lemma length_octet_le: "n < 256 \<Longrightarrow> length (nat_to_string n) \<le> 3"
  using length_nat_to_string [of n] by (cases "n < 10"; cases "n < 100") auto

lemma length_dotted:
  "length (dotted a b c d) = length (nat_to_string a) + length (nat_to_string b)
    + length (nat_to_string c) + length (nat_to_string d) + 3"
  by (simp add: dotted_def)

locale address_parser =
  fixes aton :: "string \<Rightarrow> 32 word option"
  assumes aton_dotted: "a < 256 \<Longrightarrow> b < 256 \<Longrightarrow> c < 256 \<Longrightarrow> d < 256
      \<Longrightarrow> aton (dotted a b c d) = Some (s_addr_of a b c d)"
    and aton_empty: "aton [] = None"

fun split_on :: "char \<Rightarrow> string \<Rightarrow> string list" where
  "split_on c [] = [[]]"
| "split_on c (x # xs) =
     (if x = c then [] # split_on c xs
      else (case split_on c xs of [] \<Rightarrow> [[x]] | t # ts \<Rightarrow> (x # t) # ts))"

definition octet :: "string \<Rightarrow> nat option" where
  "octet s = (if s \<noteq> [] \<and> list_all is_digit s \<and> dec_value s 0 < 256
              then Some (dec_value s 0) else None)"

definition aton_dotted :: "string \<Rightarrow> 32 word option" where
  "aton_dotted s = (case map octet (split_on CHR ''.'' s) of
       [Some a, Some b, Some c, Some d] \<Rightarrow> Some (s_addr_of a b c d)
     | _ \<Rightarrow> None)"

lemma split_on_none: "c \<notin> set s \<Longrightarrow> split_on c s = [s]"
  by (induction c s rule: split_on.induct) auto

lemma split_on_append: "c \<notin> set a \<Longrightarrow> split_on c (a @ c # b) = a # split_on c b"
  by (induction a) auto

lemma octet_nat_to_string: "n < 256 \<Longrightarrow> octet (nat_to_string n) = Some n"
  using nat_to_string_digits [of n]
  by (simp add: octet_def nat_to_string_nonempty dec_value_nat_to_string list_all_iff)

lemma dot_notin_nat_to_string: "CHR ''.'' \<notin> set (nat_to_string n)"
  using nat_to_string_digits [of n] digit_not_special by blast

interpretation dotted_quad: address_parser aton_dotted
proof (unfold_locales, goal_cases)
  case (1 a b c d)
  then show ?case
    by (simp add: aton_dotted_def dotted_def split_on_append split_on_none
        dot_notin_nat_to_string octet_nat_to_string)
next
  case 2
  show ?case by (simp add: aton_dotted_def octet_def)
qed

end
