(* ===== verification/Pfr_Config.thy ===== *)
theory Pfr_Config
  imports Std_Map Double64 C_String
begin

text \<open>
  The configuration of the daemon (\<open>src/src/pfrd.cpp\<close>): the global variables with their initial
  values, \<open>load_configuration_file\<close>, which the program runs at its start and again on \<open>SIGUSR2\<close>, and
  \<open>thread_name\<close>.

  \<open>configuration_map\<close> is a global of the program: it keeps its entries from one reading to the next.
  The file is a parameter (\<open>None\<close> when it cannot be opened), as is \<open>boost::split\<close>.
\<close>


section \<open>The global variables\<close>

record config =
  c_customer_id :: int
  c_pfr_ping_req :: int
  c_max_time_of_echo :: int
  c_sleep_after_join :: int
  c_sleep_after_update :: int
  c_sleep_before_next_loop :: int
  c_pid_path :: string
  c_deep_delete :: int
  c_min_rtt :: double
  c_src_addr :: string
  c_usleep_between_echo :: int
  c_gobgp_path :: string
  c_localnets :: string
  c_max_load :: int
  c_df :: int
  c_dscp :: int
  c_log_level :: string
  c_enable_advertise :: bool
  c_enable_explicit_withdraw :: bool
  c_enable_sql_log :: bool
  c_pfrd_sndr_name_digit :: int
  c_path_metric :: string
  c_netconf_ip :: string
  c_snmp_ip :: string
  c_enable_gobgp_grpc :: bool
  c_gobgp_grpc_host :: string
  c_gobgp_grpc_port :: int
  c_pghost :: string
  c_pgport :: string
  c_db_name :: string
  c_login :: string
  c_pwd :: string
  c_peer_address :: string
  c_peer_port :: int
  c_peer_type :: string
  c_rtt_least_thresh :: int
  c_rtt_least_move :: bool
  c_enable_advertise_same :: bool

definition initial_config :: config where
  "initial_config = \<lparr>
     c_customer_id = 0,
     c_pfr_ping_req = 5,
     c_max_time_of_echo = 1200,
     c_sleep_after_join = 6,
     c_sleep_after_update = 30,
     c_sleep_before_next_loop = 20,
     c_pid_path = [],
     c_deep_delete = 3,
     c_min_rtt = Fin 50000,
     c_src_addr = ''1.0.5.230'',
     c_usleep_between_echo = 2500,
     c_gobgp_path = [],
     c_localnets = [],
     c_max_load = 0,
     c_df = 0,
     c_dscp = 0,
     c_log_level = ''debug'',
     c_enable_advertise = True,
     c_enable_explicit_withdraw = False,
     c_enable_sql_log = True,
     c_pfrd_sndr_name_digit = 5,
     c_path_metric = ''metric0'',
     c_netconf_ip = ''lo'',
     c_snmp_ip = ''lo'',
     c_enable_gobgp_grpc = False,
     c_gobgp_grpc_host = ''127.0.0.1'',
     c_gobgp_grpc_port = 50051,
     c_pghost = ''127.0.0.1'',
     c_pgport = ''5432'',
     c_db_name = ''vc'',
     c_login = ''vc'',
     c_pwd = ''vc'',
     c_peer_address = ''10.0.5.233'',
     c_peer_port = 8877,
     c_peer_type = ''master'',
     c_rtt_least_thresh = 10,
     c_rtt_least_move = True,
     c_enable_advertise_same = True\<rparr>"


section \<open>Reading the file\<close>

definition convert_string_to_integer :: "string \<Rightarrow> int" where
  "convert_string_to_integer line = atoi line"

text \<open>\<open>boost::is_any_of(" =")\<close>.\<close>

definition conf_delim :: "char \<Rightarrow> bool" where
  "conf_delim c \<longleftrightarrow> c = CHR '' '' \<or> c = CHR ''=''"

definition parse_config_line ::
  "((char \<Rightarrow> bool) \<Rightarrow> string \<Rightarrow> string list) \<Rightarrow> string
    \<Rightarrow> (string, string) std_map \<Rightarrow> (string, string) std_map" where
  "parse_config_line split line m =
     (if (line \<noteq> [] \<and> hd line = CHR ''#'') \<or> line = [] then m
      else (case split conf_delim line of
          [k, v] \<Rightarrow> sm_put k v m
        | _ \<Rightarrow> m))"

text \<open>The four shapes of \<open>if (configuration_map.count(...)) ...\<close>.\<close>

definition conf_str :: "(string, string) std_map \<Rightarrow> string \<Rightarrow> string \<Rightarrow> string" where
  "conf_str m key old = (case sm_find m key of None \<Rightarrow> old | Some v \<Rightarrow> v)"

definition conf_int :: "(string, string) std_map \<Rightarrow> string \<Rightarrow> int \<Rightarrow> int" where
  "conf_int m key old = (case sm_find m key of None \<Rightarrow> old | Some v \<Rightarrow> convert_string_to_integer v)"

definition conf_on :: "(string, string) std_map \<Rightarrow> string \<Rightarrow> bool \<Rightarrow> bool" where
  "conf_on m key old = (case sm_find m key of None \<Rightarrow> old | Some v \<Rightarrow> v = ''on'')"

definition conf_lo :: "(string, string) std_map \<Rightarrow> string \<Rightarrow> string \<Rightarrow> string" where
  "conf_lo m key old = (case sm_find m key of None \<Rightarrow> old
     | Some v \<Rightarrow> if v = ''lo'' then ''lo'' else ''oob'')"

definition conf_metric :: "(string, string) std_map \<Rightarrow> string \<Rightarrow> string \<Rightarrow> string" where
  "conf_metric m key old = (case sm_find m key of None \<Rightarrow> old
     | Some v \<Rightarrow> if v = ''metric0'' then ''metric0''
        else if v = ''metric1'' then ''metric1''
        else if v = ''metric2'' then ''metric2''
        else if v = ''metric3'' then ''metric3''
        else if v = ''metric4'' then ''metric4''
        else if v = ''metric5'' then ''metric5''
        else old)"

definition apply_conf_host :: "(string, string) std_map \<Rightarrow> config \<Rightarrow> config" where
  "apply_conf_host m c = c\<lparr>
     c_pid_path := conf_str m ''pid_path'' (c_pid_path c),
     c_src_addr := conf_str m ''src_addr'' (c_src_addr c),
     c_gobgp_path := conf_str m ''gobgp_path'' (c_gobgp_path c),
     c_localnets := conf_str m ''localnets'' (c_localnets c),
     c_log_level := conf_str m ''log_level'' (c_log_level c),
     c_customer_id := conf_int m ''customer_id'' (c_customer_id c),
     c_pfr_ping_req := conf_int m ''pfr_ping_req'' (c_pfr_ping_req c),
     c_pfrd_sndr_name_digit := conf_int m ''pfrd_sndr_name_digit'' (c_pfrd_sndr_name_digit c),
     c_max_load := conf_int m ''max_load'' (c_max_load c),
     c_df := conf_int m ''df'' (c_df c),
     c_dscp := conf_int m ''dscp'' (c_dscp c),
     c_max_time_of_echo := conf_int m ''max_time_of_echo'' (c_max_time_of_echo c),
     c_deep_delete := conf_int m ''deep_delete'' (c_deep_delete c),
     c_min_rtt := (case sm_find m ''min_rtt'' of None \<Rightarrow> c_min_rtt c
       | Some v \<Rightarrow> d_of_int (convert_string_to_integer v)),
     c_usleep_between_echo := conf_int m ''usleep_between_echo'' (c_usleep_between_echo c),
     c_sleep_after_join := conf_int m ''sleep_after_join'' (c_sleep_after_join c),
     c_sleep_after_update := conf_int m ''sleep_after_update'' (c_sleep_after_update c),
     c_sleep_before_next_loop := conf_int m ''sleep_before_next_loop'' (c_sleep_before_next_loop c),
     c_pghost := conf_str m ''pghost'' (c_pghost c),
     c_pgport := conf_str m ''pgport'' (c_pgport c),
     c_db_name := conf_str m ''db_name'' (c_db_name c),
     c_login := conf_str m ''login'' (c_login c),
     c_pwd := conf_str m ''pwd'' (c_pwd c),
     c_enable_advertise := conf_on m ''enable_advertise'' (c_enable_advertise c),
     c_enable_explicit_withdraw := conf_on m ''enable_explicit_withdraw'' (c_enable_explicit_withdraw c)\<rparr>"

definition apply_conf_routing :: "(string, string) std_map \<Rightarrow> config \<Rightarrow> config" where
  "apply_conf_routing m c = c\<lparr>
     c_netconf_ip := conf_lo m ''netconf_ip'' (c_netconf_ip c),
     c_snmp_ip := conf_lo m ''snmp_ip'' (c_snmp_ip c),
     c_enable_gobgp_grpc := conf_on m ''enable_gobgp_grpc'' (c_enable_gobgp_grpc c),
     c_gobgp_grpc_host := conf_str m ''gobgp_grpc_host'' (c_gobgp_grpc_host c),
     c_gobgp_grpc_port := conf_int m ''gobgp_grpc_port'' (c_gobgp_grpc_port c),
     c_peer_address := conf_str m ''peer_address'' (c_peer_address c),
     c_peer_port := conf_int m ''peer_port'' (c_peer_port c),
     c_peer_type := conf_str m ''peer_type'' (c_peer_type c),
     c_rtt_least_thresh := conf_int m ''rtt_least_thresh'' (c_rtt_least_thresh c),
     c_rtt_least_move := conf_on m ''rtt_least_move'' (c_rtt_least_move c),
     c_path_metric := conf_metric m ''path_metric'' (c_path_metric c),
     c_enable_advertise_same := conf_on m ''enable_advertise_same'' (c_enable_advertise_same c),
     c_enable_sql_log := conf_on m ''enable_sql_log'' (c_enable_sql_log c)\<rparr>"

text \<open>
  \<open>load_configuration_file\<close>: the result is false, and nothing changes, when the file cannot be opened.
\<close>

definition load_configuration_file ::
  "((char \<Rightarrow> bool) \<Rightarrow> string \<Rightarrow> string list) \<Rightarrow> string list option
    \<Rightarrow> (string, string) std_map \<times> config \<Rightarrow> bool \<times> (string, string) std_map \<times> config" where
  "load_configuration_file split file = (\<lambda>(configuration_map, c).
     case file of
       None \<Rightarrow> (False, configuration_map, c)
     | Some lines \<Rightarrow>
         (let m = fold (parse_config_line split) lines configuration_map
          in (True, m, apply_conf_routing m (apply_conf_host m c))))"


section \<open>Thread names\<close>

definition thread_name :: "string \<Rightarrow> int \<Rightarrow> int \<Rightarrow> string" where
  "thread_name thname n_peer ndigit =
     (let np = to_string n_peer; np_l = int (length np)
      in if np_l > ndigit then thname
         else thname @ ''_'' @ replicate (nat (ndigit - np_l)) CHR ''0'' @ np)"


section \<open>Properties\<close>

text \<open>A line of the file: a comment, or a key, a run of delimiters and a value.\<close>

fun config_line :: "string + string \<times> string \<times> string \<Rightarrow> string" where
  "config_line (Inl comment) = CHR ''#'' # comment"
| "config_line (Inr (k, d, v)) = k @ d @ v"

fun config_line_ok :: "string + string \<times> string \<times> string \<Rightarrow> bool" where
  "config_line_ok (Inl comment) \<longleftrightarrow> True"
| "config_line_ok (Inr (k, d, v)) \<longleftrightarrow> k \<noteq> [] \<and> hd k \<noteq> CHR ''#'' \<and> d \<noteq> [] \<and> list_all conf_delim d
     \<and> list_all (\<lambda>c. \<not> conf_delim c) k \<and> list_all (\<lambda>c. \<not> conf_delim c) v"

fun bindings :: "(string + string \<times> string \<times> string) list \<Rightarrow> (string \<times> string) list" where
  "bindings [] = []"
| "bindings (Inl comment # ls) = bindings ls"
| "bindings (Inr (k, d, v) # ls) = (k, v) # bindings ls"

lemma parse_config_line_text:
  assumes "token_split split" and "config_line_ok l"
  shows "parse_config_line split (config_line l) m = (case l of Inl _ \<Rightarrow> m | Inr (k, d, v) \<Rightarrow> sm_put k v m)"
proof (cases l)
  case (Inl comment)
  then show ?thesis by (simp add: parse_config_line_def)
next
  case (Inr e)
  obtain k d v where e: "e = (k, d, v)" by (metis prod.exhaust)
  then have "split conf_delim (k @ d @ v) = [k, v]"
    using assms Inr by (intro token_split.split_key_value) (auto simp: list_all_iff)
  then show ?thesis using assms(2) by (cases k) (auto simp: parse_config_line_def Inr e)
qed

lemma parse_config_lines:
  assumes "token_split split" and "\<forall>l \<in> set ls. config_line_ok l"
  shows "sm_find (fold (parse_config_line split) (map config_line ls) m) key
    = (case map_of (rev (bindings ls)) key of None \<Rightarrow> sm_find m key | Some v \<Rightarrow> Some v)"
  using assms(2)
proof (induction ls arbitrary: m)
  case (Cons l ls)
  show ?case
  proof (cases l)
    case (Inr e)
    obtain k d v where "e = (k, d, v)" by (metis prod.exhaust)
    then show ?thesis
      using Cons Inr parse_config_line_text [OF assms(1), of l m]
      by (auto simp: map_of_append map_add_def split: option.splits)
  qed (use Cons parse_config_line_text [OF assms(1), of l m] in simp)
qed simp



definition metrics :: "string list" where
  "metrics = [''metric0'', ''metric1'', ''metric2'', ''metric3'', ''metric4'', ''metric5'']"

definition closed_settings :: "config \<Rightarrow> bool" where
  "closed_settings c \<longleftrightarrow> c_path_metric c \<in> set metrics
     \<and> c_netconf_ip c \<in> {''lo'', ''oob''} \<and> c_snmp_ip c \<in> {''lo'', ''oob''}"

text \<open>
  C33. The settings with a closed set of values keep it: whatever the file says, \<open>path_metric\<close> is one of
  \<open>metric0\<close> to \<open>metric5\<close> and \<open>netconf_ip\<close> and \<open>snmp_ip\<close> are \<open>lo\<close> or \<open>oob\<close>, if they were so before.
\<close>

theorem config_closed_settings:
  assumes "closed_settings c" and "load_configuration_file split file (m, c) = (ok, m', c')"
  shows "closed_settings c'"
proof -
  consider "c' = c" | m where "c' = apply_conf_routing m (apply_conf_host m c)"
    using assms(2) by (auto simp: load_configuration_file_def Let_def split: option.splits)
  then show ?thesis
  proof cases
    case (2 m)
    have "c_path_metric c' = conf_metric m ''path_metric'' (c_path_metric c)"
      "c_netconf_ip c' = conf_lo m ''netconf_ip'' (c_netconf_ip c)"
      "c_snmp_ip c' = conf_lo m ''snmp_ip'' (c_snmp_ip c)"
      by (simp_all add: 2 apply_conf_routing_def apply_conf_host_def)
    moreover have "conf_metric m key old \<in> set metrics" if "old \<in> set metrics" for key old
      using that by (auto simp: conf_metric_def metrics_def split: option.splits)
    moreover have "conf_lo m key old \<in> {''lo'', ''oob''}" if "old \<in> {''lo'', ''oob''}" for key old
      using that by (auto simp: conf_lo_def split: option.splits)
    ultimately show ?thesis using assms(1) by (simp only: closed_settings_def)
  qed (use assms(1) in simp)
qed

theorem config_closed_settings_witness:
  "closed_settings initial_config
    \<and> closed_settings (snd (snd (load_configuration_file split_runs (Some [''path_metric=metric9'']) (sm_empty, initial_config))))"
proof -
  obtain ok m' c' where l: "load_configuration_file split_runs (Some [''path_metric=metric9'']) (sm_empty, initial_config)
    = (ok, m', c')" by (metis prod.exhaust)
  have "closed_settings initial_config" by (simp add: closed_settings_def initial_config_def metrics_def)
  then show ?thesis using config_closed_settings [OF _ l] by (simp add: l)
qed


section \<open>The names of the senders\<close>

lemma dec_value_zeros: "dec_value (replicate k CHR ''0'' @ s) 0 = dec_value s 0"
  by (induction k) (simp_all add: digit_val_def)

text \<open>
  The names of the sender threads: for peer numbers that the configured digits can hold, all names
  have the same length, and different peers have different names.
\<close>

lemma thread_name_distinct:
  assumes "0 \<le> n" and "0 \<le> m" and "int (length (to_string n)) \<le> ndigit"
    and "int (length (to_string m)) \<le> ndigit"
  shows "length (thread_name thname n ndigit) = length thname + 1 + nat ndigit
    \<and> (thread_name thname n ndigit = thread_name thname m ndigit \<longleftrightarrow> n = m)"
proof -
  let ?pad = "\<lambda>k. replicate (nat (ndigit - int (length (to_string k)))) CHR ''0'' @ to_string k"
  have name: "thread_name thname k ndigit = thname @ ''_'' @ ?pad k"
    if "int (length (to_string k)) \<le> ndigit" for k
    using that by (simp add: thread_name_def Let_def)
  have val: "int (dec_value (?pad k) 0) = k" if "0 \<le> k" for k
    using that by (simp add: dec_value_zeros to_string_def dec_value_nat_to_string)
  have "n = m" if "?pad n = ?pad m" using arg_cong [OF that, of "\<lambda>s. int (dec_value s 0)"] unfolding val [OF assms(1)] val [OF assms(2)] .
  moreover have "length (?pad n) = nat ndigit" using assms(3) by simp
  ultimately show ?thesis unfolding name [OF assms(3)] name [OF assms(4)] by auto
qed

end
