(* ===== verification/Pfr_Peers.thy ===== *)
theory Pfr_Peers
  imports Std_Map C_String
begin

text \<open>
  The peers of the border routers (\<open>src/src/pfr_peers.h\<close>, \<open>pfr_peers.cpp\<close>): the class \<open>pfr_peer\<close> and
  the table \<open>pfr_peers\<close> that is filled from the database.

  A field of class type that the constructor does not name is the empty string; a field of type \<open>int\<close>
  that it does not name has no value, which is \<open>None\<close>.  The rows of the query are a parameter.
\<close>

record pfr_peer =
  pp_id :: "int option"
  pp_node_id :: "int option"
  pp_peer_group_id :: "int option"
  pp_pe_ip :: string
  pp_mgmt_ip :: string
  pp_pe :: string
  pp_interface_id :: "int option"
  pp_interface_name :: string
  pp_interface_unit :: string
  pp_snmp_idx :: "int option"
  pp_intf_idx :: "int option"
  pp_address :: string
  pp_laddress :: string
  pp_ipv4_peer_address :: string
  pp_lipv4_peer_address :: string
  pp_ipv6_peer_address :: string
  pp_lipv6_peer_address :: string
  pp_type :: string
  pp_sp_name :: string
  pp_pfr_dst_id :: "int option"
  pp_peer_community :: string

text \<open>\<open>pfr_peer()\<close>, which \<open>m[k]\<close> also runs for a missing key.\<close>

definition pfr_peer_default :: pfr_peer where
  "pfr_peer_default = \<lparr>
     pp_id = None, pp_node_id = None, pp_peer_group_id = None, pp_pe_ip = [], pp_mgmt_ip = [],
     pp_pe = [], pp_interface_id = None, pp_interface_name = [], pp_interface_unit = [],
     pp_snmp_idx = None, pp_intf_idx = None, pp_address = [], pp_laddress = [],
     pp_ipv4_peer_address = [], pp_lipv4_peer_address = [], pp_ipv6_peer_address = [],
     pp_lipv6_peer_address = [], pp_type = [], pp_sp_name = [], pp_pfr_dst_id = None,
     pp_peer_community = []\<rparr>"

text \<open>
  The constructor with seventeen arguments.  Its initialiser list names thirteen fields:
  \<open>peer_group_id\<close>, \<open>ipv6_peer_address\<close>, \<open>sp_name\<close> and \<open>pfr_dst_id\<close> are arguments it drops.
\<close>

definition pfr_peer_new ::
  "int \<Rightarrow> int \<Rightarrow> int \<Rightarrow> string \<Rightarrow> string \<Rightarrow> string \<Rightarrow> int \<Rightarrow> string \<Rightarrow> string \<Rightarrow> int \<Rightarrow> int
    \<Rightarrow> string \<Rightarrow> string \<Rightarrow> string \<Rightarrow> string \<Rightarrow> int \<Rightarrow> string \<Rightarrow> pfr_peer" where
  "pfr_peer_new i node_id peer_group_id pe_ip mgmt_ip pe interface_id interface_name interface_unit
       snmp_idx intf_idx address ipv4_peer_address ipv6_peer_address sp_name pfr_dst_id peer_community
     = pfr_peer_default\<lparr>
         pp_id := Some i, pp_node_id := Some node_id, pp_pe_ip := pe_ip, pp_mgmt_ip := mgmt_ip,
         pp_pe := pe, pp_interface_id := Some interface_id, pp_interface_name := interface_name,
         pp_interface_unit := interface_unit, pp_snmp_idx := Some snmp_idx,
         pp_intf_idx := Some intf_idx, pp_address := address,
         pp_ipv4_peer_address := ipv4_peer_address, pp_peer_community := peer_community\<rparr>"

text \<open>A row of the query, in the order of its columns.\<close>

record peer_row =
  q_id :: string
  q_peer_group_id :: string
  q_pe_ip :: string
  q_pe :: string
  q_interface_id :: string
  q_interface_name :: string
  q_interface_unit :: string
  q_address :: string
  q_ipv4_peer_address :: string
  q_ipv6_peer_address :: string
  q_sp_name :: string
  q_pfr_dst_id :: string
  q_peer_community :: string
  q_node_id :: string
  q_snmp_idx :: string
  q_intf_idx :: string
  q_mgmt_ip :: string

definition peer_of_row :: "peer_row \<Rightarrow> (int \<times> pfr_peer) res" where
  "peer_of_row q =
     res_bind (stoi (q_id q)) (\<lambda>i.
     res_bind (stoi (q_peer_group_id q)) (\<lambda>peer_group_id.
     res_bind (stoi (q_interface_id q)) (\<lambda>interface_id.
     res_bind (stoi (q_pfr_dst_id q)) (\<lambda>pfr_dst_id.
     res_bind (stoi (q_node_id q)) (\<lambda>node_id.
     res_bind (stoi (q_snmp_idx q)) (\<lambda>snmp_idx.
     res_bind (stoi (q_intf_idx q)) (\<lambda>intf_idx.
     Inr (i, pfr_peer_new i node_id peer_group_id (q_pe_ip q) (q_mgmt_ip q) (q_pe q)
       interface_id (q_interface_name q) (q_interface_unit q) snmp_idx intf_idx (q_address q)
       (q_ipv4_peer_address q) (q_ipv6_peer_address q) (q_sp_name q) pfr_dst_id
       (q_peer_community q)))))))))"

type_synonym peer_table = "(int, pfr_peer) std_map"

text \<open>
  \<open>pfr_peers(m)\<close>: fills the table from the rows (\<open>insert\<close> keeps the first of two rows with the same
  id) and copies it into \<open>m\<close>.  A failed connection has no rows.
\<close>

definition pfr_peers :: "peer_row list \<Rightarrow> peer_table \<Rightarrow> (peer_table \<times> peer_table) res" where
  "pfr_peers rows m =
     res_bind (fold_res (\<lambda>q v. res_map (\<lambda>(i, p). sm_insert i p v) (peer_of_row q)) rows sm_empty)
       (\<lambda>pfr_peers_v.
          Inr (pfr_peers_v, fold (\<lambda>(i, p). sm_insert i p) (entries pfr_peers_v) m))"

section \<open>Facts\<close>

lemma peer_of_row_community:
  "peer_of_row q = Inr (i, p) \<Longrightarrow> pp_peer_community p = q_peer_community q
    \<and> pp_ipv4_peer_address p = q_ipv4_peer_address q \<and> pp_id p = Some i"
  by (auto simp: peer_of_row_def pfr_peer_new_def elim!: res_bind_InrE)

lemma peer_of_row_ids:
  "peer_of_row q = Inr (i, p) \<Longrightarrow> pp_id p = Some i \<and> pp_node_id p \<noteq> None"
  by (auto simp: peer_of_row_def pfr_peer_new_def elim!: res_bind_InrE)

lemma pfr_peers_ids:
  assumes "pfr_peers rows sm_empty = Inr (pp, m)"
  shows "m = pp" and "sm_find pp k = Some p \<Longrightarrow> pp_id p = Some k \<and> pp_node_id p \<noteq> None"
proof -
  let ?f = "\<lambda>q v. res_map (\<lambda>(i, p). sm_insert i p v) (peer_of_row q)"
  have pp: "fold_res ?f rows sm_empty = Inr pp" and m: "m = fold (\<lambda>(i, p). sm_insert i p) (entries pp) sm_empty"
    using assms by (auto simp: pfr_peers_def elim!: res_bind_InrE)
  show "m = pp" unfolding m by (rule sm_eqI) (simp add: sm_find_fold_insert map_of_entries)
  have "\<forall>k p. sm_find pp k = Some p \<longrightarrow> pp_id p = Some k \<and> pp_node_id p \<noteq> None"
    by (rule fold_res_invariant [OF pp])
      (auto simp: res_map_Inr_iff dest!: peer_of_row_ids split: option.splits if_splits)
  then show "sm_find pp k = Some p \<Longrightarrow> pp_id p = Some k \<and> pp_node_id p \<noteq> None" by blast
qed

end
