(* ===== verification/Pfr_Gobgp.thy ===== *)
theory Pfr_Gobgp
  imports C_String
begin

text \<open>
  The two ways to change the routes of gobgp: \<open>gobgp_grpc::add_route4\<close> and \<open>del_route4\<close>
  (\<open>src/src/grpc/pfr_gobgp_grpc.cpp\<close>), and the command line that \<open>goexec\<close> runs
  (\<open>src/src/pfr_rtr.cpp\<close>).

  The generated stubs and gobgp itself are outside of the model: the calls that reach them are
  recorded as \<open>rib_call\<close>s, in order, and what the operating system makes of a command line is the
  parameter \<open>popen\<close> (\<open>None\<close> when no process could be started).
\<close>

text \<open>The part of the protobuf \<open>Path\<close> the program sets; origin and family are constants.\<close>

record bgp_path =
  nlri_prefix :: string
  nlri_prefix_len :: int
  origin :: int
  next_hop :: string
  communities :: "int list"

datatype rib_call =
    Exec string          \<comment> \<open>a command line handed to \<open>popen\<close>\<close>
  | AddPath bgp_path
  | DeletePath bgp_path

text \<open>A signed 32-bit result; an overflow of \<open>int\<close> is undefined behaviour.\<close>

definition int32 :: "int \<Rightarrow> int res" where
  "int32 n = (if - (2 ^ 31) \<le> n \<and> n < 2 ^ 31 then Inr n
              else Inl (Undefined_Behaviour ''signed overflow''))"

text \<open>\<open>int cm = (hcomm * 65536) + lcomm\<close>, after the two calls of \<open>std::stoi\<close>.\<close>

definition parse_community :: "string \<Rightarrow> int res" where
  "parse_community comm =
     res_bind (stoi (after_char CHR '':'' comm)) (\<lambda>lcomm.
     res_bind (stoi (before_char CHR '':'' comm)) (\<lambda>hcomm.
     res_bind (int32 (hcomm * 65536)) (\<lambda>h. int32 (h + lcomm))))"

definition mk_path :: "string \<Rightarrow> string \<Rightarrow> int \<Rightarrow> bgp_path" where
  "mk_path dst_ip nh cm =
     \<lparr>nlri_prefix = dst_ip, nlri_prefix_len = 32, origin = 0, next_hop = nh,
      communities = [cm mod 2 ^ 32]\<rparr>"

definition add_route4 :: "string \<Rightarrow> string \<Rightarrow> string \<Rightarrow> rib_call list \<Rightarrow> rib_call list res" where
  "add_route4 dst_ip nh comm calls =
     res_map (\<lambda>cm. calls @ [AddPath (mk_path dst_ip nh cm)]) (parse_community comm)"

definition del_route4 :: "string \<Rightarrow> string \<Rightarrow> string \<Rightarrow> rib_call list \<Rightarrow> rib_call list res" where
  "del_route4 dst_ip nh comm calls =
     res_map (\<lambda>cm. calls @ [DeletePath (mk_path dst_ip nh cm)]) (parse_community comm)"

text \<open>\<open>goexec\<close>: its result, the output of the command, is never used.\<close>

definition goexec :: "(string \<Rightarrow> string option) \<Rightarrow> string \<Rightarrow> rib_call list \<Rightarrow> rib_call list res" where
  "goexec popen cmd calls =
     (case popen cmd of
        None \<Rightarrow> Inl (Uncaught ''popen() failed!'')
      | Some output \<Rightarrow> Inr (calls @ [Exec cmd]))"

definition exec_add :: "string \<Rightarrow> string \<Rightarrow> string \<Rightarrow> string" where
  "exec_add gobgp_path dst_ip comm =
     gobgp_path @ '' global rib add -a ipv4 '' @ dst_ip @ ''/32 community '' @ comm"

definition exec_del :: "string \<Rightarrow> string \<Rightarrow> string \<Rightarrow> string" where
  "exec_del gobgp_path dst_ip comm =
     gobgp_path @ '' global rib del -a ipv4 '' @ dst_ip @ ''/32 community '' @ comm"


section \<open>Facts\<close>

lemma int32_Inr_iff: "int32 n = Inr m \<longleftrightarrow> m = n \<and> - (2 ^ 31) \<le> n \<and> n < 2 ^ 31"
  by (auto simp: int32_def)

definition community_string :: "nat \<Rightarrow> nat \<Rightarrow> string" where
  "community_string h l = nat_to_string h @ '':'' @ nat_to_string l"

lemma colon_notin_nat_to_string: "CHR '':'' \<notin> set (nat_to_string n)"
  using nat_to_string_digits [of n] digit_not_special by blast

lemma stoi_nat: "n < 2 ^ 31 \<Longrightarrow> stoi (nat_to_string n) = Inr (int n)"
  using strtol10_nat [of "[]" n] by (simp add: stoi_def)

lemma parse_community_string:
  assumes "h < 32768" and "l < 65536"
  shows "parse_community (community_string h l) = Inr (int h * 65536 + int l)"
proof -
  have "before_char CHR '':'' (community_string h l) = nat_to_string h"
    and "after_char CHR '':'' (community_string h l) = nat_to_string l"
    using before_after_append [OF colon_notin_nat_to_string [of h], of "nat_to_string l"]
    by (simp_all add: community_string_def)
  then show ?thesis using assms by (simp add: parse_community_def stoi_nat int32_def)
qed

lemma parse_community_overflow:
  assumes "32768 \<le> h" and "h < 65536" and "l < 65536"
  shows "parse_community (community_string h l) = Inl (Undefined_Behaviour ''signed overflow'')"
proof -
  have "before_char CHR '':'' (community_string h l) = nat_to_string h"
    and "after_char CHR '':'' (community_string h l) = nat_to_string l"
    using before_after_append [OF colon_notin_nat_to_string [of h], of "nat_to_string l"]
    by (simp_all add: community_string_def)
  then show ?thesis using assms by (simp add: parse_community_def stoi_nat int32_def)
qed

lemma parse_community_empty: "parse_community [] = Inl (Uncaught ''std::invalid_argument'')"
  by (simp add: parse_community_def after_char_def before_char_def stoi_def strtol10_def)

text \<open>
  The community of a peer on its way to gobgp over gRPC: \<open>h:l\<close> becomes the 32-bit value with the
  upper half \<open>h\<close> and the lower half \<open>l\<close>, in announcements and withdrawals alike; but only for \<open>h\<close>
  below 32768: from there on the code's \<open>int\<close> overflows.
\<close>

lemma route4_community:
  assumes "h < 65536" and "l < 65536"
  shows "if h < 32768
    then \<exists>p. add_route4 d nh (community_string h l) cs = Inr (cs @ [AddPath p])
      \<and> del_route4 d nh (community_string h l) cs = Inr (cs @ [DeletePath p])
      \<and> nlri_prefix p = d \<and> nlri_prefix_len p = 32 \<and> next_hop p = nh
      \<and> (\<exists>cm. communities p = [cm] \<and> cm div 65536 = int h \<and> cm mod 65536 = int l)
    else add_route4 d nh (community_string h l) cs = Inl (Undefined_Behaviour ''signed overflow'')
      \<and> del_route4 d nh (community_string h l) cs = Inl (Undefined_Behaviour ''signed overflow'')"
proof (cases "h < 32768")
  case True
  have "(int h * 65536 + int l) mod 2 ^ 32 = int h * 65536 + int l" using True assms(2) by simp
  then show ?thesis
    using True assms(2) parse_community_string [OF True assms(2)]
    by (simp add: add_route4_def del_route4_def mk_path_def)
next
  case False
  then show ?thesis
    using parse_community_overflow [of h l] assms by (simp add: add_route4_def del_route4_def)
qed

end
