(* ===== verification/Pfr_Rtr.thy ===== *)
theory Pfr_Rtr
  imports Pfr_Config Pfr_Peers Pfr_Gobgp
begin

text \<open>
  The routes on the border routers (\<open>src/src/pfr_rtr.h\<close>, \<open>pfr_rtr.cpp\<close>): the table \<open>pfr_asbrs\<close> of
  routers, the advertisement of a destination over its current peer, and its withdrawal.

  The state is what the functions reach through references: the peer table \<open>mm\<close>, in which \<open>m[id]\<close>
  creates a default peer for an id it does not hold, the routers \<open>br\<close>, and the calls made so far.
  netconf is outside of the model: a session is only carried around, as an \<open>'s option\<close> that is
  \<open>None\<close> where the source leaves the pointer without a value.
\<close>

section \<open>Routers\<close>

record 's pfr_asbr_parm =
  netconf_conn :: "'s option"

definition pfr_asbr_parm_default :: "'s pfr_asbr_parm" where
  "pfr_asbr_parm_default = \<lparr>netconf_conn = None\<rparr>"

record 's pfr_asbrs =
  asbrs :: "(string, 's pfr_asbr_parm) std_map"
  asbrIdPeer :: "(int, string) std_map"

text \<open>
  The constructor from the peer table.  \<open>connect ip\<close> stands for \<open>pfr_asbr_parm("", ip)\<close>, which opens
  the netconf session.  An id without a value cannot be a key.
\<close>

definition peer_router_ip :: "config \<Rightarrow> pfr_peer \<Rightarrow> string" where
  "peer_router_ip c peer = (if c_netconf_ip c = ''oob'' then pp_mgmt_ip peer else pp_pe_ip peer)"

definition asbrs_add ::
  "config \<Rightarrow> (string \<Rightarrow> 's pfr_asbr_parm) \<Rightarrow> int \<times> pfr_peer \<Rightarrow> 's pfr_asbrs \<Rightarrow> 's pfr_asbrs res" where
  "asbrs_add c connect = (\<lambda>(p_id, peer) a.
     case pp_id peer of
       None \<Rightarrow> Inl (Undefined_Behaviour ''peer id'')
     | Some peer_id \<Rightarrow>
         (let peer_ip = peer_router_ip c peer
          in Inr (a\<lparr>asbrIdPeer := sm_put peer_id peer_ip (asbrIdPeer a),
                    asbrs := (case sm_find (asbrs a) peer_ip of
                        Some _ \<Rightarrow> asbrs a
                      | None \<Rightarrow> sm_put peer_ip (connect peer_ip) (asbrs a))\<rparr>)))"

definition pfr_asbrs_new ::
  "config \<Rightarrow> (string \<Rightarrow> 's pfr_asbr_parm) \<Rightarrow> peer_table \<Rightarrow> 's pfr_asbrs res" where
  "pfr_asbrs_new c connect p =
     fold_res (asbrs_add c connect) (entries p) \<lparr>asbrs = sm_empty, asbrIdPeer = sm_empty\<rparr>"

text \<open>\<open>get_asbr\<close> and \<open>get_asbr_lo\<close> index with \<open>[]\<close>, so a miss creates an entry.\<close>

definition get_asbr :: "string \<Rightarrow> 's pfr_asbrs \<Rightarrow> 's pfr_asbr_parm \<times> 's pfr_asbrs" where
  "get_asbr ip a = (sm_at pfr_asbr_parm_default (asbrs a) ip,
     a\<lparr>asbrs := sm_touch pfr_asbr_parm_default ip (asbrs a)\<rparr>)"

definition get_asbr_lo :: "int \<Rightarrow> 's pfr_asbrs \<Rightarrow> string \<times> 's pfr_asbrs" where
  "get_asbr_lo id_peer a = (sm_at [] (asbrIdPeer a) id_peer,
     a\<lparr>asbrIdPeer := sm_touch [] id_peer (asbrIdPeer a)\<rparr>)"

text \<open>\<open>pfr_asbr_peers\<close>: the peers grouped by router (\<open>insert\<close> keeps an existing entry).\<close>

definition pfr_asbr_peers ::
  "config \<Rightarrow> peer_table \<Rightarrow> (string, peer_table) std_map \<Rightarrow> (string, peer_table) std_map" where
  "pfr_asbr_peers c p asbr_peers =
     fold (\<lambda>(p_id, peer). sm_modify sm_empty (peer_router_ip c peer) (sm_insert p_id peer))
       (entries p) asbr_peers"


section \<open>Routes\<close>

record 's rtr_state =
  mm :: peer_table
  br :: "'s pfr_asbrs"
  calls :: "rib_call list"

text \<open>\<open>mm[id]\<close>.\<close>

definition peer_at :: "int \<Rightarrow> 's rtr_state \<Rightarrow> pfr_peer" where
  "peer_at k s = sm_at pfr_peer_default (mm s) k"

definition touch_peer :: "int \<Rightarrow> 's rtr_state \<Rightarrow> 's rtr_state" where
  "touch_peer k s = s\<lparr>mm := sm_touch pfr_peer_default k (mm s)\<rparr>"

text \<open>\<open>br.get_asbr(br.get_asbr_lo(id)).get_session()\<close>; the session is not used further.\<close>

definition touch_asbr :: "int \<Rightarrow> 's rtr_state \<Rightarrow> 's rtr_state" where
  "touch_asbr k s = s\<lparr>br := (let (lo, b) = get_asbr_lo k (br s) in snd (get_asbr lo b))\<rparr>"

definition with_calls :: "(rib_call list \<Rightarrow> rib_call list res) \<Rightarrow> 's rtr_state \<Rightarrow> 's rtr_state res" where
  "with_calls f s = res_map (\<lambda>cs. s\<lparr>calls := cs\<rparr>) (f (calls s))"

definition rib_add ::
  "(string \<Rightarrow> string option) \<Rightarrow> config \<Rightarrow> string \<Rightarrow> pfr_peer \<Rightarrow> 's rtr_state \<Rightarrow> 's rtr_state res" where
  "rib_add popen c dst_ip peer =
     with_calls (if \<not> c_enable_gobgp_grpc c
       then goexec popen (exec_add (c_gobgp_path c) dst_ip (pp_peer_community peer))
       else add_route4 dst_ip (pp_ipv4_peer_address peer) (pp_peer_community peer))"

definition rib_del ::
  "(string \<Rightarrow> string option) \<Rightarrow> config \<Rightarrow> string \<Rightarrow> pfr_peer \<Rightarrow> 's rtr_state \<Rightarrow> 's rtr_state res" where
  "rib_del popen c dst_ip peer =
     with_calls (if \<not> c_enable_gobgp_grpc c
       then goexec popen (exec_del (c_gobgp_path c) dst_ip (pp_peer_community peer))
       else del_route4 dst_ip (pp_ipv4_peer_address peer) (pp_peer_community peer))"

text \<open>
  \<open>pfr_create_set_jrouter_rt\<close>.  \<open>pfr_create_xml_jrouter_rt\<close>, its last call, has an empty body.  The id of
  a peer is only logged: that the id of a default peer has no value is left out here.
\<close>

definition withdraw_previous ::
  "(string \<Rightarrow> string option) \<Rightarrow> config \<Rightarrow> int \<Rightarrow> string \<Rightarrow> 's rtr_state \<Rightarrow> 's rtr_state res" where
  "withdraw_previous popen c prev_peer_id dst_ip s =
     (let s1 = touch_asbr prev_peer_id (touch_peer prev_peer_id s)
      in if c_enable_explicit_withdraw c
         then rib_del popen c dst_ip (peer_at prev_peer_id s) s1
         else Inr s1)"

definition pfr_create_set_jrouter_rt ::
  "(string \<Rightarrow> string option) \<Rightarrow> config \<Rightarrow> int \<Rightarrow> int \<Rightarrow> int \<Rightarrow> string
    \<Rightarrow> 's rtr_state \<Rightarrow> 's rtr_state res" where
  "pfr_create_set_jrouter_rt popen c probe_id prev_peer_id curr_peer_id dst_ip s =
     (if probe_id > 0 then
        (let peer = peer_at curr_peer_id s; s1 = touch_peer curr_peer_id s
         in res_bind (if probe_id > 1 \<and> prev_peer_id \<noteq> 0
                      then withdraw_previous popen c prev_peer_id dst_ip s1 else Inr s1)
              (\<lambda>s2. res_map (touch_asbr curr_peer_id) (rib_add popen c dst_ip peer s2)))
      else Inr s)"

text \<open>\<open>pfr_delete_set_jrouter_rt\<close>: its arguments \<open>probe_id\<close> and \<open>prev_peer_id\<close> are only logged.\<close>

definition pfr_delete_set_jrouter_rt ::
  "(string \<Rightarrow> string option) \<Rightarrow> config \<Rightarrow> int \<Rightarrow> string \<Rightarrow> 's rtr_state \<Rightarrow> 's rtr_state res" where
  "pfr_delete_set_jrouter_rt popen c curr_peer_id dst_ip s =
     (let prev_peer_id = curr_peer_id; peer = peer_at prev_peer_id s
      in res_map (touch_asbr prev_peer_id) (rib_del popen c dst_ip peer (touch_peer prev_peer_id s)))"


section \<open>The advertisement loop\<close>

record rt_parm =
  prev_peer :: int
  pmin_rtt :: double
  curr_peer :: int
  cmin_rtt :: double

definition rt_parm_new :: "int \<Rightarrow> double \<Rightarrow> int \<Rightarrow> double \<Rightarrow> rt_parm" where
  "rt_parm_new prev_peer_id pmin curr_peer_rtt cmin =
     \<lparr>prev_peer = prev_peer_id, pmin_rtt = pmin, curr_peer = curr_peer_rtt, cmin_rtt = cmin\<rparr>"

text \<open>The values of \<open>route\<close> are pointers; \<open>None\<close> is the null pointer that \<open>[]\<close> creates.\<close>

type_synonym route_map = "(string, (int, rt_parm option) std_map) std_map"

definition routes_man_step ::
  "(string \<Rightarrow> string option) \<Rightarrow> config \<Rightarrow> int \<Rightarrow> string
    \<Rightarrow> route_map \<times> 's rtr_state \<Rightarrow> (route_map \<times> 's rtr_state) res" where
  "routes_man_step popen c probe_id dst_ip = (\<lambda>(rroute, s).
     case sm_at None (sm_at sm_empty rroute dst_ip) probe_id of
       None \<Rightarrow> Inl null_deref
     | Some rt \<Rightarrow>
         (if \<not> c_enable_advertise_same c \<and> prev_peer rt = curr_peer rt \<and> probe_id > 1
          then Inr (rroute, s)
          else res_map (\<lambda>s'. (rroute, s'))
            (pfr_create_set_jrouter_rt popen c probe_id (prev_peer rt) (curr_peer rt) dst_ip s)))"

definition pfr_routes_man ::
  "(string \<Rightarrow> string option) \<Rightarrow> config \<Rightarrow> int
    \<Rightarrow> route_map \<times> 's rtr_state \<Rightarrow> (route_map \<times> 's rtr_state) res" where
  "pfr_routes_man popen c probe_id = (\<lambda>(rroute, s).
     fold_res (routes_man_step popen c probe_id) (sm_keys rroute) (rroute, s))"


section \<open>Facts: the two ways to change a route\<close>

text \<open>
  The interface to gobgp: on a peer it can be used with, an operation does one call and cannot fail.
\<close>

locale rib_backend =
  fixes add :: "string \<Rightarrow> pfr_peer \<Rightarrow> rib_call list \<Rightarrow> rib_call list res"
    and del :: "string \<Rightarrow> pfr_peer \<Rightarrow> rib_call list \<Rightarrow> rib_call list res"
    and add_call :: "string \<Rightarrow> pfr_peer \<Rightarrow> rib_call"
    and del_call :: "string \<Rightarrow> pfr_peer \<Rightarrow> rib_call"
    and usable :: "pfr_peer \<Rightarrow> bool"
  assumes add_ok: "usable p \<Longrightarrow> add d p cs = Inr (cs @ [add_call d p])"
    and del_ok: "usable p \<Longrightarrow> del d p cs = Inr (cs @ [del_call d p])"
    and add_not_del: "add_call d p \<noteq> del_call d' p'"
begin

lemma announce: "usable p \<Longrightarrow> with_calls (add d p) s = Inr (s\<lparr>calls := calls s @ [add_call d p]\<rparr>)"
  by (simp add: with_calls_def add_ok)

lemma withdraw: "usable p \<Longrightarrow> with_calls (del d p) s = Inr (s\<lparr>calls := calls s @ [del_call d p]\<rparr>)"
  by (simp add: with_calls_def del_ok)

end

definition cli_add :: "(string \<Rightarrow> string option) \<Rightarrow> string \<Rightarrow> string \<Rightarrow> pfr_peer \<Rightarrow> rib_call list \<Rightarrow> rib_call list res" where
  "cli_add popen path d p = goexec popen (exec_add path d (pp_peer_community p))"

definition cli_del :: "(string \<Rightarrow> string option) \<Rightarrow> string \<Rightarrow> string \<Rightarrow> pfr_peer \<Rightarrow> rib_call list \<Rightarrow> rib_call list res" where
  "cli_del popen path d p = goexec popen (exec_del path d (pp_peer_community p))"

definition grpc_add :: "string \<Rightarrow> pfr_peer \<Rightarrow> rib_call list \<Rightarrow> rib_call list res" where
  "grpc_add d p = add_route4 d (pp_ipv4_peer_address p) (pp_peer_community p)"

definition grpc_del :: "string \<Rightarrow> pfr_peer \<Rightarrow> rib_call list \<Rightarrow> rib_call list res" where
  "grpc_del d p = del_route4 d (pp_ipv4_peer_address p) (pp_peer_community p)"

definition grpc_path :: "string \<Rightarrow> pfr_peer \<Rightarrow> bgp_path" where
  "grpc_path d p = mk_path d (pp_ipv4_peer_address p)
     (case parse_community (pp_peer_community p) of Inr cm \<Rightarrow> cm | Inl _ \<Rightarrow> 0)"

lemma exec_add_not_del: "exec_add path d c \<noteq> exec_del path d' c'"
  by (simp add: exec_add_def exec_del_def)

interpretation cli: rib_backend "cli_add popen path" "cli_del popen path"
  "\<lambda>d p. Exec (exec_add path d (pp_peer_community p))" "\<lambda>d p. Exec (exec_del path d (pp_peer_community p))"
  "\<lambda>_. \<forall>cmd. popen cmd \<noteq> None"
  for popen path
  by unfold_locales (auto simp: cli_add_def cli_del_def goexec_def exec_add_not_del split: option.split)

interpretation grpc: rib_backend grpc_add grpc_del "\<lambda>d p. AddPath (grpc_path d p)"
  "\<lambda>d p. DeletePath (grpc_path d p)" "\<lambda>p. \<exists>cm. parse_community (pp_peer_community p) = Inr cm"
  by unfold_locales (auto simp: grpc_add_def grpc_del_def grpc_path_def add_route4_def del_route4_def)

text \<open>What the configuration selects.\<close>

definition add_call :: "config \<Rightarrow> string \<Rightarrow> pfr_peer \<Rightarrow> rib_call" where
  "add_call c d p = (if \<not> c_enable_gobgp_grpc c then Exec (exec_add (c_gobgp_path c) d (pp_peer_community p))
     else AddPath (grpc_path d p))"

definition del_call :: "config \<Rightarrow> string \<Rightarrow> pfr_peer \<Rightarrow> rib_call" where
  "del_call c d p = (if \<not> c_enable_gobgp_grpc c then Exec (exec_del (c_gobgp_path c) d (pp_peer_community p))
     else DeletePath (grpc_path d p))"

definition usable :: "(string \<Rightarrow> string option) \<Rightarrow> config \<Rightarrow> pfr_peer \<Rightarrow> bool" where
  "usable popen c p \<longleftrightarrow> (if \<not> c_enable_gobgp_grpc c then \<forall>cmd. popen cmd \<noteq> None
     else \<exists>cm. parse_community (pp_peer_community p) = Inr cm)"

lemma rib_add_with:
  "rib_add popen c d p = with_calls (if \<not> c_enable_gobgp_grpc c then cli_add popen (c_gobgp_path c) d p
     else grpc_add d p)"
  by (simp add: fun_eq_iff rib_add_def cli_add_def grpc_add_def)

lemma rib_del_with:
  "rib_del popen c d p = with_calls (if \<not> c_enable_gobgp_grpc c then cli_del popen (c_gobgp_path c) d p
     else grpc_del d p)"
  by (simp add: fun_eq_iff rib_del_def cli_del_def grpc_del_def)

interpretation rib: rib_backend
  "\<lambda>d p. if \<not> c_enable_gobgp_grpc c then cli_add popen (c_gobgp_path c) d p else grpc_add d p"
  "\<lambda>d p. if \<not> c_enable_gobgp_grpc c then cli_del popen (c_gobgp_path c) d p else grpc_del d p"
  "add_call c" "del_call c" "usable popen c"
  for popen c
  by unfold_locales
    (auto simp: add_call_def del_call_def usable_def exec_add_not_del intro: cli.add_ok cli.del_ok grpc.add_ok
      grpc.del_ok)

lemma rib_add_ok: "usable popen c p \<Longrightarrow> rib_add popen c d p s = Inr (s\<lparr>calls := calls s @ [add_call c d p]\<rparr>)"
  using rib.announce unfolding rib_add_with by fastforce

lemma rib_del_ok: "usable popen c p \<Longrightarrow> rib_del popen c d p s = Inr (s\<lparr>calls := calls s @ [del_call c d p]\<rparr>)"
  using rib.withdraw unfolding rib_del_with by fastforce


section \<open>Facts: the advertisement loop\<close>

text \<open>The calls for one destination.\<close>

definition advert_calls :: "config \<Rightarrow> int \<Rightarrow> peer_table \<Rightarrow> string \<times> rt_parm \<Rightarrow> rib_call list" where
  "advert_calls c probe_id m = (\<lambda>(d, rt).
     if \<not> c_enable_advertise_same c \<and> prev_peer rt = curr_peer rt \<and> probe_id > 1 then []
     else (if probe_id > 1 \<and> prev_peer rt \<noteq> 0 \<and> c_enable_explicit_withdraw c
           then [del_call c d (sm_at pfr_peer_default m (prev_peer rt))] else [])
       @ [add_call c d (sm_at pfr_peer_default m (curr_peer rt))])"

definition peer_ready :: "(string \<Rightarrow> string option) \<Rightarrow> config \<Rightarrow> peer_table \<Rightarrow> int \<Rightarrow> bool" where
  "peer_ready popen c m k \<longleftrightarrow> (\<exists>p. sm_find m k = Some p \<and> usable popen c p)"

definition route_ready :: "(string \<Rightarrow> string option) \<Rightarrow> config \<Rightarrow> peer_table \<Rightarrow> rt_parm \<Rightarrow> bool" where
  "route_ready popen c m rt \<longleftrightarrow> peer_ready popen c m (curr_peer rt)
     \<and> (prev_peer rt = 0 \<or> peer_ready popen c m (prev_peer rt))"

lemma touch_peer_present: "sm_find (mm s) k = Some p \<Longrightarrow> touch_peer k s = s"
  by (simp add: touch_peer_def sm_touch_present)

lemma touch_asbr_simps [simp]: "mm (touch_asbr k s) = mm s" "calls (touch_asbr k s) = calls s"
  by (simp_all add: touch_asbr_def)

lemma touch_asbr_calls: "touch_asbr k (s\<lparr>calls := cs\<rparr>) = (touch_asbr k s)\<lparr>calls := cs\<rparr>"
  by (simp add: touch_asbr_def)

lemma create_set_calls:
  assumes "0 < probe_id" and "route_ready popen c (mm s) rt"
  shows "\<exists>s'. pfr_create_set_jrouter_rt popen c probe_id (prev_peer rt) (curr_peer rt) d s = Inr s'
    \<and> mm s' = mm s
    \<and> calls s' = calls s
        @ (if probe_id > 1 \<and> prev_peer rt \<noteq> 0 \<and> c_enable_explicit_withdraw c
           then [del_call c d (sm_at pfr_peer_default (mm s) (prev_peer rt))] else [])
        @ [add_call c d (sm_at pfr_peer_default (mm s) (curr_peer rt))]"
proof -
  obtain p where p: "sm_find (mm s) (curr_peer rt) = Some p" "usable popen c p"
    using assms(2) by (auto simp: route_ready_def peer_ready_def)
  have withdrawn: "\<exists>s'. withdraw_previous popen c (prev_peer rt) d s = Inr s' \<and> mm s' = mm s
      \<and> calls s' = calls s @ (if c_enable_explicit_withdraw c
          then [del_call c d (sm_at pfr_peer_default (mm s) (prev_peer rt))] else [])"
    if nz: "prev_peer rt \<noteq> 0"
  proof -
    obtain q where "sm_find (mm s) (prev_peer rt) = Some q" "usable popen c q"
      using assms(2) nz by (auto simp: route_ready_def peer_ready_def)
    then show ?thesis
      by (simp add: withdraw_previous_def touch_peer_present peer_at_def sm_find_Some_at rib_del_ok Let_def)
  qed
  show ?thesis
  proof (cases "probe_id > 1 \<and> prev_peer rt \<noteq> 0")
    case True
    then obtain s' where "withdraw_previous popen c (prev_peer rt) d s = Inr s'" "mm s' = mm s"
      "calls s' = calls s @ (if c_enable_explicit_withdraw c
          then [del_call c d (sm_at pfr_peer_default (mm s) (prev_peer rt))] else [])"
      using withdrawn by blast
    then show ?thesis
      using True p assms(1)
      by (simp add: pfr_create_set_jrouter_rt_def touch_peer_present peer_at_def sm_find_Some_at
          rib_add_ok Let_def)
  next
    case False
    then show ?thesis
      using p assms(1)
      by (auto simp add: pfr_create_set_jrouter_rt_def touch_peer_present peer_at_def sm_find_Some_at
          rib_add_ok Let_def)
  qed
qed

text \<open>The loop over some destinations.\<close>

lemma routes_man_steps:
  assumes "0 < probe_id"
    and "\<forall>d \<in> set ds. \<exists>rt. sm_at None (sm_at sm_empty rroute d) probe_id = Some rt
      \<and> route_ready popen c (mm s) rt"
  shows "\<exists>s'. fold_res (routes_man_step popen c probe_id) ds (rroute, s) = Inr (rroute, s') \<and> mm s' = mm s
    \<and> calls s' = calls s @ concat (map (\<lambda>d. advert_calls c probe_id (mm s)
        (d, the (sm_at None (sm_at sm_empty rroute d) probe_id))) ds)"
  using assms(2)
proof (induction ds arbitrary: s)
  case (Cons d ds)
  obtain rt where rt: "sm_at None (sm_at sm_empty rroute d) probe_id = Some rt"
    "route_ready popen c (mm s) rt" using Cons.prems by auto
  have "\<exists>s1. routes_man_step popen c probe_id d (rroute, s) = Inr (rroute, s1) \<and> mm s1 = mm s
      \<and> calls s1 = calls s @ advert_calls c probe_id (mm s) (d, rt)"
  proof (cases "\<not> c_enable_advertise_same c \<and> prev_peer rt = curr_peer rt \<and> probe_id > 1")
    case True
    then show ?thesis using rt(1) by (simp add: routes_man_step_def advert_calls_def)
  next
    case False
    obtain s' where s': "pfr_create_set_jrouter_rt popen c probe_id (prev_peer rt) (curr_peer rt) d s = Inr s'"
      "mm s' = mm s" "calls s' = calls s
        @ (if probe_id > 1 \<and> prev_peer rt \<noteq> 0 \<and> c_enable_explicit_withdraw c
           then [del_call c d (sm_at pfr_peer_default (mm s) (prev_peer rt))] else [])
        @ [add_call c d (sm_at pfr_peer_default (mm s) (curr_peer rt))]"
      using create_set_calls [OF assms(1) rt(2)] by blast
    have "routes_man_step popen c probe_id d (rroute, s) = Inr (rroute, s')"
      unfolding routes_man_step_def case_prod_conv rt(1) option.case if_not_P [OF False] s'(1) by simp
    moreover have "calls s' = calls s @ advert_calls c probe_id (mm s) (d, rt)"
      unfolding s'(3) advert_calls_def case_prod_conv if_not_P [OF False] ..
    ultimately show ?thesis using s'(2) by blast
  qed
  then obtain s1 where s1: "routes_man_step popen c probe_id d (rroute, s) = Inr (rroute, s1)" "mm s1 = mm s"
    "calls s1 = calls s @ advert_calls c probe_id (mm s) (d, rt)" by blast
  then show ?case using Cons.IH [of s1] Cons.prems rt(1) by auto
qed simp

text \<open>
  C10. The advertisement of a round: when every destination has a route for the round, over peers of
  the table that gobgp can be told about, the loop returns, and tells gobgp, destination by
  destination, what the configuration asks for: nothing for an unchanged route (unless
  \<open>enable_advertise_same\<close> is set), otherwise the withdrawal of the previous route, if it is to be
  explicit and there was one, and the new route; neither the routes nor the peers change.
\<close>

theorem routes_man_calls:
  assumes "0 < probe_id"
    and "\<forall>d \<in> set (sm_keys rroute). \<exists>rt. sm_at None (sm_at sm_empty rroute d) probe_id = Some rt
      \<and> route_ready popen c (mm s) rt"
  shows "\<exists>s'. pfr_routes_man popen c probe_id (rroute, s) = Inr (rroute, s') \<and> mm s' = mm s
    \<and> calls s' = calls s @ concat (map (\<lambda>d. advert_calls c probe_id (mm s)
        (d, the (sm_at None (sm_at sm_empty rroute d) probe_id))) (sm_keys rroute))"
  using routes_man_steps [OF assms(1), of "sm_keys rroute"] assms(2) by (simp add: pfr_routes_man_def)

text \<open>
  A destination without an answer can get peer 0, which no table holds.  Advertising it creates a
  default peer in the table; the command line then ends in an empty community, and over gRPC
  \<open>std::stoi\<close> throws on the empty community, which nobody catches.
\<close>

lemma unknown_peer_advert:
  assumes "0 < probe_id" and "probe_id = 1 \<or> prev = 0" and "sm_find (mm s) k = None"
  shows "(c_enable_gobgp_grpc c \<longrightarrow> pfr_create_set_jrouter_rt popen c probe_id prev k d s
        = Inl (Uncaught ''std::invalid_argument''))
    \<and> (\<not> c_enable_gobgp_grpc c \<and> (\<forall>cmd. popen cmd \<noteq> None) \<longrightarrow>
        (\<exists>s'. pfr_create_set_jrouter_rt popen c probe_id prev k d s = Inr s'
          \<and> mm s' = sm_put k pfr_peer_default (mm s)
          \<and> calls s' = calls s @ [Exec (exec_add (c_gobgp_path c) d [])]))"
proof -
  have p: "peer_at k s = pfr_peer_default" "pp_peer_community pfr_peer_default = []"
    using assms(3) by (simp_all add: peer_at_def sm_find_None_at pfr_peer_default_def)
  have t: "mm (touch_peer k s) = sm_put k pfr_peer_default (mm s)" "calls (touch_peer k s) = calls s"
    using assms(3) by (simp_all add: touch_peer_def sm_touch_def sm_at_def sm_find_None_at sm_insert_def)
  have e: "pfr_create_set_jrouter_rt popen c probe_id prev k d s
      = res_map (touch_asbr k) (rib_add popen c d pfr_peer_default (touch_peer k s))"
    using assms(1,2) by (auto simp: pfr_create_set_jrouter_rt_def Let_def p(1))
  have "c_enable_gobgp_grpc c \<Longrightarrow> ?thesis"
    unfolding e by (simp add: rib_add_def with_calls_def add_route4_def p(2) parse_community_empty)
  moreover have "\<not> c_enable_gobgp_grpc c \<Longrightarrow> ?thesis"
    unfolding e using rib_add_ok [of popen c pfr_peer_default d "touch_peer k s"]
    by (auto simp: usable_def add_call_def p(2) t)
  ultimately show ?thesis by blast
qed


section \<open>Examples\<close>

definition example_peer :: "int \<Rightarrow> string \<Rightarrow> string \<Rightarrow> pfr_peer" where
  "example_peer k ip comm = pfr_peer_default\<lparr>pp_id := Some k, pp_pe_ip := ip, pp_mgmt_ip := ip,
     pp_ipv4_peer_address := ip, pp_peer_community := comm\<rparr>"

definition example_table :: peer_table where
  "example_table = sm_put 1 (example_peer 1 ''10.1.0.1'' ''100:1'')
     (sm_put 2 (example_peer 2 ''10.2.0.1'' ''100:2'') sm_empty)"

definition example_routers :: "unit rtr_state" where
  "example_routers = \<lparr>mm = example_table, br = \<lparr>asbrs = sm_empty, asbrIdPeer = sm_empty\<rparr>, calls = []\<rparr>"

definition example_routes :: route_map where
  "example_routes = sm_put ''10.0.0.1'' (sm_put 2 (Some (rt_parm_new 1 (Fin 12) 2 (Fin 10))) sm_empty) sm_empty"

theorem routes_man_calls_witness:
  "\<exists>s'. pfr_routes_man (\<lambda>_. Some []) initial_config 2 (example_routes, example_routers) = Inr (example_routes, s')
    \<and> mm s' = mm example_routers
    \<and> calls s' = calls example_routers @ concat (map (\<lambda>d. advert_calls initial_config 2 (mm example_routers)
        (d, the (sm_at None (sm_at sm_empty example_routes d) 2))) (sm_keys example_routes))"
  by (rule routes_man_calls)
    (simp_all add: example_routes_def sm_keys_def sm_put.rep_eq sm_at_def route_ready_def peer_ready_def
      rt_parm_new_def example_routers_def example_table_def usable_def initial_config_def)

text \<open>The peers of a router are some of the table's, and every router in the map has one.\<close>

definition groups_of :: "peer_table \<Rightarrow> (string, peer_table) std_map \<Rightarrow> bool" where
  "groups_of t a \<longleftrightarrow> (\<forall>pe g. sm_find a pe = Some g \<longrightarrow> g \<noteq> sm_empty
     \<and> (\<forall>k p. sm_find g k = Some p \<longrightarrow> sm_find t k = Some p))"

lemma sm_insert_nonempty: "sm_insert k p g \<noteq> sm_empty"
proof
  assume "sm_insert k p g = sm_empty"
  then have "sm_find (sm_insert k p g) k = None" by (simp only: sm_find_empty)
  then show False by (simp split: option.splits)
qed

lemma groups_of_insert:
  assumes "groups_of t a" and "sm_find t k = Some p"
  shows "groups_of t (sm_modify sm_empty pe (sm_insert k p) a)"
proof -
  have "sm_find t j = Some q" if f: "sm_find (sm_insert k p (sm_at sm_empty a pe)) j = Some q" for j q
  proof (cases "sm_find (sm_at sm_empty a pe) j")
    case None
    then show ?thesis using f assms(2) by (auto split: if_splits)
  next
    case (Some w)
    then have "sm_find t j = Some w"
      using assms(1) unfolding groups_of_def by (cases "sm_find a pe") (auto simp: sm_at_def)
    then show ?thesis using f Some by (auto split: if_splits)
  qed
  then show ?thesis using assms(1) by (auto simp: groups_of_def sm_insert_nonempty split: if_splits)
qed

lemma asbr_peers_groups:
  assumes "pfr_asbr_peers c t sm_empty = a"
  shows "groups_of t a" and "{pe. sm_find a pe \<noteq> None} = peer_router_ip c ` {p. \<exists>k. sm_find t k = Some p}"
proof -
  let ?f = "\<lambda>(p_id, peer). sm_modify sm_empty (peer_router_ip c peer) (sm_insert p_id peer)"
  have g: "groups_of t (fold ?f es b)" if "groups_of t b" "\<forall>(k, p) \<in> set es. sm_find t k = Some p" for es b
    using that by (induction es arbitrary: b) (auto intro: groups_of_insert)
  have k: "{pe. sm_find (fold ?f es b) pe \<noteq> None} = {pe. sm_find b pe \<noteq> None} \<union> peer_router_ip c ` snd ` set es"
    for es and b :: "(string, peer_table) std_map"
    by (induction es arbitrary: b) auto
  have "groups_of t sm_empty" by (simp add: groups_of_def)
  then show "groups_of t a"
    unfolding assms [symmetric] pfr_asbr_peers_def by (rule g) (auto simp: entries_iff_find)
  have "snd ` set (entries t) = {p. \<exists>k. sm_find t k = Some p}"
    by (auto simp: entries_iff_find image_iff Bex_def split_paired_Ex)
  then show "{pe. sm_find a pe \<noteq> None} = peer_router_ip c ` {p. \<exists>k. sm_find t k = Some p}"
    using k [of "entries t" sm_empty] by (simp add: assms [symmetric] pfr_asbr_peers_def)
qed

end
