(* ===== verification/Pfr_Telemetry.thy ===== *)
theory Pfr_Telemetry
  imports Pfr_Peers Double64
begin

text \<open>
  The telemetry of the peers (\<open>src/src/pfr_telemetry.h\<close>, \<open>pfr_telemetry.cpp\<close>): the container
  \<open>pfr_perf_peers_cont\<close>, keyed by router, peer and round, the rounds of the thread \<open>performance_peers\<close>
  that fills it, and the threads of all routers as a step relation.

  \<open>performance_thread\<close> is the thread with the template of its messages.  The functions that would
  query a router have empty bodies, so a record holds what its constructor is given.  The values of
  the container are pointers (\<open>None\<close> is null).  \<open>del\<close> has no body and no result; nothing calls it.
\<close>

record tperf_peer =
  tf_description :: string
  tf_peer_id :: "int option"
  tf_load :: double
  tf_bandwidth :: double
  tf_capacity :: double
  tf_delay :: double
  tf_throughput :: double
  tf_jitter :: double
  tf_packet_loss :: double
  tf_utilization :: double

definition tperf_peer_new ::
  "string \<Rightarrow> int option \<Rightarrow> double \<Rightarrow> double \<Rightarrow> double \<Rightarrow> double \<Rightarrow> double \<Rightarrow> double \<Rightarrow> double \<Rightarrow> double
    \<Rightarrow> tperf_peer" where
  "tperf_peer_new description peer_id load bandwidth capacity delay throughput jitter packet_loss
       utilization
     = \<lparr>tf_description = description, tf_peer_id = peer_id, tf_load = load,
        tf_bandwidth = bandwidth, tf_capacity = capacity, tf_delay = delay,
        tf_throughput = throughput, tf_jitter = jitter, tf_packet_loss = packet_loss,
        tf_utilization = utilization\<rparr>"

type_synonym perf_map = "(int, tperf_peer option) std_map"
type_synonym perf_cont = "(string, (int, perf_map) std_map) std_map"

definition perf_add :: "string \<Rightarrow> int \<Rightarrow> int \<Rightarrow> tperf_peer option \<Rightarrow> perf_cont \<Rightarrow> perf_cont" where
  "perf_add pe_ip peer_id perf_id tp ppm =
     sm_modify sm_empty pe_ip (sm_modify sm_empty peer_id (sm_put perf_id tp)) ppm"

text \<open>The result is the pointer the caller deletes.\<close>

definition perf_cleanup ::
  "string \<Rightarrow> int \<Rightarrow> int \<Rightarrow> int \<Rightarrow> perf_cont \<Rightarrow> tperf_peer option \<times> perf_cont" where
  "perf_cleanup pe_ip peer_id perf_id perf_deep ppm =
     (let perf_min = perf_id - perf_deep
      in if perf_min < 0 then (None, ppm)
         else (sm_at None (sm_at sm_empty (sm_at sm_empty ppm pe_ip) peer_id) perf_min,
               sm_modify sm_empty pe_ip (sm_modify sm_empty peer_id (sm_erase perf_min)) ppm))"

text \<open>The lookup by router, peer and round; \<open>[]\<close> creates what is missing.\<close>

definition perf_get4 ::
  "string \<Rightarrow> int \<Rightarrow> int \<Rightarrow> perf_cont \<Rightarrow> tperf_peer option \<times> perf_cont" where
  "perf_get4 pe_ip peer_id perf_id ppm =
     (sm_at None (sm_at sm_empty (sm_at sm_empty ppm pe_ip) peer_id) perf_id,
      sm_modify sm_empty pe_ip (sm_modify sm_empty peer_id (sm_touch None perf_id)) ppm)"

text \<open>
  The lookup by peer alone: the last round of the first router that knows the peer.  On a peer
  without rounds \<open>std::prev\<close> leaves the map.
\<close>

fun perf_get_in :: "int \<Rightarrow> (string \<times> (int, perf_map) std_map) list \<Rightarrow> tperf_peer option res" where
  "perf_get_in peer_id [] = Inr None"
| "perf_get_in peer_id ((dst_ip, peers) # rest) =
     (case sm_find peers peer_id of
        None \<Rightarrow> perf_get_in peer_id rest
      | Some perfs \<Rightarrow>
          (if sm_keys perfs = [] then Inl (Undefined_Behaviour ''std::prev of begin'')
           else Inr (sm_at None perfs (last (sm_keys perfs)))))"

definition perf_get :: "int \<Rightarrow> perf_cont \<Rightarrow> tperf_peer option res" where
  "perf_get peer_id ppm = perf_get_in peer_id (entries ppm)"

text \<open>
  One round of \<open>performance_peers\<close> over the peers of its router: a new record is added, and the one
  of two rounds ago is removed and deleted.  The round's number is passed as the load.
\<close>

definition perf_peer_step :: "string \<Rightarrow> int \<Rightarrow> pfr_peer \<Rightarrow> perf_cont \<Rightarrow> perf_cont res" where
  "perf_peer_step pe_ip perf_id peer ppm =
     (case pp_id peer of
        None \<Rightarrow> Inl (Undefined_Behaviour ''peer id'')
      | Some k \<Rightarrow>
          (let tp = tperf_peer_new pe_ip (Some k) (d_of_int perf_id)
                 (Fin 0) (Fin 0) (Fin 0) (Fin 0) (Fin 0) (Fin 0) (Fin 0)
           in Inr (snd (perf_cleanup pe_ip k perf_id 2 (perf_add pe_ip k perf_id (Some tp) ppm)))))"

definition performance_round :: "string \<Rightarrow> peer_table \<Rightarrow> int \<Rightarrow> perf_cont \<Rightarrow> perf_cont res" where
  "performance_round pe_ip peers perf_id ppm =
     fold_res (perf_peer_step pe_ip perf_id) (map snd (entries peers)) ppm"

text \<open>The thread's loop, for its first \<open>n\<close> rounds: \<open>perf_id\<close> is 0, 1, ...\<close>

fun performance_peers :: "string \<Rightarrow> peer_table \<Rightarrow> nat \<Rightarrow> perf_cont \<Rightarrow> perf_cont res" where
  "performance_peers pe_ip peers 0 ppm = Inr ppm"
| "performance_peers pe_ip peers (Suc n) ppm =
     res_bind (performance_peers pe_ip peers n ppm) (performance_round pe_ip peers (int n))"


text \<open>
  The template of the thread's messages: the last row of the query; without rows the number has no
  value.  An exception of \<open>stoi\<close> in the thread ends the program.
\<close>

record perf_peer_tmpl =
  pt_id :: "int option"
  pt_desc :: string
  pt_head :: string
  pt_hend :: string

definition perf_peer_tmpl_new :: "(string \<times> string \<times> string \<times> string) list \<Rightarrow> perf_peer_tmpl res" where
  "perf_peer_tmpl_new rows =
     fold_res (\<lambda>(id, desc, head, hend) _. res_map (\<lambda>n. \<lparr>pt_id = Some n, pt_desc = desc, pt_head = head, pt_hend = hend\<rparr>)
       (stoi id)) rows \<lparr>pt_id = None, pt_desc = [], pt_head = [], pt_hend = []\<rparr>"

definition perf_line :: "perf_peer_tmpl \<Rightarrow> pfr_peer \<Rightarrow> string" where
  "perf_line ppt peer = ''pfr_asbr_peers(): '' @ pt_head ppt @ pp_interface_name peer @ ''.''
     @ pp_interface_unit peer @ pt_hend ppt"

text \<open>The thread from its start: the template, then the rounds.\<close>

definition performance_thread ::
  "(string \<times> string \<times> string \<times> string) list \<Rightarrow> string \<Rightarrow> peer_table \<Rightarrow> nat \<Rightarrow> perf_cont \<Rightarrow> perf_cont res" where
  "performance_thread rows pe_ip peers n ppm =
     res_bind (perf_peer_tmpl_new rows) (\<lambda>_. performance_peers pe_ip peers n ppm)"

text \<open>
  The pause between two rounds: \<open>select\<close> without descriptors, repeated after a second when it fails.  The
  parameter is what it returns, the result the seconds slept; \<open>None\<close> while it has not yet returned.
\<close>

fun perf_wait :: "int list \<Rightarrow> nat option" where
  "perf_wait [] = None"
| "perf_wait (retval # retvals) = (if retval \<noteq> - 1 then Some 0 else map_option Suc (perf_wait retvals))"


section \<open>Facts\<close>

lemma performance_thread_runs:
  assumes "\<forall>q \<in> set rows. \<exists>n. stoi (fst q) = Inr n"
  shows "performance_thread rows pe_ip peers n ppm = performance_peers pe_ip peers n ppm"
proof -
  have "\<exists>t'. fold_res (\<lambda>(id, desc, head, hend) _. res_map (\<lambda>n. \<lparr>pt_id = Some n, pt_desc = desc, pt_head = head,
      pt_hend = hend\<rparr>) (stoi id)) rows t = Inr t'" for t
    using assms by (induction rows arbitrary: t) (auto split: prod.splits)
  then obtain t where "perf_peer_tmpl_new rows = Inr t" unfolding perf_peer_tmpl_new_def by blast
  then show ?thesis by (simp add: performance_thread_def)
qed

text \<open>What the container holds for a peer of a router.\<close>

definition perf_of :: "string \<Rightarrow> int \<Rightarrow> perf_cont \<Rightarrow> perf_map" where
  "perf_of pe_ip peer_id ppm = sm_at sm_empty (sm_at sm_empty ppm pe_ip) peer_id"

lemma perf_of_add [simp]:
  "perf_of pe k (perf_add pe' k' p tp ppm)
    = (if pe' = pe \<and> k' = k then sm_put p tp (perf_of pe k ppm) else perf_of pe k ppm)"
  by (auto simp: perf_of_def perf_add_def)

lemma perf_of_cleanup [simp]:
  "perf_of pe k (snd (perf_cleanup pe' k' p d ppm))
    = (if pe' = pe \<and> k' = k \<and> d \<le> p then sm_erase (p - d) (perf_of pe k ppm) else perf_of pe k ppm)"
  by (auto simp: perf_of_def perf_cleanup_def Let_def)

text \<open>The rounds a peer holds after round \<open>n\<close>: its last two.\<close>

definition two_rounds :: "int \<Rightarrow> perf_map \<Rightarrow> bool" where
  "two_rounds n m \<longleftrightarrow> (\<forall>p. sm_find m p \<noteq> None \<longleftrightarrow> 0 \<le> p \<and> n - 2 < p \<and> p \<le> n)"

lemma two_rounds_step:
  assumes "two_rounds (n - 1) m" and "0 \<le> n"
  shows "two_rounds n (if 2 \<le> n then sm_erase (n - 2) (sm_put n tp m) else sm_put n tp m)"
  using assms unfolding two_rounds_def by auto

lemma perf_peer_step_other:
  assumes "perf_peer_step pe n peer ppm = Inr ppm'" and "pe' \<noteq> pe \<or> pp_id peer \<noteq> Some k"
  shows "perf_of pe' k ppm' = perf_of pe' k ppm"
  using assms by (auto simp: perf_peer_step_def Let_def split: option.splits)

lemma perf_peer_step_own:
  assumes "perf_peer_step pe n peer ppm = Inr ppm'" and "pp_id peer = Some k"
    and "two_rounds (n - 1) (perf_of pe k ppm)" and "0 \<le> n"
  shows "two_rounds n (perf_of pe k ppm')"
  using assms two_rounds_step [OF assms(3,4)] by (auto simp: perf_peer_step_def Let_def)

lemma two_rounds_again:
  assumes "two_rounds n m" and "0 \<le> n"
  shows "two_rounds n (if 2 \<le> n then sm_erase (n - 2) (sm_put n tp m) else sm_put n tp m)"
  using assms unfolding two_rounds_def by auto

lemma perf_peer_step_twice:
  assumes "perf_peer_step pe n peer ppm = Inr ppm'" and "pp_id peer = Some k"
    and "two_rounds n (perf_of pe k ppm)" and "0 \<le> n"
  shows "two_rounds n (perf_of pe k ppm')"
  using assms two_rounds_again [OF assms(3,4)] by (auto simp: perf_peer_step_def Let_def)

lemma performance_steps:
  assumes "\<forall>p \<in> set ps. \<exists>k. pp_id p = Some k" and "0 \<le> n"
  shows "\<exists>ppm'. fold_res (perf_peer_step pe n) ps ppm = Inr ppm'
    \<and> (\<forall>k. Some k \<in> pp_id ` set ps
          \<and> (two_rounds (n - 1) (perf_of pe k ppm) \<or> two_rounds n (perf_of pe k ppm))
        \<longrightarrow> two_rounds n (perf_of pe k ppm'))
    \<and> (\<forall>pe' k. pe' \<noteq> pe \<or> Some k \<notin> pp_id ` set ps \<longrightarrow> perf_of pe' k ppm' = perf_of pe' k ppm)"
  using assms(1)
proof (induction ps arbitrary: ppm)
  case (Cons p ps)
  obtain j where j: "pp_id p = Some j" using Cons.prems by auto
  then obtain u where u: "perf_peer_step pe n p ppm = Inr u" by (simp add: perf_peer_step_def Let_def)
  obtain ppm' where IH: "fold_res (perf_peer_step pe n) ps u = Inr ppm'"
    "\<And>k. Some k \<in> pp_id ` set ps \<Longrightarrow> two_rounds (n - 1) (perf_of pe k u) \<or> two_rounds n (perf_of pe k u)
      \<Longrightarrow> two_rounds n (perf_of pe k ppm')"
    "\<And>pe' k. pe' \<noteq> pe \<or> Some k \<notin> pp_id ` set ps \<Longrightarrow> perf_of pe' k ppm' = perf_of pe' k u"
    using Cons.IH [of u] Cons.prems by auto
  have other: "perf_of pe' k u = perf_of pe' k ppm" if "pe' \<noteq> pe \<or> k \<noteq> j" for pe' k
    by (rule perf_peer_step_other [OF u]) (use that j in auto)
  have own: "two_rounds n (perf_of pe j u)"
    if "two_rounds (n - 1) (perf_of pe j ppm) \<or> two_rounds n (perf_of pe j ppm)"
    using that perf_peer_step_own [OF u j _ assms(2)] perf_peer_step_twice [OF u j _ assms(2)] by blast
  have "two_rounds n (perf_of pe k ppm')"
    if k: "Some k \<in> pp_id ` set (p # ps)"
      "two_rounds (n - 1) (perf_of pe k ppm) \<or> two_rounds n (perf_of pe k ppm)" for k
  proof (cases "k = j")
    case True
    then show ?thesis using own k(2) IH(2,3) by metis
  next
    case False
    then show ?thesis using IH(2) [of k] other k j by auto
  qed
  moreover have "perf_of pe' k ppm' = perf_of pe' k ppm"
    if "pe' \<noteq> pe \<or> Some k \<notin> pp_id ` set (p # ps)" for pe' k
    using that IH(3) [of pe' k] other [of pe' k] j by auto
  ultimately show ?case using u IH(1) by (simp add: all_conj_distrib)
qed simp

text \<open>
  C31. The telemetry of a router stays bounded: after any number of rounds its thread holds, for every
  peer of the router, the records of the last two rounds and no others, and nothing for any other
  peer.
\<close>

theorem performance_keeps_two:
  assumes "\<forall>p \<in> set (map snd (entries peers)). \<exists>k. pp_id p = Some k"
  shows "\<exists>ppm. performance_peers pe peers n sm_empty = Inr ppm
    \<and> (\<forall>pe' k p. sm_find (perf_of pe' k ppm) p \<noteq> None \<longleftrightarrow>
        pe' = pe \<and> Some k \<in> pp_id ` set (map snd (entries peers)) \<and> 0 \<le> p \<and> int n - 3 < p \<and> p < int n)"
proof -
  let ?ps = "map snd (entries peers)"
  have "\<exists>ppm. performance_peers pe peers n sm_empty = Inr ppm
    \<and> (\<forall>k. Some k \<in> pp_id ` set ?ps \<longrightarrow> two_rounds (int n - 1) (perf_of pe k ppm))
    \<and> (\<forall>pe' k. pe' \<noteq> pe \<or> Some k \<notin> pp_id ` set ?ps \<longrightarrow> perf_of pe' k ppm = sm_empty)"
  proof (induction n)
    case 0
    show ?case by (simp add: two_rounds_def perf_of_def)
  next
    case (Suc n)
    then obtain ppm where IH: "performance_peers pe peers n sm_empty = Inr ppm"
      "\<forall>k. Some k \<in> pp_id ` set ?ps \<longrightarrow> two_rounds (int n - 1) (perf_of pe k ppm)"
      "\<forall>pe' k. pe' \<noteq> pe \<or> Some k \<notin> pp_id ` set ?ps \<longrightarrow> perf_of pe' k ppm = sm_empty" by blast
    obtain ppm' where s: "fold_res (perf_peer_step pe (int n)) ?ps ppm = Inr ppm'"
      "\<forall>k. Some k \<in> pp_id ` set ?ps
          \<and> (two_rounds (int n - 1) (perf_of pe k ppm) \<or> two_rounds (int n) (perf_of pe k ppm))
        \<longrightarrow> two_rounds (int n) (perf_of pe k ppm')"
      "\<forall>pe' k. pe' \<noteq> pe \<or> Some k \<notin> pp_id ` set ?ps \<longrightarrow> perf_of pe' k ppm' = perf_of pe' k ppm"
      using performance_steps [OF assms, of "int n" pe ppm] by auto
    have "performance_peers pe peers (Suc n) sm_empty = Inr ppm'"
      by (simp add: IH(1) performance_round_def s(1))
    moreover have "int (Suc n) - 1 = int n" by simp
    ultimately show ?case using s(2,3) IH(2,3) by (metis (no_types, lifting))
  qed
  then obtain ppm where p: "performance_peers pe peers n sm_empty = Inr ppm"
    "\<And>k. Some k \<in> pp_id ` set ?ps \<Longrightarrow> two_rounds (int n - 1) (perf_of pe k ppm)"
    "\<And>pe' k. pe' \<noteq> pe \<or> Some k \<notin> pp_id ` set ?ps \<Longrightarrow> perf_of pe' k ppm = sm_empty" by blast
  have "sm_find (perf_of pe' k ppm) q \<noteq> None \<longleftrightarrow>
      pe' = pe \<and> Some k \<in> pp_id ` set ?ps \<and> 0 \<le> q \<and> int n - 3 < q \<and> q < int n" for pe' k q
  proof (cases "pe' = pe \<and> Some k \<in> pp_id ` set ?ps")
    case True
    then show ?thesis using p(2) [of k] by (auto simp: two_rounds_def)
  next
    case False
    then show ?thesis using p(3) [of pe' k] by auto
  qed
  then show ?thesis using p(1) by blast
qed

theorem performance_keeps_two_witness:
  "let peers = sm_put 1 (pfr_peer_default\<lparr>pp_id := Some 1\<rparr>) sm_empty
   in \<exists>ppm. performance_peers ''10.1.0.1'' peers 4 sm_empty = Inr ppm
     \<and> (\<forall>pe' k p. sm_find (perf_of pe' k ppm) p \<noteq> None \<longleftrightarrow>
          pe' = ''10.1.0.1'' \<and> Some k \<in> pp_id ` set (map snd (entries peers))
            \<and> 0 \<le> p \<and> int 4 - 3 < p \<and> p < int 4)"
  unfolding Let_def by (rule performance_keeps_two) (simp add: sm_put.rep_eq)


section \<open>The threads of all routers together\<close>

text \<open>
  Every router has a thread.  The container's mutex is taken for each operation alone, so a step of a
  thread is one call of \<open>add\<close> or of \<open>cleanup\<close>, or the passage to its next round; \<open>ps pe\<close> are the peers
  of a router.
\<close>

datatype perf_pc = Adding "pfr_peer list" | Cleaning pfr_peer "pfr_peer list"

record perf_state =
  perf_at :: "string \<Rightarrow> perf_pc"
  perf_no :: "string \<Rightarrow> int"
  perf_conts :: perf_cont

definition perf_start :: "(string \<Rightarrow> pfr_peer list) \<Rightarrow> perf_state" where
  "perf_start ps = \<lparr>perf_at = (\<lambda>pe. Adding (ps pe)), perf_no = (\<lambda>_. 0), perf_conts = sm_empty\<rparr>"

inductive telemetry_step :: "(string \<Rightarrow> pfr_peer list) \<Rightarrow> perf_state \<Rightarrow> perf_state \<Rightarrow> bool"
  for ps :: "string \<Rightarrow> pfr_peer list" where
  add: "perf_at s pe = Adding (p # rest) \<Longrightarrow> pp_id p = Some k \<Longrightarrow>
    telemetry_step ps s (s\<lparr>perf_at := (perf_at s)(pe := Cleaning p rest),
      perf_conts := perf_add pe k (perf_no s pe) (Some (tperf_peer_new pe (Some k) (d_of_int (perf_no s pe))
        (Fin 0) (Fin 0) (Fin 0) (Fin 0) (Fin 0) (Fin 0) (Fin 0))) (perf_conts s)\<rparr>)"
| cleanup: "perf_at s pe = Cleaning p rest \<Longrightarrow> pp_id p = Some k \<Longrightarrow>
    telemetry_step ps s (s\<lparr>perf_at := (perf_at s)(pe := Adding rest),
      perf_conts := snd (perf_cleanup pe k (perf_no s pe) 2 (perf_conts s))\<rparr>)"
| round: "perf_at s pe = Adding [] \<Longrightarrow>
    telemetry_step ps s (s\<lparr>perf_at := (perf_at s)(pe := Adding (ps pe)),
      perf_no := (perf_no s)(pe := perf_no s pe + 1)\<rparr>)"

text \<open>The peers a thread has still to finish in its round, and the map of a peer, if there is one.\<close>

fun pending :: "perf_pc \<Rightarrow> pfr_peer list" where
  "pending (Adding rest) = rest"
| "pending (Cleaning p rest) = p # rest"

definition perf_cell :: "string \<Rightarrow> int \<Rightarrow> perf_cont \<Rightarrow> perf_map option" where
  "perf_cell pe k ppm = sm_find (sm_at sm_empty ppm pe) k"

lemma perf_cell_add [simp]:
  "perf_cell pe k (perf_add pe' k' p tp ppm)
    = (if pe' = pe \<and> k' = k then Some (sm_put p tp (perf_of pe k ppm)) else perf_cell pe k ppm)"
  by (auto simp: perf_cell_def perf_of_def perf_add_def)

lemma perf_cell_cleanup [simp]:
  "perf_cell pe k (snd (perf_cleanup pe' k' p d ppm))
    = (if pe' = pe \<and> k' = k \<and> d \<le> p then Some (sm_erase (p - d) (perf_of pe k ppm)) else perf_cell pe k ppm)"
  by (auto simp: perf_cell_def perf_of_def perf_cleanup_def Let_def)

text \<open>
  The invariant of a thread: the map of a peer, once it exists, is not empty; it holds records, of the
  peers of the router and of the last three rounds only (of the last two when the thread is done with
  the peer); and the thread that is about to clean up has added its record.
\<close>

definition records_ok :: "int \<Rightarrow> int \<Rightarrow> int \<Rightarrow> perf_map \<Rightarrow> bool" where
  "records_ok k low n m \<longleftrightarrow> (\<forall>p x. sm_find m p = Some x \<longrightarrow>
     (\<exists>tp. x = Some tp \<and> tf_peer_id tp = Some k) \<and> 0 \<le> p \<and> low \<le> p \<and> p \<le> n)"

definition router_inv :: "pfr_peer list \<Rightarrow> perf_pc \<Rightarrow> int \<Rightarrow> (int \<Rightarrow> perf_map option) \<Rightarrow> bool" where
  "router_inv ps pc n cell \<longleftrightarrow> set (pending pc) \<subseteq> set ps \<and> 0 \<le> n
     \<and> (\<forall>k m. cell k = Some m \<longrightarrow> m \<noteq> sm_empty \<and> Some k \<in> pp_id ` set ps
          \<and> records_ok k (if Some k \<in> pp_id ` set (pending pc) then n - 2 else n - 1) n m)
     \<and> (\<forall>q rest k. pc = Cleaning q rest \<and> pp_id q = Some k \<longrightarrow>
          (\<exists>m. cell k = Some m \<and> sm_find m n \<noteq> None))"

lemma router_inv_start: "router_inv ps (Adding ps) 0 (\<lambda>_. None)"
  by (simp add: router_inv_def)

lemma sm_put_nonempty: "sm_put k v m \<noteq> sm_empty"
  by (metis option.distinct(1) sm_find_empty sm_find_put)

lemma router_inv_pending:
  assumes "router_inv ps pc n cell" and "Some k \<in> pp_id ` set (pending pc)" and "cell k = Some m"
  shows "records_ok k (n - 2) n m"
proof -
  have "records_ok k (if Some k \<in> pp_id ` set (pending pc) then n - 2 else n - 1) n m"
    using assms(1,3) unfolding router_inv_def by blast
  then show ?thesis using assms(2) by simp
qed

lemma router_inv_add:
  assumes inv: "router_inv ps (Adding (p # rest)) n cell" and k: "pp_id p = Some k"
    and tp: "tf_peer_id tp = Some k"
  shows "router_inv ps (Cleaning p rest) n (cell(k \<mapsto> sm_put n (Some tp) (case cell k of None \<Rightarrow> sm_empty | Some m \<Rightarrow> m)))"
proof -
  let ?m = "case cell k of None \<Rightarrow> sm_empty | Some m \<Rightarrow> m"
  have "records_ok k (n - 2) n ?m"
    using router_inv_pending [OF inv, of k] k by (cases "cell k") (auto simp: records_ok_def)
  then have "records_ok k (n - 2) n (sm_put n (Some tp) ?m)"
    using inv tp by (auto simp: records_ok_def router_inv_def)
  then have own: "sm_put n (Some tp) ?m \<noteq> sm_empty \<and> Some k \<in> pp_id ` set ps
      \<and> records_ok k (if Some k \<in> pp_id ` set (p # rest) then n - 2 else n - 1) n (sm_put n (Some tp) ?m)"
    using inv k by (force simp: router_inv_def sm_put_nonempty)
  have other: "m \<noteq> sm_empty \<and> Some j \<in> pp_id ` set ps
      \<and> records_ok j (if Some j \<in> pp_id ` set (p # rest) then n - 2 else n - 1) n m" if "cell j = Some m" for j m
    using inv that unfolding router_inv_def by simp
  show ?thesis
    unfolding router_inv_def pending.simps
  proof (intro conjI allI impI)
    fix j m assume "(cell(k \<mapsto> sm_put n (Some tp) ?m)) j = Some m"
    then have "m \<noteq> sm_empty \<and> Some j \<in> pp_id ` set ps
        \<and> records_ok j (if Some j \<in> pp_id ` set (p # rest) then n - 2 else n - 1) n m"
      using own other [of j m] by (cases "j = k") simp_all
    then show "m \<noteq> sm_empty" "Some j \<in> pp_id ` set ps"
      "records_ok j (if Some j \<in> pp_id ` set (p # rest) then n - 2 else n - 1) n m" by blast+
  qed (use inv k in \<open>auto simp: router_inv_def\<close>)
qed

text \<open>What \<open>cleanup\<close> leaves of a peer's records, and how the bounds on the rounds weaken.\<close>

lemma records_ok_low: "records_ok j l n m \<Longrightarrow> n < 2 \<Longrightarrow> records_ok j (n - 1) n m"
  unfolding records_ok_def by fastforce

lemma records_ok_weaken: "records_ok j (n - 1) n m \<Longrightarrow> records_ok j (n - 2) n m"
  unfolding records_ok_def by fastforce

lemma records_ok_erase:
  assumes "records_ok k (n - 2) n m" and "sm_find m n \<noteq> None"
  shows "sm_erase (n - 2) m \<noteq> sm_empty" and "records_ok k (n - 1) n (sm_erase (n - 2) m)"
proof -
  have "sm_find (sm_erase (n - 2) m) n \<noteq> None" using assms(2) by simp
  then show "sm_erase (n - 2) m \<noteq> sm_empty" by (metis sm_find_empty)
  show "records_ok k (n - 1) n (sm_erase (n - 2) m)"
    unfolding records_ok_def
  proof (intro allI impI)
    fix q x assume q: "sm_find (sm_erase (n - 2) m) q = Some x"
    then have "sm_find m q = Some x" "q \<noteq> n - 2" by (auto split: if_splits)
    then show "(\<exists>tp. x = Some tp \<and> tf_peer_id tp = Some k) \<and> 0 \<le> q \<and> n - 1 \<le> q \<and> q \<le> n"
      using assms(1) unfolding records_ok_def by fastforce
  qed
qed

lemma router_inv_cleanup:
  assumes inv: "router_inv ps (Cleaning p rest) n cell" and k: "pp_id p = Some k"
  shows "router_inv ps (Adding rest) n
    (if 2 \<le> n then cell(k \<mapsto> sm_erase (n - 2) (case cell k of None \<Rightarrow> sm_empty | Some m \<Rightarrow> m)) else cell)"
proof -
  obtain m where m: "cell k = Some m" "sm_find m n \<noteq> None"
    using inv k unfolding router_inv_def by blast
  have rec: "records_ok k (n - 2) n m" using router_inv_pending [OF inv, of k] k m(1) by simp
  have other: "m' \<noteq> sm_empty \<and> Some j \<in> pp_id ` set ps
      \<and> records_ok j (if Some j \<in> pp_id ` set (p # rest) then n - 2 else n - 1) n m'" if "cell j = Some m'" for j m'
    using inv that unfolding router_inv_def by simp
  show ?thesis
    unfolding router_inv_def pending.simps
  proof (intro conjI allI impI)
    fix j m' assume j: "(if 2 \<le> n then cell(k \<mapsto> sm_erase (n - 2) (case cell k of None \<Rightarrow> sm_empty | Some m \<Rightarrow> m))
      else cell) j = Some m'"
    have "m' \<noteq> sm_empty \<and> Some j \<in> pp_id ` set ps
        \<and> records_ok j (if Some j \<in> pp_id ` set rest then n - 2 else n - 1) n m'"
    proof (cases "2 \<le> n \<and> j = k")
      case True
      then have "m' = sm_erase (n - 2) m" using j m(1) by simp
      then show ?thesis
        using records_ok_erase [OF rec m(2)] records_ok_weaken [of k] other [of k m] m(1) True by auto
    next
      case False
      then have c: "cell j = Some m'" using j by (simp split: if_splits)
      show ?thesis
        using other [OF c] False k records_ok_low [of j _ n m'] records_ok_weaken [of j n m'] by (auto split: if_splits)
    qed
    then show "m' \<noteq> sm_empty" "Some j \<in> pp_id ` set ps"
      "records_ok j (if Some j \<in> pp_id ` set rest then n - 2 else n - 1) n m'" by blast+
  qed (use inv in \<open>auto simp: router_inv_def\<close>)
qed

lemma router_inv_round:
  assumes "router_inv ps (Adding []) n cell"
  shows "router_inv ps (Adding ps) (n + 1) cell"
  using assms by (fastforce simp: router_inv_def records_ok_def)

definition perf_inv :: "(string \<Rightarrow> pfr_peer list) \<Rightarrow> perf_state \<Rightarrow> bool" where
  "perf_inv ps s \<longleftrightarrow> (\<forall>pe. router_inv (ps pe) (perf_at s pe) (perf_no s pe) (\<lambda>k. perf_cell pe k (perf_conts s)))"

lemma perf_of_cell: "perf_of pe k ppm = (case perf_cell pe k ppm of None \<Rightarrow> sm_empty | Some m \<Rightarrow> m)"
  by (simp add: perf_of_def perf_cell_def sm_at_def)

lemma perf_inv_step:
  assumes "perf_inv ps s" and "telemetry_step ps s t"
  shows "perf_inv ps t"
  unfolding perf_inv_def
proof
  fix pe
  let ?cell = "\<lambda>k. perf_cell pe k (perf_conts s)"
  have inv: "router_inv (ps pe) (perf_at s pe) (perf_no s pe) ?cell"
    using assms(1) by (simp add: perf_inv_def)
  show "router_inv (ps pe) (perf_at t pe) (perf_no t pe) (\<lambda>k. perf_cell pe k (perf_conts t))"
    using assms(2)
  proof (cases rule: telemetry_step.cases)
    case (add pe' p rest k)
    show ?thesis
    proof (cases "pe' = pe")
      case True
      then have "router_inv (ps pe) (Adding (p # rest)) (perf_no s pe) ?cell" using inv add(2) by simp
      from router_inv_add [OF this add(3)] show ?thesis using True
        by (simp add: add(1) perf_of_cell fun_upd_def tperf_peer_new_def if_distrib eq_commute cong: if_cong)
    qed (use inv in \<open>simp add: add(1)\<close>)
  next
    case (cleanup pe' p rest k)
    show ?thesis
    proof (cases "pe' = pe")
      case True
      then have "router_inv (ps pe) (Cleaning p rest) (perf_no s pe) ?cell" using inv cleanup(2) by simp
      note router_inv_cleanup [OF this cleanup(3)]
      moreover have "(\<lambda>j. perf_cell pe j (perf_conts t))
          = (if 2 \<le> perf_no s pe
             then ?cell(k \<mapsto> sm_erase (perf_no s pe - 2) (case ?cell k of None \<Rightarrow> sm_empty | Some m \<Rightarrow> m))
             else ?cell)"
        using True by (auto simp: cleanup(1) perf_of_cell fun_eq_iff)
      ultimately show ?thesis using True by (simp add: cleanup(1))
    qed (use inv in \<open>simp add: cleanup(1)\<close>)
  next
    case (round pe')
    then show ?thesis using inv router_inv_round [of "ps pe" "perf_no s pe" ?cell]
      by (cases "pe' = pe") simp_all
  qed
qed

lemma perf_inv_reach: "(telemetry_step ps)\<^sup>*\<^sup>* (perf_start ps) s \<Longrightarrow> perf_inv ps s"
proof (induction rule: rtranclp_induct)
  case base
  show ?case using router_inv_start by (simp add: perf_inv_def perf_start_def perf_cell_def)
qed (rule perf_inv_step)

text \<open>The lookup of \<open>main\<close> is safe on non-empty maps, and finds what one of the routers holds.\<close>

lemma perf_get_in_cells:
  assumes "\<forall>(pe, peers) \<in> set es. sm_find peers k \<noteq> Some sm_empty"
  shows "\<exists>tf. perf_get_in k es = Inr tf
    \<and> (tf = None \<and> (\<forall>(pe, peers) \<in> set es. sm_find peers k = None)
      \<or> (\<exists>(pe, peers) \<in> set es. \<exists>m p. sm_find peers k = Some m \<and> sm_find m p = Some tf
          \<and> (\<forall>q. sm_find m q \<noteq> None \<longrightarrow> q \<le> p)))"
  using assms
proof (induction es)
  case (Cons e es)
  obtain pe peers where e: "e = (pe, peers)" by (cases e)
  show ?case
  proof (cases "sm_find peers k")
    case None
    then show ?thesis using Cons by (auto simp: e)
  next
    case (Some m)
    then have ne: "sm_keys m \<noteq> []" using Cons.prems by (auto simp: e sm_empty_iff_keys)
    let ?p = "last (sm_keys m)"
    have "?p \<in> set (sm_keys m)" using ne by simp
    then obtain tf where tf: "sm_find m ?p = Some tf" by (auto simp: sm_in_keys)
    have "q \<le> ?p" if "sm_find m q \<noteq> None" for q
    proof -
      obtain qs where qs: "sm_keys m = qs @ [?p]" using ne by (metis append_butlast_last_id)
      then have "\<forall>x \<in> set qs. x < ?p" using sorted_sm_keys [of m] by (metis list.set_intros(1) sorted_wrt_append)
      moreover have "q \<in> set qs \<or> q = ?p" using that sm_in_keys [of q m] qs by (metis insert_iff list.set(2) set_append Un_iff empty_set empty_iff)
      ultimately show ?thesis by (auto intro: less_imp_le)
    qed
    then show ?thesis using Some ne tf by (auto simp: e sm_find_Some_at)
  qed
qed simp

lemma perf_get_cells:
  assumes "\<And>pe. perf_cell pe k ppm \<noteq> Some sm_empty"
  obtains (none) "perf_get k ppm = Inr None" "\<And>pe. perf_cell pe k ppm = None"
    | (found) pe m p tf where "perf_get k ppm = Inr tf" "perf_cell pe k ppm = Some m" "sm_find m p = Some tf"
        "\<forall>q. sm_find m q \<noteq> None \<longrightarrow> q \<le> p"
proof -
  have cell: "perf_cell pe k ppm = sm_find peers k" if "(pe, peers) \<in> set (entries ppm)" for pe peers
    using that by (simp add: perf_cell_def entries_iff_find sm_find_Some_at)
  have "\<forall>(pe, peers) \<in> set (entries ppm). sm_find peers k \<noteq> Some sm_empty"
    using assms cell by fastforce
  from perf_get_in_cells [OF this] obtain tf where tf: "perf_get k ppm = Inr tf"
    "tf = None \<and> (\<forall>(pe, peers) \<in> set (entries ppm). sm_find peers k = None)
      \<or> (\<exists>(pe, peers) \<in> set (entries ppm). \<exists>m p. sm_find peers k = Some m \<and> sm_find m p = Some tf
          \<and> (\<forall>q. sm_find m q \<noteq> None \<longrightarrow> q \<le> p))" unfolding perf_get_def by blast
  show thesis
    using tf(2)
  proof (elim disjE conjE)
    assume "tf = None" and n: "\<forall>(pe, peers) \<in> set (entries ppm). sm_find peers k = None"
    moreover have "perf_cell pe k ppm = None" for pe
      using n by (cases "sm_find ppm pe") (auto simp: perf_cell_def sm_at_def entries_iff_find)
    ultimately show thesis using none tf(1) by simp
  next
    assume "\<exists>(pe, peers) \<in> set (entries ppm). \<exists>m p. sm_find peers k = Some m \<and> sm_find m p = Some tf
          \<and> (\<forall>q. sm_find m q \<noteq> None \<longrightarrow> q \<le> p)"
    then show thesis using found [OF tf(1) trans [OF cell]] by blast
  qed
qed

lemma perf_inv_cell:
  assumes "perf_inv ps s" and "perf_cell pe k (perf_conts s) = Some m"
  obtains l where "m \<noteq> sm_empty" "Some k \<in> pp_id ` set (ps pe)" "perf_no s pe - 2 \<le> l"
    "records_ok k l (perf_no s pe) m"
proof -
  let ?l = "if Some k \<in> pp_id ` set (pending (perf_at s pe)) then perf_no s pe - 2 else perf_no s pe - 1"
  have "m \<noteq> sm_empty \<and> Some k \<in> pp_id ` set (ps pe) \<and> records_ok k ?l (perf_no s pe) m"
    using assms unfolding perf_inv_def router_inv_def by blast
  then show thesis by (intro that [of ?l]) simp_all
qed


definition example_router_peers :: "string \<Rightarrow> pfr_peer list" where
  "example_router_peers pe = (if pe = ''10.1.0.1'' then [pfr_peer_default\<lparr>pp_id := Some 1\<rparr>] else [])"


end
