(* ===== verification/Pfr_Rdata.thy ===== *)
theory Pfr_Rdata
  imports Pfr_Rtr Pfr_Telemetry "HOL-Library.Multiset"
begin

text \<open>
  The measurements (\<open>src/src/pfr_rdata.h\<close>, \<open>pfr_rdata.cpp\<close>): the classes \<open>tparm\<close> and \<open>tlog\<close>, the
  globals \<open>r\<close>, \<open>route\<close> and \<open>route_log1\<close>, and the two passes over a round of probes,
  \<open>pfr_calc_avg_rtt\<close> and \<open>pfr_calc_stddev_rtt\<close>.

  A field a constructor does not set is \<open>None\<close>.  The innermost values of \<open>r\<close> are pointers, with \<open>None\<close>
  the null pointer: every \<open>new\<close> has one owner in the map, so the object is kept in place of its
  address.  \<open>route_log1\<close> is only ever assigned objects and holds no null pointers.
\<close>


section \<open>Data\<close>

record tparm =
  tp_min_rtt :: "double option"
  tp_max_rtt :: "double option"
  tp_stddev_rtt :: "double option"
  tp_mediana_rtt :: "double option"
  tp_avg_rtt :: double
  tp_lost :: int
  tp_rtt :: double
  tp_metric0 :: "double option"
  tp_metric1 :: "double option"
  tp_metric2 :: "double option"
  tp_metric3 :: "double option"
  tp_metric4 :: "double option"
  tp_metric5 :: "double option"
  tp_timestamp :: int

definition tparm_new :: "double \<Rightarrow> double \<Rightarrow> int \<Rightarrow> int \<Rightarrow> tparm" where
  "tparm_new rtt avg_rtt lost timestamp =
     \<lparr>tp_min_rtt = None, tp_max_rtt = None, tp_stddev_rtt = None, tp_mediana_rtt = None,
      tp_avg_rtt = avg_rtt, tp_lost = lost, tp_rtt = rtt,
      tp_metric0 = None, tp_metric1 = None, tp_metric2 = None, tp_metric3 = None,
      tp_metric4 = None, tp_metric5 = None, tp_timestamp = timestamp\<rparr>"

record tlog =
  tl_peer_id :: int
  tl_rtt :: double
  tl_avg_rtt :: double
  tl_lost :: int
  tl_timestamp :: "int option"
  tl_min_rtt :: "double option"
  tl_max_rtt :: "double option"
  tl_stddev_rtt :: "double option"
  tl_mediana_rtt :: "double option"

text \<open>
  The constructor with nine arguments.  Its statement \<open>this->timestamp;\<close> assigns nothing: the field
  keeps no value.
\<close>

definition tlog_new ::
  "int \<Rightarrow> double \<Rightarrow> double \<Rightarrow> double option \<Rightarrow> double option \<Rightarrow> double option \<Rightarrow> double option
    \<Rightarrow> int \<Rightarrow> int \<Rightarrow> tlog" where
  "tlog_new peer_id rtt avg_rtt min_rtt max_rtt stddev_rtt mediana_rtt lost timestamp =
     \<lparr>tl_peer_id = peer_id, tl_rtt = rtt, tl_avg_rtt = avg_rtt, tl_lost = lost, tl_timestamp = None,
      tl_min_rtt = min_rtt, tl_max_rtt = max_rtt, tl_stddev_rtt = stddev_rtt,
      tl_mediana_rtt = mediana_rtt\<rparr>"

type_synonym seq_map = "(int, tparm option) std_map"
type_synonym peer_map = "(int, seq_map) std_map"
type_synonym probe_map = "(int, peer_map) std_map"
type_synonym r_map = "(string, probe_map) std_map"
type_synonym log_map = "(string, (int, tlog) std_map) std_map"

record rdata =
  r :: r_map
  route :: route_map
  route_log1 :: log_map
  proc_v4_new_cnt :: int
  avg_rtt_new_cnt :: int
  scan_new_cnt :: int
  del_proc_v4_new_cnt :: int
  del_scan_new_cnt :: int

definition initial_rdata :: rdata where
  "initial_rdata = \<lparr>r = sm_empty, route = sm_empty, route_log1 = sm_empty, proc_v4_new_cnt = 0,
     avg_rtt_new_cnt = 0, scan_new_cnt = 0, del_proc_v4_new_cnt = 0, del_scan_new_cnt = 0\<rparr>"

text \<open>\<open>r[dst_ip][probe_id]\<close>, \<open>r[dst_ip][probe_id][peer_id]\<close> and its entry \<open>[seq]\<close>.\<close>

definition peers_of :: "r_map \<Rightarrow> string \<Rightarrow> int \<Rightarrow> peer_map" where
  "peers_of m dst_ip probe_id = sm_at sm_empty (sm_at sm_empty m dst_ip) probe_id"

definition seqs_of :: "r_map \<Rightarrow> string \<Rightarrow> int \<Rightarrow> int \<Rightarrow> seq_map" where
  "seqs_of m dst_ip probe_id peer_id = sm_at sm_empty (peers_of m dst_ip probe_id) peer_id"

definition set_peers :: "string \<Rightarrow> int \<Rightarrow> peer_map \<Rightarrow> r_map \<Rightarrow> r_map" where
  "set_peers dst_ip probe_id ps = sm_modify sm_empty dst_ip (sm_put probe_id ps)"

text \<open>\<open>route[dst_ip][probe_id] = p\<close>.\<close>

definition set_route :: "string \<Rightarrow> int \<Rightarrow> rt_parm option \<Rightarrow> route_map \<Rightarrow> route_map" where
  "set_route dst_ip probe_id p = sm_modify sm_empty dst_ip (sm_put probe_id p)"

definition route_at :: "route_map \<Rightarrow> string \<Rightarrow> int \<Rightarrow> rt_parm option option" where
  "route_at m dst_ip probe_id = sm_find (sm_at sm_empty m dst_ip) probe_id"

definition set_log :: "string \<Rightarrow> int \<Rightarrow> tlog \<Rightarrow> log_map \<Rightarrow> log_map" where
  "set_log dst_ip probe_id l = sm_modify sm_empty dst_ip (sm_put probe_id l)"

definition log_at :: "log_map \<Rightarrow> string \<Rightarrow> int \<Rightarrow> tlog option" where
  "log_at m dst_ip probe_id = sm_find (sm_at sm_empty m dst_ip) probe_id"


section \<open>\<open>pfr_calc_avg_rtt\<close>\<close>

record rtt_acc =
  a_curr_rtt :: double
  a_ts :: int
  a_m_rtt :: double
  a_max_rtt :: double
  a_cnt :: int

definition rtt_acc0 :: rtt_acc where
  "rtt_acc0 = \<lparr>a_curr_rtt = Fin 0, a_ts = 0, a_m_rtt = Fin 50000, a_max_rtt = Fin 0, a_cnt = 0\<rparr>"

text \<open>The body of the loop over the sequence numbers; \<open>cnt_rtt\<close> and \<open>alive\<close> count the same.\<close>

definition acc_sample :: "tparm option \<Rightarrow> rtt_acc \<Rightarrow> rtt_acc res" where
  "acc_sample p a = (case p of
       None \<Rightarrow> Inl null_deref
     | Some tp \<Rightarrow> Inr \<lparr>
         a_curr_rtt = dadd (a_curr_rtt a) (tp_rtt tp),
         a_ts = tp_timestamp tp,
         a_m_rtt = (if dless (tp_rtt tp) (a_m_rtt a) then tp_rtt tp else a_m_rtt a),
         a_max_rtt = (if dless (a_max_rtt a) (tp_rtt tp) then tp_rtt tp else a_max_rtt a),
         a_cnt = a_cnt a + 1\<rparr>)"

text \<open>\<open>ceil(curr_rtt * 100 / cnt_rtt) / 100.0\<close>.\<close>

definition ceil_avg :: "double \<Rightarrow> int \<Rightarrow> double" where
  "ceil_avg curr_rtt cnt_rtt =
     ddiv (dceil (ddiv (dmul curr_rtt (Fin 100)) (d_of_int cnt_rtt))) (Fin 100)"

text \<open>The entry \<open>[99]\<close>: the summary of a peer's answers to a round of probes.\<close>

definition summary :: "int \<Rightarrow> rtt_acc \<Rightarrow> tparm" where
  "summary pfr_ping_req a =
     (let avg_rtt = ceil_avg (a_curr_rtt a) (a_cnt a);
          lost = pfr_ping_req - a_cnt a;
          metric1 = dadd (a_m_rtt a) (dmul (a_m_rtt a) (d_of_int lost))
      in (tparm_new (Fin 0) avg_rtt lost (a_ts a))\<lparr>
           tp_min_rtt := Some (a_m_rtt a), tp_max_rtt := Some (a_max_rtt a),
           tp_metric0 := Some avg_rtt, tp_metric1 := Some metric1, tp_metric2 := Some (Fin 0),
           tp_metric3 := Some (Fin 0), tp_metric4 := Some (Fin 0), tp_metric5 := Some (Fin 0)\<rparr>)"

text \<open>
  The telemetry record of the peer is looked up and only logged; its lookup can leave the map.
\<close>

definition calc_avg_peer :: "int \<Rightarrow> perf_cont \<Rightarrow> int \<Rightarrow> seq_map \<Rightarrow> seq_map res" where
  "calc_avg_peer pfr_ping_req ppm peer_id seqs =
     res_bind (fold_res acc_sample (map snd (entries seqs)) rtt_acc0) (\<lambda>a.
     res_bind (perf_get peer_id ppm) (\<lambda>_.
     Inr (sm_put 99 (Some (summary pfr_ping_req a)) seqs)))"

definition calc_avg_peers :: "int \<Rightarrow> perf_cont \<Rightarrow> peer_map \<Rightarrow> peer_map res" where
  "calc_avg_peers pfr_ping_req ppm ps =
     fold_res (\<lambda>peer_id ps. res_map (\<lambda>q. sm_put peer_id q ps)
         (calc_avg_peer pfr_ping_req ppm peer_id (sm_at sm_empty ps peer_id)))
       (sm_keys ps) ps"

definition calc_avg_dst :: "config \<Rightarrow> perf_cont \<Rightarrow> int \<Rightarrow> string \<Rightarrow> rdata \<Rightarrow> rdata res" where
  "calc_avg_dst c ppm probe_id dst_ip s =
     (let ps = peers_of (r s) dst_ip probe_id
      in res_map (\<lambda>ps'. s\<lparr>r := set_peers dst_ip probe_id ps' (r s),
                         avg_rtt_new_cnt := avg_rtt_new_cnt s + int (size ps)\<rparr>)
           (calc_avg_peers (c_pfr_ping_req c) ppm ps))"

definition pfr_calc_avg_rtt :: "config \<Rightarrow> perf_cont \<Rightarrow> int \<Rightarrow> rdata \<Rightarrow> rdata res" where
  "pfr_calc_avg_rtt c ppm probe_id s = fold_res (calc_avg_dst c ppm probe_id) (sm_keys (r s)) s"


section \<open>\<open>pfr_calc_stddev_rtt\<close>\<close>

text \<open>
  \<open>std::sort\<close> on a vector of doubles.  Without NaNs the order is total and the result is this one.
\<close>

fun d_insert :: "double \<Rightarrow> double list \<Rightarrow> double list" where
  "d_insert x [] = [x]"
| "d_insert x (y # ys) = (if dless y x then y # d_insert x ys else x # y # ys)"

definition d_sort :: "double list \<Rightarrow> double list" where
  "d_sort xs = foldr d_insert xs []"

text \<open>\<open>vector::at\<close> throws outside of the vector.\<close>

definition vec_at :: "'a list \<Rightarrow> nat \<Rightarrow> 'a res" where
  "vec_at xs i = (if i < length xs then Inr (xs ! i) else Inl (Uncaught ''std::out_of_range''))"

text \<open>The median as the code computes it from the sorted answers.\<close>

definition mediana :: "double list \<Rightarrow> double res" where
  "mediana smediana =
     (let m_size = length smediana in
      if m_size = 0 then Inr (Fin 0)
      else if m_size = 1 then vec_at smediana 0
      else (let m_rem = m_size mod 2; xnm = m_size div 2 in
            if m_rem \<noteq> 0 then vec_at smediana (xnm + 1)
            else res_bind (vec_at smediana (xnm - 1)) (\<lambda>a.
                 res_bind (vec_at smediana xnm) (\<lambda>b.
                 Inr (ddiv (dadd a b) (Fin 2))))))"

text \<open>
  \<open>dispersion += pow(curr_rtt - avg_rtt, 2.0)\<close> over the answers, in the order of their sequence
  numbers: the entry \<open>[99]\<close> is skipped.  \<open>pow(x, 2.0)\<close> is \<open>x * x\<close>.
\<close>

record dev_acc =
  v_dispersion :: double
  v_cnt :: int
  v_smediana :: "double list"

definition dev_sample :: "double \<Rightarrow> int \<times> tparm option \<Rightarrow> dev_acc \<Rightarrow> dev_acc res" where
  "dev_sample avg_rtt = (\<lambda>(seq_num, p) v.
     if seq_num \<noteq> 99 then
       (case p of
          None \<Rightarrow> Inl null_deref
        | Some tp \<Rightarrow>
            (let curr_rtt = tp_rtt tp; x = dsub curr_rtt avg_rtt
             in Inr \<lparr>v_dispersion = dadd (v_dispersion v) (dmul x x), v_cnt = v_cnt v + 1,
                      v_smediana = v_smediana v @ [curr_rtt]\<rparr>))
     else Inr v)"

text \<open>\<open>ceil(stddev * 100 / cnt_rtt) / 100.0\<close> of \<open>sqrt(dispersion / cnt_rtt)\<close>.\<close>

definition stddev_of :: "double \<Rightarrow> int \<Rightarrow> double" where
  "stddev_of dispersion cnt_rtt =
     (let stddev = dsqrt (ddiv dispersion (d_of_int cnt_rtt))
      in ddiv (dceil (ddiv (dmul stddev (Fin 100)) (d_of_int cnt_rtt))) (Fin 100))"

text \<open>\<open>[99]\<close> reads the entry (null if it is missing) before the loop.\<close>

definition calc_stddev_peer :: "seq_map \<Rightarrow> seq_map res" where
  "calc_stddev_peer seqs =
     (case sm_at None seqs 99 of
        None \<Rightarrow> Inl null_deref
      | Some tp99 \<Rightarrow>
          res_bind (fold_res (dev_sample (tp_avg_rtt tp99)) (entries seqs)
              \<lparr>v_dispersion = Fin 0, v_cnt = 0, v_smediana = []\<rparr>) (\<lambda>v.
          res_bind (mediana (d_sort (v_smediana v))) (\<lambda>med.
          Inr (sm_put 99 (Some (tp99\<lparr>tp_stddev_rtt := Some (stddev_of (v_dispersion v) (v_cnt v)),
                                      tp_mediana_rtt := Some med\<rparr>)) seqs))))"

definition calc_stddev_dst :: "int \<Rightarrow> string \<Rightarrow> rdata \<Rightarrow> rdata res" where
  "calc_stddev_dst probe_id dst_ip s =
     (let ps = peers_of (r s) dst_ip probe_id
      in res_map (\<lambda>ps'. s\<lparr>r := set_peers dst_ip probe_id ps' (r s)\<rparr>)
           (fold_res (\<lambda>peer_id ps. res_map (\<lambda>q. sm_put peer_id q ps)
               (calc_stddev_peer (sm_at sm_empty ps peer_id))) (sm_keys ps) ps))"

definition pfr_calc_stddev_rtt :: "int \<Rightarrow> rdata \<Rightarrow> rdata res" where
  "pfr_calc_stddev_rtt probe_id s = fold_res (calc_stddev_dst probe_id) (sm_keys (r s)) s"


section \<open>Facts: the loops over peers and destinations\<close>

text \<open>Both passes treat the peers of a destination one by one and keep their number.\<close>

definition peer_pass :: "(int \<Rightarrow> seq_map \<Rightarrow> seq_map res) \<Rightarrow> peer_map \<Rightarrow> peer_map res" where
  "peer_pass f ps = fold_res (\<lambda>peer_id ps. res_map (\<lambda>q. sm_put peer_id q ps)
     (f peer_id (sm_at sm_empty ps peer_id))) (sm_keys ps) ps"

lemma calc_avg_peers_pass: "calc_avg_peers req ppm = peer_pass (calc_avg_peer req ppm)"
  by (simp add: fun_eq_iff calc_avg_peers_def peer_pass_def)

lemma calc_stddev_dst_pass:
  "calc_stddev_dst probe_id dst_ip s =
     res_map (\<lambda>ps'. s\<lparr>r := set_peers dst_ip probe_id ps' (r s)\<rparr>)
       (peer_pass (\<lambda>_. calc_stddev_peer) (peers_of (r s) dst_ip probe_id))"
  by (simp add: calc_stddev_dst_def peer_pass_def Let_def)

lemma peer_pass_find:
  assumes "peer_pass f ps = Inr ps'"
  shows "sm_find ps k = None \<Longrightarrow> sm_find ps' k = None"
    and "sm_find ps k = Some seqs \<Longrightarrow> \<exists>q. f k seqs = Inr q \<and> sm_find ps' k = Some q"
proof -
  let ?g = "\<lambda>peer_id ps. res_map (\<lambda>q. sm_put peer_id q ps) (f peer_id (sm_at sm_empty ps peer_id))"
  let ?R = "\<lambda>k a b. \<exists>q. f k (case a of None \<Rightarrow> sm_empty | Some x \<Rightarrow> x) = Inr q \<and> b = Some q"
  have f: "fold_res ?g (sm_keys ps) ps = Inr ps'" using assms by (simp add: peer_pass_def)
  have "(k \<in> set (sm_keys ps) \<longrightarrow> ?R k (sm_find ps k) (sm_find ps' k))
      \<and> (k \<notin> set (sm_keys ps) \<longrightarrow> sm_find ps' k = sm_find ps k)"
    by (rule fold_res_local [OF f smap.distinct_keys]) (auto simp: res_map_Inr_iff sm_at_def)
  then show "sm_find ps k = None \<Longrightarrow> sm_find ps' k = None"
    and "sm_find ps k = Some seqs \<Longrightarrow> \<exists>q. f k seqs = Inr q \<and> sm_find ps' k = Some q"
    by (auto simp: sm_in_keys)
qed

lemma peer_pass_total:
  assumes "\<And>k seqs. sm_find ps k = Some seqs \<Longrightarrow> \<exists>q. f k seqs = Inr q"
  shows "\<exists>ps'. peer_pass f ps = Inr ps'"
proof -
  let ?g = "\<lambda>peer_id ps. res_map (\<lambda>q. sm_put peer_id q ps) (f peer_id (sm_at sm_empty ps peer_id))"
  have "\<exists>v. fold_res ?g ks u = Inr v"
    if "distinct ks" "\<forall>k \<in> set ks. \<exists>q. f k (sm_at sm_empty u k) = Inr q" for ks u
    using that
  proof (induction ks arbitrary: u)
    case (Cons k ks)
    obtain q where q: "f k (sm_at sm_empty u k) = Inr q" using Cons.prems(2) by auto
    have "\<exists>v. fold_res ?g ks (sm_put k q u) = Inr v"
      by (rule Cons.IH) (use Cons.prems in \<open>auto simp: sm_at_def\<close>)
    then show ?case by (simp add: q)
  qed simp
  moreover have "\<forall>k \<in> set (sm_keys ps). \<exists>q. f k (sm_at sm_empty ps k) = Inr q"
    using assms by (auto simp: sm_in_keys sm_at_def)
  ultimately show ?thesis using smap.distinct_keys [of ps] by (simp add: peer_pass_def)
qed

lemma peers_of_set_peers [simp]:
  "peers_of (set_peers d p ps m) d' p' = (if d' = d \<and> p' = p then ps else peers_of m d' p')"
  by (simp add: peers_of_def set_peers_def)

lemma known_set_peers: "sm_find (set_peers d p ps m) d' \<noteq> None \<longleftrightarrow> d' = d \<or> sm_find m d' \<noteq> None"
  by (simp add: set_peers_def)

text \<open>A pass changes the samples of its round only, destination by destination.\<close>

definition dst_pass :: "(peer_map \<Rightarrow> peer_map res) \<Rightarrow> (string \<Rightarrow> rdata \<Rightarrow> rdata res) \<Rightarrow> int \<Rightarrow> bool" where
  "dst_pass G f probe_id \<longleftrightarrow> (\<forall>d s. \<exists>h. f d s = res_map (\<lambda>ps'. h (s\<lparr>r := set_peers d probe_id ps' (r s)\<rparr>))
       (G (peers_of (r s) d probe_id))
     \<and> (\<forall>u. r (h u) = r u \<and> route (h u) = route u \<and> route_log1 (h u) = route_log1 u))"

lemma calc_avg_dst_pass:
  "dst_pass (peer_pass (calc_avg_peer (c_pfr_ping_req c) ppm)) (calc_avg_dst c ppm probe_id) probe_id"
  unfolding dst_pass_def
proof (intro allI)
  fix d s
  show "\<exists>h. calc_avg_dst c ppm probe_id d s = res_map (\<lambda>ps'. h (s\<lparr>r := set_peers d probe_id ps' (r s)\<rparr>))
       (peer_pass (calc_avg_peer (c_pfr_ping_req c) ppm) (peers_of (r s) d probe_id))
     \<and> (\<forall>u. r (h u) = r u \<and> route (h u) = route u \<and> route_log1 (h u) = route_log1 u)"
    by (rule exI [of _ "\<lambda>u. u\<lparr>avg_rtt_new_cnt :=
          avg_rtt_new_cnt s + int (size (peers_of (r s) d probe_id))\<rparr>"])
      (simp add: calc_avg_dst_def Let_def calc_avg_peers_pass)
qed

lemma calc_stddev_dst_pass':
  "dst_pass (peer_pass (\<lambda>_. calc_stddev_peer)) (calc_stddev_dst probe_id) probe_id"
  unfolding dst_pass_def by (intro allI exI [of _ "\<lambda>u. u"]) (simp add: calc_stddev_dst_pass)

lemma dst_passE:
  assumes "dst_pass G f probe_id" and "f d s = Inr s'"
  obtains ps' where "G (peers_of (r s) d probe_id) = Inr ps'"
    and "r s' = set_peers d probe_id ps' (r s)" and "route s' = route s" and "route_log1 s' = route_log1 s"
proof -
  obtain h where h: "f d s = res_map (\<lambda>ps'. h (s\<lparr>r := set_peers d probe_id ps' (r s)\<rparr>))
       (G (peers_of (r s) d probe_id))"
    "\<forall>u. r (h u) = r u \<and> route (h u) = route u \<and> route_log1 (h u) = route_log1 u"
    using assms(1) unfolding dst_pass_def by blast
  have "res_map (\<lambda>ps'. h (s\<lparr>r := set_peers d probe_id ps' (r s)\<rparr>))
      (G (peers_of (r s) d probe_id)) = Inr s'"
    using h(1) assms(2) by simp
  then obtain ps' where "G (peers_of (r s) d probe_id) = Inr ps'"
    and "s' = h (s\<lparr>r := set_peers d probe_id ps' (r s)\<rparr>)"
    unfolding res_map_Inr_iff by blast
  then show thesis using that h(2) by simp
qed

lemma dst_pass_local:
  assumes p: "dst_pass G f probe_id" and fold: "fold_res f (sm_keys (r s)) s = Inr s'"
  shows "sm_find (r s) d \<noteq> None \<Longrightarrow> G (peers_of (r s) d probe_id) = Inr (peers_of (r s') d probe_id)"
    and "route s' = route s" and "route_log1 s' = route_log1 s"
    and "sm_find (r s') d \<noteq> None \<longleftrightarrow> sm_find (r s) d \<noteq> None"
    and "probe_id' \<noteq> probe_id \<Longrightarrow> peers_of (r s') d probe_id' = peers_of (r s) d probe_id'"
proof -
  have "(d \<in> set (sm_keys (r s)) \<longrightarrow> G (peers_of (r s) d probe_id) = Inr (peers_of (r s') d probe_id))
      \<and> (d \<notin> set (sm_keys (r s)) \<longrightarrow> peers_of (r s') d probe_id = peers_of (r s) d probe_id)"
    by (rule fold_res_local [OF fold smap.distinct_keys]) (auto elim!: dst_passE [OF p])
  then show "sm_find (r s) d \<noteq> None \<Longrightarrow> G (peers_of (r s) d probe_id) = Inr (peers_of (r s') d probe_id)"
    by (simp add: sm_in_keys)
  let ?P = "\<lambda>u. route u = route s \<and> route_log1 u = route_log1 s
    \<and> (\<forall>d. sm_find (r u) d \<noteq> None \<longleftrightarrow> sm_find (r s) d \<noteq> None)
    \<and> (\<forall>d q. q \<noteq> probe_id \<longrightarrow> peers_of (r u) d q = peers_of (r s) d q)"
  have "?P s'"
  proof (rule fold_res_invariant [OF fold])
    fix d u v assume "d \<in> set (sm_keys (r s))" "?P u" "f d u = Inr v"
    note a = this
    obtain ps' where v: "r v = set_peers d probe_id ps' (r u)" "route v = route u" "route_log1 v = route_log1 u"
      using dst_passE [OF p a(3)] .
    have "sm_find (r u) d \<noteq> None" using a(1,2) by (simp add: sm_in_keys)
    then have "sm_find (r v) d' \<noteq> None \<longleftrightarrow> sm_find (r u) d' \<noteq> None" for d'
      unfolding v(1) known_set_peers by blast
    then show "?P v" using a(2) v by simp
  qed simp
  then show "route s' = route s" "route_log1 s' = route_log1 s"
    "sm_find (r s') d \<noteq> None \<longleftrightarrow> sm_find (r s) d \<noteq> None"
    "probe_id' \<noteq> probe_id \<Longrightarrow> peers_of (r s') d probe_id' = peers_of (r s) d probe_id'"
    by auto
qed

lemma dst_pass_total:
  assumes p: "dst_pass G f probe_id"
    and "\<And>d. sm_find (r s) d \<noteq> None \<Longrightarrow> \<exists>ps'. G (peers_of (r s) d probe_id) = Inr ps'"
  shows "\<exists>s'. fold_res f (sm_keys (r s)) s = Inr s'"
proof -
  have "\<exists>v. fold_res f ds u = Inr v"
    if "distinct ds" "\<forall>d \<in> set ds. \<exists>ps'. G (peers_of (r u) d probe_id) = Inr ps'" for ds u
    using that
  proof (induction ds arbitrary: u)
    case (Cons d ds)
    obtain h where h: "f d u = res_map (\<lambda>ps'. h (u\<lparr>r := set_peers d probe_id ps' (r u)\<rparr>))
         (G (peers_of (r u) d probe_id))" "\<And>v. r (h v) = r v"
      using p unfolding dst_pass_def by blast
    obtain ps' where ps': "G (peers_of (r u) d probe_id) = Inr ps'" using Cons.prems(2) by auto
    have "\<exists>v. fold_res f ds (h (u\<lparr>r := set_peers d probe_id ps' (r u)\<rparr>)) = Inr v"
      by (rule Cons.IH) (use Cons.prems in \<open>auto simp: h(2)\<close>)
    then show ?case by (simp add: h(1) ps')
  qed simp
  then show ?thesis using assms(2) smap.distinct_keys [of "r s"] by (simp add: sm_in_keys)
qed


section \<open>Facts: the summary of a peer\<close>

text \<open>The answers of a peer, in the order of their sequence numbers.\<close>

definition rtts :: "(int \<times> tparm option) list \<Rightarrow> double list" where
  "rtts es = map (\<lambda>(seq, p). tp_rtt (the p)) es"

definition answered :: "seq_map \<Rightarrow> bool" where
  "answered seqs \<longleftrightarrow> (\<forall>(seq, p) \<in> set (entries seqs). p \<noteq> None)"

definition least_of :: "double \<Rightarrow> double set \<Rightarrow> bool" where
  "least_of m xs \<longleftrightarrow> m \<in> xs \<and> (\<forall>x \<in> xs. \<not> dless x m)"

definition greatest_of :: "double \<Rightarrow> double set \<Rightarrow> bool" where
  "greatest_of m xs \<longleftrightarrow> m \<in> xs \<and> (\<forall>x \<in> xs. \<not> dless m x)"

text \<open>What \<open>pfr_calc_avg_rtt\<close> should have found out about the answers \<open>xs\<close> to \<open>req\<close> probes.\<close>

definition sums_up :: "int \<Rightarrow> double list \<Rightarrow> tparm \<Rightarrow> bool" where
  "sums_up req xs tp \<longleftrightarrow>
     tp_lost tp = req - int (length xs)
     \<and> tp_avg_rtt tp = ceil_avg (fold (\<lambda>x a. dadd a x) xs (Fin 0)) (int (length xs))
     \<and> tp_metric0 tp = Some (tp_avg_rtt tp)
     \<and> (\<exists>m. tp_min_rtt tp = Some m \<and> least_of m (insert (Fin 50000) (set xs))
          \<and> tp_metric1 tp = Some (dadd m (dmul m (d_of_int (tp_lost tp)))))
     \<and> (\<exists>m. tp_max_rtt tp = Some m \<and> greatest_of m (insert (Fin 0) (set xs)))"

lemma least_of_insert:
  assumes "least_of m xs" and "x \<noteq> NaN" and "NaN \<notin> xs"
  shows "least_of (if dless x m then x else m) (insert x xs)"
  using assms not_dless_trans [of m _ x] dless_asym [of x m] by (auto simp: least_of_def) (metis dless_trans)

lemma greatest_of_insert:
  assumes "greatest_of m xs" and "x \<noteq> NaN" and "NaN \<notin> xs"
  shows "greatest_of (if dless m x then x else m) (insert x xs)"
  using assms dless_asym [of m x] by (auto simp: greatest_of_def) (metis dless_trans)

lemma acc_sample_Some:
  "acc_sample (Some tp) a = Inr \<lparr>a_curr_rtt = dadd (a_curr_rtt a) (tp_rtt tp), a_ts = tp_timestamp tp,
     a_m_rtt = (if dless (tp_rtt tp) (a_m_rtt a) then tp_rtt tp else a_m_rtt a),
     a_max_rtt = (if dless (a_max_rtt a) (tp_rtt tp) then tp_rtt tp else a_max_rtt a),
     a_cnt = a_cnt a + 1\<rparr>"
  by (simp add: acc_sample_def)

lemma acc_samples:
  assumes "\<forall>(seq, p) \<in> set es. p \<noteq> None" and "NaN \<notin> set (rtts es)"
  shows "\<exists>a. fold_res acc_sample (map snd es) rtt_acc0 = Inr a \<and> a_cnt a = int (length es)
    \<and> a_curr_rtt a = fold (\<lambda>x a. dadd a x) (rtts es) (Fin 0)
    \<and> least_of (a_m_rtt a) (insert (Fin 50000) (set (rtts es)))
    \<and> greatest_of (a_max_rtt a) (insert (Fin 0) (set (rtts es)))"
  using assms
proof (induction es rule: rev_induct)
  case Nil
  then show ?case by (simp add: rtt_acc0_def rtts_def least_of_def greatest_of_def)
next
  case (snoc e es)
  obtain seq tp where e: "e = (seq, Some tp)" using snoc.prems(1) by (cases e) auto
  have r: "rtts (es @ [e]) = rtts es @ [tp_rtt tp]" by (simp add: rtts_def e)
  obtain a where a: "fold_res acc_sample (map snd es) rtt_acc0 = Inr a" "a_cnt a = int (length es)"
    "a_curr_rtt a = fold (\<lambda>x a. dadd a x) (rtts es) (Fin 0)"
    "least_of (a_m_rtt a) (insert (Fin 50000) (set (rtts es)))"
    "greatest_of (a_max_rtt a) (insert (Fin 0) (set (rtts es)))"
    using snoc by (auto simp: r)
  let ?x = "tp_rtt tp"
  have x: "?x \<noteq> NaN" "NaN \<notin> insert (Fin 50000) (set (rtts es))" "NaN \<notin> insert (Fin 0) (set (rtts es))"
    using snoc.prems(2) by (auto simp: r)
  have "least_of (if dless ?x (a_m_rtt a) then ?x else a_m_rtt a)
      (insert (Fin 50000) (set (rtts (es @ [e]))))"
    using least_of_insert [OF a(4) x(1,2)] by (simp add: r insert_commute)
  moreover have "greatest_of (if dless (a_max_rtt a) ?x then ?x else a_max_rtt a)
      (insert (Fin 0) (set (rtts (es @ [e]))))"
    using greatest_of_insert [OF a(5) x(1,3)] by (simp add: r insert_commute)
  moreover have "fold (\<lambda>x a. dadd a x) (rtts (es @ [e])) (Fin 0) = dadd (a_curr_rtt a) ?x"
    by (simp add: r a(3))
  moreover have "fold_res acc_sample (map snd (es @ [e])) rtt_acc0 = acc_sample (Some tp) a"
    by (simp add: fold_res_append e a(1) acc_sample_Some)
  ultimately show ?case using a(2) by (simp add: acc_sample_Some)
qed

lemma calc_avg_peer_sums:
  assumes "answered seqs" and "NaN \<notin> set (rtts (entries seqs))" and "perf_get peer_id ppm = Inr tf"
  shows "\<exists>tp. calc_avg_peer req ppm peer_id seqs = Inr (sm_put 99 (Some tp) seqs)
    \<and> sums_up req (rtts (entries seqs)) tp"
proof -
  have "length (rtts (entries seqs)) = length (entries seqs)" by (simp add: rtts_def)
  then show ?thesis
    using acc_samples [of "entries seqs"] assms
    by (auto simp: answered_def calc_avg_peer_def sums_up_def summary_def tparm_new_def Let_def)
qed

lemma ceil_avg_between:
  assumes "between (n * l) (n * u) s" and "0 < n" and "0 \<le> l" and "100 * (n * u) \<le> 2 ^ 53" and "n \<le> 2 ^ 53"
  shows "between l u (ceil_avg s n)"
proof -
  obtain q where q: "s = Fin q" "of_int (n * l) \<le> q" "q \<le> of_int (n * u)" using assms(1) by (auto simp: between_def)
  then have nlu: "n * l \<le> n * u" by (metis order_trans of_int_le_iff)
  then have lu: "0 \<le> l" "l \<le> u" "0 \<le> n * l" using assms(2,3) by simp_all
  have "1 * u \<le> n * u" using assms(2) lu by (intro mult_right_mono) simp_all
  then have u: "100 * u \<le> 2 ^ 53" using assms(4) by linarith
  have pos: "(0::rat) < of_int n" using assms(2) by simp
  obtain p where p: "dmul s (Fin 100) = Fin p" "of_int (100 * (n * l)) \<le> p" "p \<le> of_int (100 * (n * u))"
  proof (rule dround_between [of "100 * (n * l)" "q * 100" "100 * (n * u)"])
    show "\<bar>100 * (n * l)\<bar> \<le> 2 ^ 53" "\<bar>100 * (n * u)\<bar> \<le> 2 ^ 53" using assms(4) lu nlu by linarith+
  qed (use q in simp_all)
  obtain w where w: "dround (p / of_int n) = Fin w" "of_int (100 * l) \<le> w" "w \<le> of_int (100 * u)"
  proof (rule dround_between [of "100 * l" "p / of_int n" "100 * u"])
    show "of_int (100 * l) \<le> p / of_int n" "p / of_int n \<le> of_int (100 * u)"
      using p(2,3) pos by (simp_all add: pos_le_divide_eq pos_divide_le_eq algebra_simps)
  qed (use u lu in auto)
  have c: "100 * l \<le> \<lceil>w\<rceil>" "\<lceil>w\<rceil> \<le> 100 * u"
    using w(2,3) by (simp_all only: le_ceiling_iff ceiling_le_iff)
  obtain z where z: "dround (of_int \<lceil>w\<rceil> / 100) = Fin z" "of_int l \<le> z" "z \<le> of_int u"
  proof (rule dround_between [of l "of_int \<lceil>w\<rceil> / 100" u])
    have "(of_int (100 * l) :: rat) \<le> of_int \<lceil>w\<rceil>" "(of_int \<lceil>w\<rceil> :: rat) \<le> of_int (100 * u)"
      using c by (simp_all only: of_int_le_iff)
    then show "of_int l \<le> (of_int \<lceil>w\<rceil> / 100 :: rat)" "(of_int \<lceil>w\<rceil> / 100 :: rat) \<le> of_int u" by simp_all
  qed (use u lu in auto)
  have "ceil_avg s n = Fin z"
    using pos assms(2,5) by (simp add: ceil_avg_def p(1) d_of_int_exact w(1) z(1))
  then show ?thesis using z(2,3) by (simp add: between_def)
qed

lemma average_between:
  assumes "\<forall>x \<in> set xs. between l u x" and "0 \<le> l" and "xs \<noteq> []"
    and "100 * (int (length xs) * u) \<le> 2 ^ 53" and "int (length xs) \<le> 2 ^ 53"
  shows "between l u (ceil_avg (fold (\<lambda>x a. dadd a x) xs (Fin 0)) (int (length xs)))"
proof (rule ceil_avg_between)
  have "between (int 0 * l) (int 0 * u) (Fin 0)" by (simp add: between_def)
  moreover have "(int 0 + int (length xs)) * u \<le> 2 ^ 53"
  proof -
    have "y \<le> 2 ^ 53" if "100 * y \<le> 2 ^ 53" for y :: int using that by simp
    from this [OF assms(4)] show ?thesis by simp
  qed
  ultimately show "between (int (length xs) * l) (int (length xs) * u) (fold (\<lambda>x a. dadd a x) xs (Fin 0))"
    using fold_dadd_between [OF assms(1,2), of 0 "Fin 0"] by simp
qed (use assms in simp_all)

lemma entries_Nil_iff: "entries m = [] \<longleftrightarrow> m = sm_empty"
  by (metis entries_empty entries_inject)

lemma sums_up_between:
  assumes "sums_up req xs tp" and "\<forall>x \<in> set xs. between l u x" and "0 \<le> l" and "xs \<noteq> []"
    and "100 * (int (length xs) * u) \<le> 2 ^ 53" and "int (length xs) \<le> 2 ^ 53"
  shows "between l u (tp_avg_rtt tp)"
  using average_between [OF assms(2-6)] assms(1) by (simp add: sums_up_def)

text \<open>
  C7. The average is one: it lies between any two integers (below \<open>2 ^ 53 / 100\<close> per answer) that bound the
  answers, so that neither the rounding of the sum, the product and the quotients nor the rounding up
  to hundredths leaves the range of what was measured; it is the metric 0, and every unanswered probe
  counts as lost.
\<close>

theorem average_bounds:
  assumes "answered seqs" and "seqs \<noteq> sm_empty" and "perf_get peer_id ppm = Inr tf" and "0 \<le> l"
    and "\<forall>x \<in> set (rtts (entries seqs)). between l u x"
    and "int (length (entries seqs)) \<le> 2 ^ 53" and "100 * (int (length (entries seqs)) * u) \<le> 2 ^ 53"
  shows "\<exists>tp. calc_avg_peer req ppm peer_id seqs = Inr (sm_put 99 (Some tp) seqs)
    \<and> between l u (tp_avg_rtt tp) \<and> tp_metric0 tp = Some (tp_avg_rtt tp)
    \<and> tp_lost tp = req - int (length (entries seqs))"
proof -
  have "NaN \<notin> set (rtts (entries seqs))" using assms(5) by (auto simp: between_def)
  then obtain tp where tp: "calc_avg_peer req ppm peer_id seqs = Inr (sm_put 99 (Some tp) seqs)"
    "sums_up req (rtts (entries seqs)) tp"
    using calc_avg_peer_sums [OF assms(1) _ assms(3)] by blast
  have len: "length (rtts (entries seqs)) = length (entries seqs)" by (simp add: rtts_def)
  then have "rtts (entries seqs) \<noteq> []" using assms(2) by (metis entries_Nil_iff length_0_conv)
  then have "between l u (tp_avg_rtt tp)" using sums_up_between [OF tp(2) assms(5,4)] assms(6,7) by (simp add: len)
  then show ?thesis using tp by (auto simp: sums_up_def len)
qed

theorem average_bounds_witness:
  "let seqs = sm_put 0 (Some (tparm_new (Fin 10) (Fin 0) 0 7)) (sm_put 1 (Some (tparm_new (Fin 12) (Fin 0) 0 7)) sm_empty)
   in \<exists>tp. calc_avg_peer 5 sm_empty 1 seqs = Inr (sm_put 99 (Some tp) seqs)
     \<and> between 10 12 (tp_avg_rtt tp) \<and> tp_metric0 tp = Some (tp_avg_rtt tp) \<and> tp_lost tp = 5 - 2"
proof -
  let ?seqs = "sm_put 0 (Some (tparm_new (Fin 10) (Fin 0) 0 7))
    (sm_put 1 (Some (tparm_new (Fin 12) (Fin 0) 0 7)) sm_empty) :: seq_map"
  have e: "entries ?seqs = [(0, Some (tparm_new (Fin 10) (Fin 0) 0 7)), (1, Some (tparm_new (Fin 12) (Fin 0) 0 7))]"
    by (simp add: sm_put.rep_eq)
  have rtt: "tp_rtt (tparm_new x y n t) = x" for x y n t by (simp add: tparm_new_def)
  have "\<exists>tp. calc_avg_peer 5 sm_empty 1 ?seqs = Inr (sm_put 99 (Some tp) ?seqs)
     \<and> between 10 12 (tp_avg_rtt tp) \<and> tp_metric0 tp = Some (tp_avg_rtt tp)
     \<and> tp_lost tp = 5 - int (length (entries ?seqs))"
  proof (rule average_bounds)
    show "perf_get 1 sm_empty = Inr None" by (simp add: perf_get_def)
    show "answered ?seqs" by (simp add: answered_def e)
    show "?seqs \<noteq> sm_empty" using e by (auto simp: entries_empty)
  qed (simp_all add: e between_def rtts_def rtt)
  then show ?thesis by (simp add: e)
qed

text \<open>
  The pass returns for a round whose entries are answers (no null pointers, no NaNs) and whose peers
  have telemetry.
\<close>

lemma calc_avg_rtt_sums:
  assumes "\<forall>d peer_id seqs. sm_find (r s) d \<noteq> None \<and> sm_find (peers_of (r s) d probe_id) peer_id = Some seqs
    \<longrightarrow> answered seqs \<and> NaN \<notin> set (rtts (entries seqs)) \<and> (\<exists>tf. perf_get peer_id ppm = Inr tf)"
  shows "\<exists>s'. pfr_calc_avg_rtt c ppm probe_id s = Inr s'
    \<and> route s' = route s \<and> route_log1 s' = route_log1 s
    \<and> (\<forall>d. sm_find (r s') d \<noteq> None \<longleftrightarrow> sm_find (r s) d \<noteq> None)
    \<and> (\<forall>d peer_id. sm_find (r s) d \<noteq> None \<and> sm_find (peers_of (r s) d probe_id) peer_id = None
        \<longrightarrow> sm_find (peers_of (r s') d probe_id) peer_id = None)
    \<and> (\<forall>d q. q \<noteq> probe_id \<longrightarrow> peers_of (r s') d q = peers_of (r s) d q)
    \<and> (\<forall>d peer_id seqs. sm_find (r s) d \<noteq> None
        \<and> sm_find (peers_of (r s) d probe_id) peer_id = Some seqs
        \<longrightarrow> (\<exists>tp. sm_find (peers_of (r s') d probe_id) peer_id = Some (sm_put 99 (Some tp) seqs)
              \<and> sums_up (c_pfr_ping_req c) (rtts (entries seqs)) tp))"
proof -
  let ?f = "calc_avg_peer (c_pfr_ping_req c) ppm"
  have peer: "\<exists>tp. ?f k seqs = Inr (sm_put 99 (Some tp) seqs)
      \<and> sums_up (c_pfr_ping_req c) (rtts (entries seqs)) tp"
    if known: "sm_find (r s) d \<noteq> None" "sm_find (peers_of (r s) d probe_id) k = Some seqs" for d k seqs
  proof -
    obtain tf where "answered seqs" "NaN \<notin> set (rtts (entries seqs))" "perf_get k ppm = Inr tf"
      using assms known by blast
    then show ?thesis by (rule calc_avg_peer_sums)
  qed
  have "\<exists>ps'. peer_pass ?f (peers_of (r s) d probe_id) = Inr ps'" if "sm_find (r s) d \<noteq> None" for d
    by (rule peer_pass_total) (use peer [OF that] in blast)
  then obtain s' where s': "fold_res (calc_avg_dst c ppm probe_id) (sm_keys (r s)) s = Inr s'"
    using dst_pass_total [OF calc_avg_dst_pass] by blast
  note pass = dst_pass_local [OF calc_avg_dst_pass s']
  have "\<exists>tp. sm_find (peers_of (r s') d probe_id) k = Some (sm_put 99 (Some tp) seqs)
      \<and> sums_up (c_pfr_ping_req c) (rtts (entries seqs)) tp"
    if "sm_find (r s) d \<noteq> None" "sm_find (peers_of (r s) d probe_id) k = Some seqs" for d k seqs
    using peer [OF that] peer_pass_find(2) [OF pass(1) [OF that(1)] that(2)] by auto
  then show ?thesis
    using s' pass(2-5) peer_pass_find(1) [OF pass(1)] by (auto simp: pfr_calc_avg_rtt_def)
qed


section \<open>Facts: the median\<close>

definition d_sorted :: "double list \<Rightarrow> bool" where
  "d_sorted = sorted_wrt (\<lambda>x y. \<not> dless y x)"

lemma set_d_insert [simp]: "set (d_insert x xs) = insert x (set xs)"
  by (induction xs) auto

lemma mset_d_insert [simp]: "mset (d_insert x xs) = add_mset x (mset xs)"
  by (induction xs) auto

lemma d_sorted_insert: "d_sorted xs \<Longrightarrow> NaN \<notin> insert x (set xs) \<Longrightarrow> d_sorted (d_insert x xs)"
proof (induction xs)
  case (Cons y ys)
  then show ?case
    using not_dless_trans [of y x] by (auto simp: d_sorted_def dest: dless_asym)
qed (simp add: d_sorted_def)

lemma d_sort_sorts:
  "mset (d_sort xs) = mset xs" "set (d_sort xs) = set xs"
  "NaN \<notin> set xs \<Longrightarrow> d_sorted (d_sort xs)"
proof -
  show "mset (d_sort xs) = mset xs" by (induction xs) (simp_all add: d_sort_def)
  then show "set (d_sort xs) = set xs" by (metis set_mset_mset)
  show "NaN \<notin> set xs \<Longrightarrow> d_sorted (d_sort xs)"
  proof (induction xs)
    case (Cons x xs)
    have "set (foldr d_insert xs []) = set xs" by (induction xs) auto
    then show ?case using Cons by (simp add: d_sort_def d_sorted_insert)
  qed (simp add: d_sort_def d_sorted_def)
qed

text \<open>
  The median of the answers: with an even number of them the mean of the two middle ones; but
  with an odd number from 3 on the code takes the element after the middle one.
\<close>

lemma mediana_of_sorted:
  assumes "NaN \<notin> set xs" and "2 \<le> length xs"
  shows "\<exists>ys. mset ys = mset xs \<and> d_sorted ys
    \<and> mediana (d_sort xs) = Inr (if even (length xs)
        then ddiv (dadd (ys ! (length xs div 2 - 1)) (ys ! (length xs div 2))) (Fin 2)
        else ys ! (length xs div 2 + 1))"
proof -
  have len: "length (d_sort xs) = length xs" using d_sort_sorts(1) [of xs] by (metis size_mset)
  have "odd (length xs) \<longrightarrow> length xs div 2 + 1 < length xs" using assms(2) by presburger
  moreover have "length xs div 2 < length xs" "length xs div 2 - 1 < length xs" using assms(2) by auto
  ultimately have "mediana (d_sort xs) = Inr (if even (length xs)
      then ddiv (dadd (d_sort xs ! (length xs div 2 - 1)) (d_sort xs ! (length xs div 2))) (Fin 2)
      else d_sort xs ! (length xs div 2 + 1))"
    using assms(2) by (auto simp: mediana_def len vec_at_def Let_def even_iff_mod_2_eq_zero)
  then show ?thesis using d_sort_sorts(1,3) [of xs] assms(1) by blast
qed

text \<open>The second pass, over the answers \<open>xs\<close> of a peer with the entry 99 \<open>tp\<close>.\<close>

definition dispersion :: "double \<Rightarrow> double list \<Rightarrow> double" where
  "dispersion avg_rtt xs =
     fold (\<lambda>x a. dadd a (dmul (dsub x avg_rtt) (dsub x avg_rtt))) xs (Fin 0)"

definition deviates :: "double list \<Rightarrow> tparm \<Rightarrow> tparm \<Rightarrow> bool" where
  "deviates xs tp tp' \<longleftrightarrow> (\<exists>med. mediana (d_sort xs) = Inr med
     \<and> tp' = tp\<lparr>tp_stddev_rtt := Some (stddev_of (dispersion (tp_avg_rtt tp) xs) (int (length xs))),
               tp_mediana_rtt := Some med\<rparr>)"

definition answers :: "seq_map \<Rightarrow> (int \<times> tparm option) list" where
  "answers seqs = filter (\<lambda>(seq, p). seq \<noteq> 99) (entries seqs)"

lemma dev_samples:
  assumes "\<forall>(seq, p) \<in> set es. p \<noteq> None"
  shows "fold_res (dev_sample avg) es \<lparr>v_dispersion = d, v_cnt = n, v_smediana = xs\<rparr>
    = Inr (let ys = rtts (filter (\<lambda>(seq, p). seq \<noteq> 99) es) in
        \<lparr>v_dispersion = fold (\<lambda>x a. dadd a (dmul (dsub x avg) (dsub x avg))) ys d,
         v_cnt = n + int (length ys), v_smediana = xs @ ys\<rparr>)"
  using assms
proof (induction es arbitrary: d n xs)
  case (Cons e es)
  obtain seq tp where "e = (seq, Some tp)" using Cons.prems by (cases e) auto
  then show ?case using Cons by (auto simp: dev_sample_def rtts_def Let_def)
qed (simp add: rtts_def)

lemma mediana_total: "\<exists>m. mediana xs = Inr m"
proof -
  have "odd (length xs) \<Longrightarrow> length xs \<noteq> 1 \<Longrightarrow> length xs div 2 + 1 < length xs" by presburger
  then show ?thesis by (auto simp: mediana_def vec_at_def Let_def odd_iff_mod_2_eq_one)
qed

lemma calc_stddev_peer_deviates:
  assumes "answered seqs" and "sm_find seqs 99 = Some (Some tp)"
  shows "\<exists>tp'. calc_stddev_peer seqs = Inr (sm_put 99 (Some tp') seqs)
    \<and> deviates (rtts (answers seqs)) tp tp'"
proof -
  obtain med where med: "mediana (d_sort (rtts (answers seqs))) = Inr med" using mediana_total by blast
  have "fold_res (dev_sample (tp_avg_rtt tp)) (entries seqs) \<lparr>v_dispersion = Fin 0, v_cnt = 0, v_smediana = []\<rparr>
    = Inr \<lparr>v_dispersion = dispersion (tp_avg_rtt tp) (rtts (answers seqs)),
        v_cnt = int (length (rtts (answers seqs))), v_smediana = rtts (answers seqs)\<rparr>"
    using dev_samples [of "entries seqs"] assms(1)
    by (simp add: answered_def dispersion_def answers_def Let_def)
  then show ?thesis
    using assms(2) med by (auto simp: calc_stddev_peer_def sm_find_Some_at deviates_def)
qed

lemma calc_stddev_rtt_deviates:
  assumes "\<forall>d peer_id seqs. sm_find (r s) d \<noteq> None \<and> sm_find (peers_of (r s) d probe_id) peer_id = Some seqs
    \<longrightarrow> answered seqs \<and> (\<exists>tp. sm_find seqs 99 = Some (Some tp))"
  shows "\<exists>s'. pfr_calc_stddev_rtt probe_id s = Inr s'
    \<and> route s' = route s \<and> route_log1 s' = route_log1 s
    \<and> (\<forall>d. sm_find (r s') d \<noteq> None \<longleftrightarrow> sm_find (r s) d \<noteq> None)
    \<and> (\<forall>d peer_id. sm_find (r s) d \<noteq> None \<and> sm_find (peers_of (r s) d probe_id) peer_id = None
        \<longrightarrow> sm_find (peers_of (r s') d probe_id) peer_id = None)
    \<and> (\<forall>d q. q \<noteq> probe_id \<longrightarrow> peers_of (r s') d q = peers_of (r s) d q)
    \<and> (\<forall>d peer_id seqs tp. sm_find (r s) d \<noteq> None
        \<and> sm_find (peers_of (r s) d probe_id) peer_id = Some seqs \<and> sm_find seqs 99 = Some (Some tp)
        \<longrightarrow> (\<exists>tp'. sm_find (peers_of (r s') d probe_id) peer_id = Some (sm_put 99 (Some tp') seqs)
              \<and> deviates (rtts (answers seqs)) tp tp'))"
proof -
  have peer: "\<exists>tp'. calc_stddev_peer seqs = Inr (sm_put 99 (Some tp') seqs)
      \<and> deviates (rtts (answers seqs)) tp tp'"
    if known: "sm_find (r s) d \<noteq> None" "sm_find (peers_of (r s) d probe_id) k = Some seqs"
      "sm_find seqs 99 = Some (Some tp)" for d k seqs tp
    using calc_stddev_peer_deviates known assms by blast
  have "\<exists>ps'. peer_pass (\<lambda>_. calc_stddev_peer) (peers_of (r s) d probe_id) = Inr ps'"
    if "sm_find (r s) d \<noteq> None" for d
    by (rule peer_pass_total) (use peer [OF that] assms that in blast)
  then obtain s' where s': "fold_res (calc_stddev_dst probe_id) (sm_keys (r s)) s = Inr s'"
    using dst_pass_total [OF calc_stddev_dst_pass'] by blast
  note pass = dst_pass_local [OF calc_stddev_dst_pass' s']
  have "\<exists>tp'. sm_find (peers_of (r s') d probe_id) k = Some (sm_put 99 (Some tp') seqs)
      \<and> deviates (rtts (answers seqs)) tp tp'"
    if known: "sm_find (r s) d \<noteq> None" "sm_find (peers_of (r s) d probe_id) k = Some seqs"
      "sm_find seqs 99 = Some (Some tp)" for d k seqs tp
    using peer [OF known] peer_pass_find(2) [OF pass(1) [OF known(1)] known(2)] by auto
  then show ?thesis
    using s' pass(2-5) peer_pass_find(1) [OF pass(1)] by (auto simp: pfr_calc_stddev_rtt_def)
qed

lemma answers_erase: "answers seqs = entries (sm_erase 99 seqs)"
  by (simp add: answers_def sm_erase.rep_eq case_prod_unfold)

lemma answers_put:
  assumes "sm_find seqs 99 = None"
  shows "answers (sm_put 99 v seqs) = entries seqs"
  using assms by (simp add: answers_erase sm_laws)

lemma answered_iff: "answered seqs \<longleftrightarrow> (\<forall>k. sm_find seqs k \<noteq> Some None)"
proof -
  have "answered seqs \<longleftrightarrow> (\<forall>k p. (k, p) \<in> set (entries seqs) \<longrightarrow> p \<noteq> None)" by (auto simp: answered_def)
  also have "\<dots> \<longleftrightarrow> (\<forall>k. sm_find seqs k \<noteq> Some None)" unfolding entries_iff_find by metis
  finally show ?thesis .
qed

lemma answered_put: "answered seqs \<Longrightarrow> answered (sm_put 99 (Some tp) seqs)"
  by (simp add: answered_iff)

lemma peers_of_empty [simp]: "peers_of sm_empty d p = sm_empty"
  by (simp add: peers_of_def)

text \<open>A round as \<open>readloop\<close> leaves it: answers under sequence numbers other than 99.\<close>

definition round_answered :: "perf_cont \<Rightarrow> int \<Rightarrow> rdata \<Rightarrow> bool" where
  "round_answered ppm probe_id s \<longleftrightarrow> (\<forall>d peer_id seqs.
     sm_find (r s) d \<noteq> None \<and> sm_find (peers_of (r s) d probe_id) peer_id = Some seqs
     \<longrightarrow> answered seqs \<and> NaN \<notin> set (rtts (entries seqs)) \<and> sm_find seqs 99 = None
       \<and> (\<exists>tf. perf_get peer_id ppm = Inr tf))"

text \<open>What both passes make of it.\<close>

definition measured_round :: "int \<Rightarrow> int \<Rightarrow> rdata \<Rightarrow> rdata \<Rightarrow> bool" where
  "measured_round req probe_id s s' \<longleftrightarrow>
     route s' = route s \<and> route_log1 s' = route_log1 s
     \<and> (\<forall>d. sm_find (r s') d \<noteq> None \<longleftrightarrow> sm_find (r s) d \<noteq> None)
     \<and> (\<forall>d peer_id. sm_find (r s) d \<noteq> None \<longrightarrow>
          (case sm_find (peers_of (r s) d probe_id) peer_id of
             None \<Rightarrow> sm_find (peers_of (r s') d probe_id) peer_id = None
           | Some seqs \<Rightarrow> (\<exists>tp tp'. sums_up req (rtts (entries seqs)) tp \<and> deviates (rtts (entries seqs)) tp tp'
               \<and> sm_find (peers_of (r s') d probe_id) peer_id = Some (sm_put 99 (Some tp') seqs))))
     \<and> (\<forall>d q. q \<noteq> probe_id \<longrightarrow> peers_of (r s') d q = peers_of (r s) d q)"

lemma round_answeredD:
  assumes "round_answered ppm probe_id s" and "sm_find (r s) d \<noteq> None"
    and "sm_find (peers_of (r s) d probe_id) k = Some seqs"
  shows "answered seqs" and "NaN \<notin> set (rtts (entries seqs))" and "sm_find seqs 99 = None"
    and "\<exists>tf. perf_get k ppm = Inr tf"
  using assms unfolding round_answered_def by blast+

text \<open>What the first pass leaves to the second: every peer has answers and a summary.\<close>

lemma averaged_ready:
  assumes "round_answered ppm probe_id s"
    and known: "\<forall>d. sm_find (r s1) d \<noteq> None \<longleftrightarrow> sm_find (r s) d \<noteq> None"
    and none: "\<forall>d k. sm_find (r s) d \<noteq> None \<and> sm_find (peers_of (r s) d probe_id) k = None
      \<longrightarrow> sm_find (peers_of (r s1) d probe_id) k = None"
    and sums: "\<forall>d k seqs. sm_find (r s) d \<noteq> None \<and> sm_find (peers_of (r s) d probe_id) k = Some seqs
      \<longrightarrow> (\<exists>tp. sm_find (peers_of (r s1) d probe_id) k = Some (sm_put 99 (Some tp) seqs)
        \<and> sums_up req (rtts (entries seqs)) tp)"
    and here: "sm_find (r s1) d \<noteq> None" "sm_find (peers_of (r s1) d probe_id) k = Some seqs"
  shows "answered seqs \<and> (\<exists>tp. sm_find seqs 99 = Some (Some tp))"
proof -
  have d: "sm_find (r s) d \<noteq> None" using known here(1) by blast
  then obtain seqs0 where seqs0: "sm_find (peers_of (r s) d probe_id) k = Some seqs0"
    using none here(2) by fastforce
  then obtain tp where "seqs = sm_put 99 (Some tp) seqs0" using sums d here(2) by fastforce
  then show ?thesis using round_answeredD(1) [OF assms(1) d seqs0] answered_put by simp
qed

lemma measure_passes:
  assumes ra: "round_answered ppm probe_id s"
  shows "\<exists>s1 s2. pfr_calc_avg_rtt c ppm probe_id s = Inr s1 \<and> pfr_calc_stddev_rtt probe_id s1 = Inr s2
    \<and> measured_round (c_pfr_ping_req c) probe_id s s2"
proof -
  let ?req = "c_pfr_ping_req c"
  obtain s1 where s1: "pfr_calc_avg_rtt c ppm probe_id s = Inr s1" "route s1 = route s"
    "route_log1 s1 = route_log1 s" "\<forall>d. sm_find (r s1) d \<noteq> None \<longleftrightarrow> sm_find (r s) d \<noteq> None"
    "\<forall>d k. sm_find (r s) d \<noteq> None \<and> sm_find (peers_of (r s) d probe_id) k = None
      \<longrightarrow> sm_find (peers_of (r s1) d probe_id) k = None"
    "\<forall>d q. q \<noteq> probe_id \<longrightarrow> peers_of (r s1) d q = peers_of (r s) d q"
    "\<forall>d k seqs. sm_find (r s) d \<noteq> None \<and> sm_find (peers_of (r s) d probe_id) k = Some seqs
      \<longrightarrow> (\<exists>tp. sm_find (peers_of (r s1) d probe_id) k = Some (sm_put 99 (Some tp) seqs)
        \<and> sums_up ?req (rtts (entries seqs)) tp)"
    using calc_avg_rtt_sums [of s probe_id ppm c] round_answeredD [OF ra] by blast
  obtain s2 where s2: "pfr_calc_stddev_rtt probe_id s1 = Inr s2" "route s2 = route s1"
    "route_log1 s2 = route_log1 s1" "\<forall>d. sm_find (r s2) d \<noteq> None \<longleftrightarrow> sm_find (r s1) d \<noteq> None"
    "\<forall>d k. sm_find (r s1) d \<noteq> None \<and> sm_find (peers_of (r s1) d probe_id) k = None
      \<longrightarrow> sm_find (peers_of (r s2) d probe_id) k = None"
    "\<forall>d q. q \<noteq> probe_id \<longrightarrow> peers_of (r s2) d q = peers_of (r s1) d q"
    "\<forall>d k seqs tp. sm_find (r s1) d \<noteq> None \<and> sm_find (peers_of (r s1) d probe_id) k = Some seqs
        \<and> sm_find seqs 99 = Some (Some tp)
      \<longrightarrow> (\<exists>tp'. sm_find (peers_of (r s2) d probe_id) k = Some (sm_put 99 (Some tp') seqs)
        \<and> deviates (rtts (answers seqs)) tp tp')"
    using calc_stddev_rtt_deviates [of s1 probe_id] averaged_ready [OF ra s1(4,5,7)] by blast
  have "\<exists>tp tp'. sums_up ?req (rtts (entries seqs)) tp \<and> deviates (rtts (entries seqs)) tp tp'
      \<and> sm_find (peers_of (r s2) d probe_id) k = Some (sm_put 99 (Some tp') seqs)"
    if known: "sm_find (r s) d \<noteq> None" "sm_find (peers_of (r s) d probe_id) k = Some seqs" for d k seqs
  proof -
    obtain tp where tp: "sm_find (peers_of (r s1) d probe_id) k = Some (sm_put 99 (Some tp) seqs)"
      "sums_up ?req (rtts (entries seqs)) tp" using s1(7) known by blast
    have "sm_find (r s1) d \<noteq> None" "sm_find (sm_put 99 (Some tp) seqs) 99 = Some (Some tp)"
      using s1(4) known(1) by simp_all
    then obtain tp' where tp': "sm_find (peers_of (r s2) d probe_id) k
        = Some (sm_put 99 (Some tp') (sm_put 99 (Some tp) seqs))"
      "deviates (rtts (answers (sm_put 99 (Some tp) seqs))) tp tp'"
      using s2(7) tp(1) by blast
    have "deviates (rtts (entries seqs)) tp tp'"
      using tp'(2) answers_put round_answeredD(3) [OF ra known] by simp
    then show ?thesis using tp(2) tp'(1) by (auto simp: sm_laws)
  qed
  then have "measured_round ?req probe_id s s2"
    using s1(2-6) s2(2-6) by (auto simp: measured_round_def split: option.split)
  then show ?thesis using s1(1) s2(1) by blast
qed

text \<open>
  C6. For a round whose entries are answers, \<open>pfr_calc_avg_rtt\<close> and then \<open>pfr_calc_stddev_rtt\<close> return,
  and give every peer of every destination the entry 99 about its own answers: the number lost, the
  average up to the next hundredth, the least and the largest (bounded by 50000 and 0), both metrics,
  the deviation from the average, and the median of the code; the answers, the other rounds, the
  routes and the log stay.
\<close>

theorem measure_round:
  assumes "round_answered ppm probe_id s"
  shows "\<exists>s'. res_bind (pfr_calc_avg_rtt c ppm probe_id s) (pfr_calc_stddev_rtt probe_id) = Inr s'
    \<and> measured_round (c_pfr_ping_req c) probe_id s s'"
  using measure_passes [OF assms, of c] by auto

text \<open>A round of one destination: peer 1 answered the probes 0 and 2, in 12 ms and in 10 ms.\<close>

definition example_round :: rdata where
  "example_round = initial_rdata\<lparr>r := set_peers ''10.0.0.1'' 1
     (sm_put 1 (sm_put 0 (Some (tparm_new (Fin 12) (Fin 0) 0 7))
       (sm_put 2 (Some (tparm_new (Fin 10) (Fin 0) 0 7)) sm_empty)) sm_empty) sm_empty\<rparr>"

lemma round_answered_example: "round_answered sm_empty 1 example_round"
  by (auto simp: round_answered_def example_round_def initial_rdata_def answered_iff rtts_def
      perf_get_def tparm_new_def sm_put.rep_eq split: if_splits)

theorem measure_round_witness:
  "\<exists>s'. res_bind (pfr_calc_avg_rtt initial_config sm_empty 1 example_round) (pfr_calc_stddev_rtt 1) = Inr s'
    \<and> measured_round (c_pfr_ping_req initial_config) 1 example_round s'"
  by (rule measure_round [OF round_answered_example])

end
