(* ===== verification/Pfr_Scan.thy ===== *)
theory Pfr_Scan
  imports Pfr_Rdata
begin

text \<open>
  The choice of a peer for every destination: \<open>pfr_route_scan\<close> (\<open>src/src/pfr_rdata.cpp\<close>).

  Its state is \<open>rdata\<close> and the global \<open>min_rtt\<close>, which is both the configured bound and the running
  minimum of the scan; the scan leaves it at 50000.  \<open>peer_id\<close> 0 means that no peer was chosen.
\<close>

text \<open>The value of a summary under the configured metric; the metrics 2 to 5 select nothing.\<close>

definition metric_of :: "string \<Rightarrow> double \<Rightarrow> tparm \<Rightarrow> double res" where
  "metric_of path_metric old tp =
     (if path_metric = ''metric0'' then Inr (tp_avg_rtt tp)
      else if path_metric = ''metric1'' then
        (case tp_metric1 tp of None \<Rightarrow> Inl uninitialised | Some x \<Rightarrow> Inr x)
      else Inr old)"

text \<open>\<open>if([99] != NULL) ...\<close>.\<close>

definition read_metric :: "string \<Rightarrow> double \<Rightarrow> seq_map \<Rightarrow> double res" where
  "read_metric path_metric old seqs =
     (case sm_at None seqs 99 of None \<Rightarrow> Inr old | Some tp \<Rightarrow> metric_of path_metric old tp)"

text \<open>The loop over the peers of a round after the first: \<open>(min_rtt, curr_rtt, peer_id)\<close>.\<close>

fun scan_peers ::
  "string \<Rightarrow> (int \<times> seq_map) list \<Rightarrow> double \<times> double \<times> int \<Rightarrow> (double \<times> double \<times> int) res" where
  "scan_peers path_metric [] acc = Inr acc"
| "scan_peers path_metric ((p, seqs) # rest) (min_rtt, curr_rtt, peer_id) =
     res_bind (read_metric path_metric curr_rtt seqs) (\<lambda>curr.
       scan_peers path_metric rest
         (if dless curr min_rtt then (curr, curr, p) else (min_rtt, curr, peer_id)))"

text \<open>
  The loop as a whole: \<open>(min_rtt, peer_id)\<close>.  In round 0 it takes the first peer and stops.
\<close>

definition scan_select :: "string \<Rightarrow> int \<Rightarrow> peer_map \<Rightarrow> double \<Rightarrow> (double \<times> int) res" where
  "scan_select path_metric probe_id ps min_rtt =
     (if probe_id = 0 then
        (case entries ps of
           [] \<Rightarrow> Inr (min_rtt, 0)
         | (p, seqs) # _ \<Rightarrow> res_map (\<lambda>m. (m, p)) (read_metric path_metric min_rtt seqs))
      else res_map (\<lambda>(m, _, p). (m, p)) (scan_peers path_metric (entries ps) (min_rtt, Fin 0, 0)))"

text \<open>\<open>r[dst_ip][probe_id][p][99]\<close> creates a null entry where the loop looks.\<close>

definition touch99 :: "int \<Rightarrow> peer_map \<Rightarrow> peer_map" where
  "touch99 probe_id ps =
     fold (\<lambda>p. sm_modify sm_empty p (sm_touch None 99))
       (if probe_id = 0 then take 1 (sm_keys ps) else sm_keys ps) ps"

text \<open>What the scan logs of the chosen peer.\<close>

record scan_choice =
  z_peer_id :: int
  z_min_rtt :: double
  z_avg_rtt :: double
  z_ts :: int
  z_lost :: int
  z_min_rtt1 :: "double option"
  z_max_rtt :: "double option"
  z_stddev_rtt :: "double option"
  z_mediana_rtt :: "double option"

definition scan_result :: "string \<Rightarrow> peer_map \<Rightarrow> double \<times> int \<Rightarrow> scan_choice res" where
  "scan_result path_metric ps = (\<lambda>(min_rtt, peer_id).
     if peer_id \<noteq> 0 then
       (case sm_at None (sm_at sm_empty ps peer_id) 99 of
          None \<Rightarrow> Inl null_deref
        | Some tp \<Rightarrow> res_map (\<lambda>m.
            \<lparr>z_peer_id = peer_id, z_min_rtt = m, z_avg_rtt = tp_avg_rtt tp, z_ts = tp_timestamp tp,
             z_lost = tp_lost tp, z_min_rtt1 = tp_min_rtt tp, z_max_rtt = tp_max_rtt tp,
             z_stddev_rtt = tp_stddev_rtt tp, z_mediana_rtt = tp_mediana_rtt tp\<rparr>)
            (metric_of path_metric min_rtt tp))
     else Inr \<lparr>z_peer_id = 0, z_min_rtt = Fin 0, z_avg_rtt = Fin 0, z_ts = 0, z_lost = 0,
       z_min_rtt1 = Some (Fin 0), z_max_rtt = Some (Fin 0), z_stddev_rtt = Some (Fin 0),
       z_mediana_rtt = Some (Fin 0)\<rparr>)"

text \<open>Case 2.1: the new peer must beat the old one by \<open>rtt_least_thresh\<close> per cent of its own value.\<close>

definition least_move :: "int \<Rightarrow> double \<Rightarrow> double \<Rightarrow> bool" where
  "least_move rtt_least_thresh prev_min_rtt min_rtt =
     (let mul = ddiv (d_of_int rtt_least_thresh) (Fin 100);
          delta0 = dmul min_rtt mul;
          delta1 = dsub prev_min_rtt delta0
      in dless min_rtt delta1)"

text \<open>The entry \<open>route[dst_ip][probe_id]\<close> for \<open>probe_id > 0\<close>, from the one of the round before.\<close>

definition next_route :: "config \<Rightarrow> rt_parm option option \<Rightarrow> scan_choice \<Rightarrow> rt_parm res" where
  "next_route c prev z =
     (case prev of
        None \<Rightarrow> Inr (rt_parm_new 0 (z_min_rtt z) (z_peer_id z) (z_min_rtt z))
      | Some None \<Rightarrow> Inl null_deref
      | Some (Some p) \<Rightarrow>
          Inr (if z_peer_id z = 0
               then rt_parm_new (curr_peer p) (cmin_rtt p) (curr_peer p) (z_min_rtt z)
               else if c_rtt_least_move c
                    \<and> \<not> least_move (c_rtt_least_thresh c) (cmin_rtt p) (z_min_rtt z)
               then rt_parm_new (curr_peer p) (cmin_rtt p) (curr_peer p) (cmin_rtt p)
               else rt_parm_new (curr_peer p) (cmin_rtt p) (z_peer_id z) (z_min_rtt z)))"

definition tlog_of :: "scan_choice \<Rightarrow> tlog" where
  "tlog_of z = tlog_new (z_peer_id z) (z_min_rtt z) (z_avg_rtt z) (z_min_rtt1 z) (z_max_rtt z)
     (z_stddev_rtt z) (z_mediana_rtt z) (z_lost z) (z_ts z)"

text \<open>\<open>scan_new_cnt\<close> counts the new entries of \<open>route\<close>, but those of case 2.1.\<close>

definition scan_dst :: "config \<Rightarrow> int \<Rightarrow> string \<Rightarrow> rdata \<times> double \<Rightarrow> (rdata \<times> double) res" where
  "scan_dst c probe_id dst_ip = (\<lambda>(s, min_rtt).
     let ps = peers_of (r s) dst_ip probe_id;
         s1 = s\<lparr>r := set_peers dst_ip probe_id (touch99 probe_id ps) (r s)\<rparr>
     in res_bind (scan_select (c_path_metric c) probe_id ps min_rtt) (\<lambda>sel.
        res_bind (scan_result (c_path_metric c) ps sel) (\<lambda>z.
        if probe_id = 0 then
          Inr ((case entries ps of
                  [] \<Rightarrow> s1
                | (p, _) # _ \<Rightarrow> s1\<lparr>route := set_route dst_ip 0
                      (Some (rt_parm_new 0 (fst sel) p (fst sel))) (route s1),
                    scan_new_cnt := scan_new_cnt s1 + 1\<rparr>)
               \<lparr>route_log1 := set_log dst_ip 0 (tlog_of z) (route_log1 s1)\<rparr>, Fin 50000)
        else if probe_id > 0 then
          (let prev = route_at (route s1) dst_ip (probe_id - 1)
           in res_bind (next_route c prev z) (\<lambda>rt.
              Inr (s1\<lparr>route := set_route dst_ip probe_id (Some rt) (route s1),
                      scan_new_cnt := scan_new_cnt s1
                        + (if prev = None \<or> z_peer_id z = 0 then 1 else 0),
                      route_log1 := set_log dst_ip probe_id (tlog_of z) (route_log1 s1)\<rparr>, Fin 50000)))
        else Inr (s1, Fin 50000))))"

definition pfr_route_scan :: "config \<Rightarrow> int \<Rightarrow> rdata \<times> double \<Rightarrow> (rdata \<times> double) res" where
  "pfr_route_scan c probe_id = (\<lambda>(s, min_rtt).
     fold_res (scan_dst c probe_id) (sm_keys (r s)) (s, min_rtt))"


section \<open>The choice\<close>

text \<open>The value the scan compares, where the summary of a peer's answers has it.\<close>

definition seq_value :: "string \<Rightarrow> seq_map \<Rightarrow> double option" where
  "seq_value path_metric seqs = (case sm_find seqs 99 of
       Some (Some tp) \<Rightarrow>
         (if path_metric = ''metric0'' then Some (tp_avg_rtt tp)
          else if path_metric = ''metric1'' then tp_metric1 tp else None)
     | _ \<Rightarrow> None)"

definition peer_values :: "string \<Rightarrow> peer_map \<Rightarrow> (int \<times> double) list" where
  "peer_values path_metric ps = map (\<lambda>(p, seqs). (p, the (seq_value path_metric seqs))) (entries ps)"

text \<open>
  The specification: the first of the peers with the least value, if that is below the bound, and no
  peer (0) otherwise.
\<close>

definition is_best :: "double \<Rightarrow> (int \<times> double) list \<Rightarrow> double \<times> int \<Rightarrow> bool" where
  "is_best bound vs = (\<lambda>(m, p).
     if \<forall>(q, v) \<in> set vs. \<not> dless v bound then m = bound \<and> p = 0
     else \<exists>us ws. vs = us @ (p, m) # ws \<and> dless m bound
        \<and> (\<forall>(q, v) \<in> set us. dless m v) \<and> (\<forall>(q, v) \<in> set ws. \<not> dless v m))"

definition better :: "int \<times> double \<Rightarrow> double \<times> int \<Rightarrow> double \<times> int" where
  "better = (\<lambda>(q, v) (m, p). if dless v m then (v, q) else (m, p))"

text \<open>A value below the minimum is below every value that is not below the minimum.\<close>

lemma dless_below:
  assumes "dless v m" and "\<not> dless w m" and "w \<noteq> NaN"
  shows "dless v w"
proof -
  have "m \<noteq> NaN" using assms(1) by auto
  then have "w = m \<or> dless m w" using assms(2,3) dless_total by blast
  then show ?thesis using assms(1) dless_trans by blast
qed

text \<open>One more value: it is below the minimum so far, or it is not.\<close>

lemma is_bestE:
  assumes "is_best bound vs (m, p)"
  obtains "m = bound" and "p = 0" and "\<And>q v. (q, v) \<in> set vs \<Longrightarrow> \<not> dless v bound"
  | us ws where "vs = us @ (p, m) # ws" and "dless m bound"
    and "\<And>q v. (q, v) \<in> set us \<Longrightarrow> dless m v" and "\<And>q v. (q, v) \<in> set ws \<Longrightarrow> \<not> dless v m"
proof (cases "\<forall>(q, v) \<in> set vs. \<not> dless v bound")
  case True
  then show thesis using assms that(1) by (auto simp: is_best_def)
next
  case False
  then show thesis
    using assms that(2) unfolding is_best_def case_prod_conv if_not_P [OF False] by blast
qed

lemma is_best_improve:
  assumes best: "is_best bound vs (m, p)" and "\<forall>(q, v) \<in> set vs. v \<noteq> NaN" and less: "dless v m"
  shows "is_best bound (vs @ [(q, v)]) (v, q)"
proof -
  have "\<not> dless w m" if w: "(q', w) \<in> set vs" for q' w
    using best
  proof (cases rule: is_bestE)
    case (2 us ws)
    then show ?thesis using w by (auto dest: dless_asym)
  qed (use w in auto)
  then have all: "\<forall>(q', w) \<in> set vs. dless v w" using dless_below [OF less] assms(2) by blast
  have "dless v bound" using best less dless_trans by (cases rule: is_bestE) auto
  then have "\<not> (\<forall>(q, w) \<in> set (vs @ [(q, v)]). \<not> dless w bound)" by auto
  then show ?thesis
    unfolding is_best_def case_prod_conv using all \<open>dless v bound\<close>
    by (metis (no_types, lifting) empty_iff list.set(1))
qed

lemma is_best_keep:
  assumes best: "is_best bound vs (m, p)" and nless: "\<not> dless v m"
  shows "is_best bound (vs @ [(q, v)]) (m, p)"
  using best
proof (cases rule: is_bestE)
  case 1
  then show ?thesis using nless by (auto simp: is_best_def)
next
  case (2 us ws)
  then have "\<not> (\<forall>(q, v) \<in> set (vs @ [(q, v)]). \<not> dless v bound)" by auto
  moreover have "vs @ [(q, v)] = us @ (p, m) # (ws @ [(q, v)])" by (simp add: 2)
  moreover have "\<forall>(q, v) \<in> set us. dless m v" "\<forall>(q, v) \<in> set (ws @ [(q, v)]). \<not> dless v m"
    using 2 nless by auto
  ultimately show ?thesis unfolding is_best_def case_prod_conv using 2(2) by (metis (no_types, lifting))
qed

lemma fold_better:
  assumes "bound \<noteq> NaN" and "\<forall>(q, v) \<in> set vs. v \<noteq> NaN"
  shows "is_best bound vs (fold better vs (bound, 0))"
  using assms(2)
proof (induction vs rule: rev_induct)
  case Nil
  then show ?case by (simp add: is_best_def)
next
  case (snoc x vs)
  obtain q v where x: "x = (q, v)" by (cases x)
  obtain m p where f: "fold better vs (bound, 0) = (m, p)" by (cases "fold better vs (bound, 0)")
  have "is_best bound vs (m, p)" using snoc f by simp
  moreover have "fold better (vs @ [x]) (bound, 0) = (if dless v m then (v, q) else (m, p))"
    by (simp add: f x) (simp add: better_def)
  ultimately show ?case
    using is_best_improve [of bound vs m p v q] is_best_keep [of bound vs m p v q] snoc.prems by (simp add: x)
qed

lemma read_metric_value:
  assumes "seq_value pm seqs = Some v"
  shows "read_metric pm old seqs = Inr v"
  using assms
  by (auto simp: seq_value_def read_metric_def metric_of_def sm_at_def split: option.splits if_splits)

lemma scan_peers_better:
  assumes "\<forall>(p, seqs) \<in> set es. seq_value pm seqs \<noteq> None"
  shows "\<exists>cu'. scan_peers pm es (m, cu, p)
    = Inr (fst (fold better (map (\<lambda>(p, seqs). (p, the (seq_value pm seqs))) es) (m, p)), cu',
        snd (fold better (map (\<lambda>(p, seqs). (p, the (seq_value pm seqs))) es) (m, p)))"
  using assms
proof (induction es arbitrary: m cu p)
  case (Cons e es)
  obtain q seqs where e: "e = (q, seqs)" by (cases e)
  obtain v where v: "seq_value pm seqs = Some v" using Cons.prems e by auto
  show ?case
    using Cons.IH Cons.prems by (simp add: e v read_metric_value [OF v] better_def)
qed simp

lemma scan_select_better:
  assumes "probe_id \<noteq> 0" and "\<forall>(p, seqs) \<in> set (entries ps). seq_value pm seqs \<noteq> None"
  shows "scan_select pm probe_id ps bound = Inr (fold better (peer_values pm ps) (bound, 0))"
  using assms(1) scan_peers_better [OF assms(2), of bound "Fin 0" 0]
  by (auto simp: scan_select_def peer_values_def)

text \<open>
  C3. In every round but the first, under the metrics 0 and 1, the scan of a destination refines the
  specification: it chooses the first peer with the least value below the bound.
\<close>

theorem scan_select_best:
  assumes "probe_id \<noteq> 0" and "bound \<noteq> NaN"
    and "\<forall>(p, seqs) \<in> set (entries ps). \<exists>v. seq_value pm seqs = Some v \<and> v \<noteq> NaN"
  shows "\<exists>best. scan_select pm probe_id ps bound = Inr best \<and> is_best bound (peer_values pm ps) best"
proof -
  have "\<forall>(p, seqs) \<in> set (entries ps). seq_value pm seqs \<noteq> None" using assms(3) by auto
  moreover have "\<forall>(q, v) \<in> set (peer_values pm ps). v \<noteq> NaN"
    using assms(3) by (force simp: peer_values_def)
  ultimately show ?thesis using scan_select_better [OF assms(1)] fold_better [OF assms(2)] by blast
qed


section \<open>The scan of all destinations\<close>

text \<open>What the scan reads and writes of a destination.\<close>

definition dst_view ::
  "int \<Rightarrow> rdata \<Rightarrow> string \<Rightarrow> peer_map \<times> rt_parm option option \<times> rt_parm option option \<times> tlog option" where
  "dst_view probe_id s dst_ip = (peers_of (r s) dst_ip probe_id,
     route_at (route s) dst_ip (probe_id - 1), route_at (route s) dst_ip probe_id,
     log_at (route_log1 s) dst_ip probe_id)"

definition scan_one ::
  "config \<Rightarrow> int \<Rightarrow> string \<Rightarrow> peer_map \<times> rt_parm option option \<times> rt_parm option option \<times> tlog option
    \<Rightarrow> peer_map \<times> rt_parm option option \<times> rt_parm option option \<times> tlog option \<Rightarrow> bool" where
  "scan_one c probe_id dst_ip = (\<lambda>(ps, prev, _, _) (ps', prev', rt, lg).
     \<exists>sel z rt0. scan_select (c_path_metric c) probe_id ps (Fin 50000) = Inr sel
       \<and> scan_result (c_path_metric c) ps sel = Inr z \<and> next_route c prev z = Inr rt0
       \<and> ps' = touch99 probe_id ps \<and> prev' = prev \<and> rt = Some (Some rt0) \<and> lg = Some (tlog_of z))"

lemma route_at_set_route [simp]:
  "route_at (set_route d p rt m) d' p' = (if d' = d \<and> p' = p then Some rt else route_at m d' p')"
  by (simp add: route_at_def set_route_def)

lemma log_at_set_log [simp]:
  "log_at (set_log d p l m) d' p' = (if d' = d \<and> p' = p then Some l else log_at m d' p')"
  by (simp add: log_at_def set_log_def)

text \<open>The step of the loop for a round after the first, with its pieces named.\<close>

lemma scan_dst_pos:
  assumes "0 < probe_id"
  shows "scan_dst c probe_id dst_ip (s, m) = Inr v \<longleftrightarrow>
    (\<exists>sel z rt. scan_select (c_path_metric c) probe_id (peers_of (r s) dst_ip probe_id) m = Inr sel
      \<and> scan_result (c_path_metric c) (peers_of (r s) dst_ip probe_id) sel = Inr z
      \<and> next_route c (route_at (route s) dst_ip (probe_id - 1)) z = Inr rt
      \<and> v = (s\<lparr>r := set_peers dst_ip probe_id (touch99 probe_id (peers_of (r s) dst_ip probe_id)) (r s),
            route := set_route dst_ip probe_id (Some rt) (route s),
            scan_new_cnt := scan_new_cnt s
              + (if route_at (route s) dst_ip (probe_id - 1) = None \<or> z_peer_id z = 0 then 1 else 0),
            route_log1 := set_log dst_ip probe_id (tlog_of z) (route_log1 s)\<rparr>, Fin 50000))"
proof -
  have "scan_dst c probe_id dst_ip (s, m) =
    res_bind (scan_select (c_path_metric c) probe_id (peers_of (r s) dst_ip probe_id) m) (\<lambda>sel.
    res_bind (scan_result (c_path_metric c) (peers_of (r s) dst_ip probe_id) sel) (\<lambda>z.
    res_bind (next_route c (route_at (route s) dst_ip (probe_id - 1)) z) (\<lambda>rt.
    Inr (s\<lparr>r := set_peers dst_ip probe_id (touch99 probe_id (peers_of (r s) dst_ip probe_id)) (r s),
            route := set_route dst_ip probe_id (Some rt) (route s),
            scan_new_cnt := scan_new_cnt s
              + (if route_at (route s) dst_ip (probe_id - 1) = None \<or> z_peer_id z = 0 then 1 else 0),
            route_log1 := set_log dst_ip probe_id (tlog_of z) (route_log1 s)\<rparr>, Fin 50000))))"
    using assms by (simp add: scan_dst_def Let_def)
  then show ?thesis by (simp only: res_bind3_Inr_iff)
qed

lemma scan_dst_own:
  assumes "0 < probe_id" and "scan_dst c probe_id dst_ip (s, Fin 50000) = Inr (s', m')"
  shows "scan_one c probe_id dst_ip (dst_view probe_id s dst_ip) (dst_view probe_id s' dst_ip)"
  using assms(2) unfolding scan_dst_pos [OF assms(1)]
  by (auto simp: scan_one_def dst_view_def)

lemma scan_dst_other:
  assumes "0 < probe_id" and "scan_dst c probe_id dst_ip (s, m) = Inr (s', m')" and "d \<noteq> dst_ip"
  shows "dst_view probe_id s' d = dst_view probe_id s d"
  using assms(2,3) unfolding scan_dst_pos [OF assms(1)] by (auto simp: dst_view_def)

lemma scan_dst_bound:
  "0 < probe_id \<Longrightarrow> scan_dst c probe_id dst_ip (s, m) = Inr (s', m') \<Longrightarrow> m' = Fin 50000"
  by (auto simp: scan_dst_pos)

lemma scan_fold:
  assumes "0 < probe_id"
  shows "fold_res (scan_dst c probe_id) ds (s, Fin 50000)
    = res_map (\<lambda>s. (s, Fin 50000)) (fold_res (\<lambda>d s. res_map fst (scan_dst c probe_id d (s, Fin 50000))) ds s)"
proof (induction ds arbitrary: s)
  case (Cons d ds)
  show ?case
  proof (cases "scan_dst c probe_id d (s, Fin 50000)")
    case (Inr v)
    obtain s' m' where v: "v = (s', m')" by (cases v)
    then have "m' = Fin 50000" using scan_dst_bound [OF assms] Inr by blast
    then show ?thesis using Cons Inr v by (simp add: res_map_def res_bind_assoc)
  qed (simp add: res_map_def)
qed simp

lemma scan_leaves_bound:
  assumes "0 < probe_id" and "fold_res (scan_dst c probe_id) ds (s, m) = Inr (s', m')" and "ds \<noteq> []"
  shows "m' = Fin 50000"
proof -
  obtain e es where ds: "ds = es @ [e]" using assms(3) by (cases ds rule: rev_cases) auto
  obtain t q where "fold_res (scan_dst c probe_id) es (s, m) = Inr (t, q)"
    "scan_dst c probe_id e (t, q) = Inr (s', m')"
    using assms(2) by (auto simp: ds fold_res_append elim!: res_bind_InrE)
  then show ?thesis using scan_dst_bound [OF assms(1)] by blast
qed

text \<open>Each destination's part of the state after the scan.\<close>

lemma scan_views:
  assumes "0 < probe_id" and "pfr_route_scan c probe_id (s, Fin 50000) = Inr (s', m')"
  shows "sm_find (r s) d \<noteq> None \<Longrightarrow> scan_one c probe_id d (dst_view probe_id s d) (dst_view probe_id s' d)"
    and "sm_find (r s) d = None \<Longrightarrow> dst_view probe_id s' d = dst_view probe_id s d"
    and "m' = Fin 50000"
proof -
  let ?f = "\<lambda>d s. res_map fst (scan_dst c probe_id d (s, Fin 50000))"
  have m: "m' = Fin 50000" and f: "fold_res ?f (sm_keys (r s)) s = Inr s'"
    using assms(2) by (auto simp: pfr_route_scan_def scan_fold [OF assms(1)] res_map_Inr_iff)
  have "(d \<in> set (sm_keys (r s)) \<longrightarrow> scan_one c probe_id d (dst_view probe_id s d) (dst_view probe_id s' d))
      \<and> (d \<notin> set (sm_keys (r s)) \<longrightarrow> dst_view probe_id s' d = dst_view probe_id s d)"
    by (rule fold_res_local [OF f smap.distinct_keys])
      (auto simp: res_map_Inr_iff intro: scan_dst_own [OF assms(1)] scan_dst_other [OF assms(1)])
  then show "sm_find (r s) d \<noteq> None \<Longrightarrow> scan_one c probe_id d (dst_view probe_id s d) (dst_view probe_id s' d)"
    "sm_find (r s) d = None \<Longrightarrow> dst_view probe_id s' d = dst_view probe_id s d" by (simp_all add: sm_in_keys)
  show "m' = Fin 50000" by (rule m)
qed

text \<open>The entry of \<open>route\<close> for the best peer, with and without \<open>rtt_least_move\<close>.\<close>

definition chosen :: "config \<Rightarrow> rt_parm option option \<Rightarrow> double \<times> int \<Rightarrow> rt_parm" where
  "chosen c prev = (\<lambda>(m, k). case prev of
       Some (Some p) \<Rightarrow>
         (if c_rtt_least_move c \<and> \<not> least_move (c_rtt_least_thresh c) (cmin_rtt p) m
          then rt_parm_new (curr_peer p) (cmin_rtt p) (curr_peer p) (cmin_rtt p)
          else rt_parm_new (curr_peer p) (cmin_rtt p) k m)
     | _ \<Rightarrow> rt_parm_new 0 m k m)"

lemma best_is_peer:
  assumes "is_best bound vs (m, k)" and "vs \<noteq> []" and "\<forall>(q, v) \<in> set vs. dless v bound"
  shows "(k, m) \<in> set vs"
proof -
  have "\<not> (\<forall>(q, v) \<in> set vs. \<not> dless v bound)" using assms(2,3) by (cases vs) auto
  then show ?thesis using assms(1) unfolding is_best_def case_prod_conv by (simp only: if_False) auto
qed

lemma scan_one_chosen:
  assumes "scan_one c probe_id d (ps, prev, x, y) (ps', prev', rt, lg)" and "probe_id \<noteq> 0"
    and "\<forall>(p, seqs) \<in> set (entries ps). p \<noteq> 0 \<and> (\<exists>v. seq_value (c_path_metric c) seqs = Some v \<and> dless v (Fin 50000))"
    and "ps \<noteq> sm_empty"
  shows "\<exists>m k. is_best (Fin 50000) (peer_values (c_path_metric c) ps) (m, k) \<and> sm_find ps k \<noteq> None
    \<and> rt = Some (Some (chosen c prev (m, k))) \<and> (\<exists>l. lg = Some l \<and> tl_peer_id l \<noteq> 0)"
proof -
  let ?vs = "peer_values (c_path_metric c) ps"
  obtain m k where f: "fold better ?vs (Fin 50000, 0) = (m, k)" by (cases "fold better ?vs (Fin 50000, 0)")
  have "\<forall>(p, seqs) \<in> set (entries ps). seq_value (c_path_metric c) seqs \<noteq> None" using assms(3) by auto
  then have sel: "scan_select (c_path_metric c) probe_id ps (Fin 50000) = Inr (m, k)"
    using scan_select_better [OF assms(2), of ps "c_path_metric c" "Fin 50000"] f by simp
  have below: "\<forall>(q, v) \<in> set ?vs. dless v (Fin 50000)" using assms(3) by (force simp: peer_values_def)
  then have "\<forall>(q, v) \<in> set ?vs. v \<noteq> NaN" by auto
  then have best: "is_best (Fin 50000) ?vs (m, k)" using fold_better [of "Fin 50000" ?vs] f by simp
  have "?vs \<noteq> []" using assms(4) by (simp add: peer_values_def entries_Nil_iff)
  then obtain seqs where seqs: "(k, seqs) \<in> set (entries ps)" "m = the (seq_value (c_path_metric c) seqs)"
    using best_is_peer [OF best _ below] by (auto simp: peer_values_def)
  then have at: "k \<noteq> 0" "seq_value (c_path_metric c) seqs = Some m" using assms(3) by auto
  have "sm_find ps k = Some seqs" using seqs(1) by (simp add: entries_iff_find)
  moreover obtain z rt0 where z: "scan_result (c_path_metric c) ps (m, k) = Inr z"
    "next_route c prev z = Inr rt0" "rt = Some (Some rt0)" "lg = Some (tlog_of z)"
    using assms(1) sel by (auto simp: scan_one_def)
  ultimately have "z_peer_id z = k" "z_min_rtt z = m"
    using at by (auto simp: scan_result_def sm_find_Some_at seq_value_def metric_of_def res_map_Inr_iff
        split: option.splits if_splits)
  then have "rt0 = chosen c prev (m, k)"
    using z(2) at(1) by (auto simp: next_route_def chosen_def split: option.splits)
  moreover have "tl_peer_id (tlog_of z) \<noteq> 0"
    using \<open>z_peer_id z = k\<close> at(1) by (simp add: tlog_of_def tlog_new_def)
  ultimately show ?thesis using best z(3,4) \<open>sm_find ps k = Some seqs\<close> by blast
qed

text \<open>
  C20. Round by round: a scan that starts at the bound 50000 (as all but the first do) gives every
  destination the entry of \<open>route\<close> that its own samples and its own entry of the round before
  determine, logs it, and leaves the destinations it does not know alone.
\<close>

theorem route_scan_local:
  assumes "0 < probe_id" and "pfr_route_scan c probe_id (s, Fin 50000) = Inr (s', m')"
  shows "m' = Fin 50000
    \<and> (sm_find (r s) d \<noteq> None
        \<longrightarrow> scan_one c probe_id d (dst_view probe_id s d) (dst_view probe_id s' d))
    \<and> (sm_find (r s) d = None \<longrightarrow> dst_view probe_id s' d = dst_view probe_id s d)"
  using scan_views(1,2) [OF assms, of d] scan_views(3) [OF assms] by blast

text \<open>The destinations a scan knows.\<close>

lemma scan_dst_keys:
  assumes "0 < probe_id" and "scan_dst c probe_id d (s, m) = Inr (s', m')"
  shows "sm_find (r s') e \<noteq> None \<longleftrightarrow> e = d \<or> sm_find (r s) e \<noteq> None"
    and "sm_find (route s') e \<noteq> None \<longleftrightarrow> e = d \<or> sm_find (route s) e \<noteq> None"
  using assms(2) unfolding scan_dst_pos [OF assms(1)] by (auto simp: set_peers_def set_route_def)

lemma scan_keys:
  assumes "0 < probe_id" and "pfr_route_scan c probe_id (s, m) = Inr (s', m')"
  shows "sm_find (r s') e \<noteq> None \<longleftrightarrow> sm_find (r s) e \<noteq> None"
    and "sm_find (route s') e \<noteq> None \<Longrightarrow> sm_find (route s) e \<noteq> None \<or> sm_find (r s) e \<noteq> None"
proof -
  let ?P = "\<lambda>(u :: rdata, b :: double). (\<forall>e. sm_find (r u) e \<noteq> None \<longleftrightarrow> sm_find (r s) e \<noteq> None)
    \<and> (\<forall>e. sm_find (route u) e \<noteq> None \<longrightarrow> sm_find (route s) e \<noteq> None \<or> sm_find (r s) e \<noteq> None)"
  have "?P (s', m')"
  proof (rule fold_res_invariant [where P = ?P])
    show "fold_res (scan_dst c probe_id) (sm_keys (r s)) (s, m) = Inr (s', m')"
      using assms(2) by (simp add: pfr_route_scan_def)
  next
    fix d u v assume u: "d \<in> set (sm_keys (r s))" "?P u" "scan_dst c probe_id d u = Inr v"
    obtain a b a' b' where uv: "u = (a, b)" "v = (a', b')" by (cases u, cases v)
    have d: "sm_find (r s) d \<noteq> None" using u(1) by (simp add: sm_in_keys)
    note step = scan_dst_keys [OF assms(1) u(3) [unfolded uv]]
    show "?P v"
      using u(2) d unfolding uv case_prod_conv step by (auto simp del: not_None_eq)
  qed simp
  then show "sm_find (r s') e \<noteq> None \<longleftrightarrow> sm_find (r s) e \<noteq> None"
    and "sm_find (route s') e \<noteq> None \<Longrightarrow> sm_find (route s) e \<noteq> None \<or> sm_find (r s) e \<noteq> None" by auto
qed

text \<open>The state of a round that \<open>pfr_calc_avg_rtt\<close> has completed: every peer has its summary.\<close>

definition summarised :: "peer_map \<Rightarrow> bool" where
  "summarised ps \<longleftrightarrow> (\<forall>(p, seqs) \<in> set (entries ps).
     \<exists>tp. sm_find seqs 99 = Some (Some tp) \<and> tp_metric1 tp \<noteq> None)"

definition scan_ready :: "int \<Rightarrow> rdata \<Rightarrow> bool" where
  "scan_ready probe_id s \<longleftrightarrow> (\<forall>d. sm_find (r s) d \<noteq> None \<longrightarrow>
     summarised (peers_of (r s) d probe_id) \<and> route_at (route s) d (probe_id - 1) \<noteq> Some None)"

lemma scan_peers_total:
  assumes "\<forall>(p, seqs) \<in> set es. \<exists>tp. sm_find seqs 99 = Some (Some tp) \<and> tp_metric1 tp \<noteq> None"
  shows "\<exists>m' cu' p'. scan_peers pm es (m, cu, p) = Inr (m', cu', p')
    \<and> (p' = p \<or> p' \<in> fst ` set es)"
  using assms
proof (induction es arbitrary: m cu p)
  case (Cons e es)
  obtain q seqs where e: "e = (q, seqs)" by (cases e)
  obtain v where v: "read_metric pm cu seqs = Inr v"
  proof -
    obtain tp y where "sm_find seqs 99 = Some (Some tp)" "tp_metric1 tp = Some y"
      using Cons.prems by (auto simp: e)
    then have "\<exists>v. read_metric pm cu seqs = Inr v"
      by (simp add: read_metric_def sm_at_def metric_of_def)
    then show thesis using that by blast
  qed
  show ?case
    using Cons.IH [of v v q] Cons.IH [of m v p] Cons.prems by (auto simp: e v)
qed simp

lemma scan_one_total:
  assumes "0 < probe_id" and "summarised ps" and "prev \<noteq> Some None"
  obtains sel z rt where "scan_select pm probe_id ps m = Inr sel" and "scan_result pm ps sel = Inr z"
    and "next_route c prev z = Inr rt"
proof -
  obtain m' cu' p' where sc: "scan_peers pm (entries ps) (m, Fin 0, 0) = Inr (m', cu', p')"
    and p': "p' = 0 \<or> p' \<in> fst ` set (entries ps)"
    using scan_peers_total [of "entries ps" pm m "Fin 0" 0] assms(2) by (auto simp: summarised_def)
  have "\<exists>z. scan_result pm ps (m', p') = Inr z"
  proof (cases "p' = 0")
    case False
    then obtain seqs where seqs: "(p', seqs) \<in> set (entries ps)" using p' by force
    then have "sm_at sm_empty ps p' = seqs" by (simp add: entries_iff_find sm_find_Some_at)
    moreover obtain tp where "sm_find seqs 99 = Some (Some tp)" "tp_metric1 tp \<noteq> None"
      using assms(2) seqs by (auto simp: summarised_def)
    ultimately show ?thesis
      using False by (auto simp: scan_result_def sm_find_Some_at metric_of_def)
  qed (simp add: scan_result_def)
  moreover have "\<exists>rt. next_route c prev z = Inr rt" for z
    using assms(3) by (auto simp: next_route_def split: option.splits)
  ultimately show thesis using that sc assms(1) by (fastforce simp: scan_select_def)
qed

text \<open>
  The scan of a completed round returns: no destination meets a null pointer or a value that was
  never set, whatever the configuration.
\<close>

lemma route_scan_total:
  assumes "0 < probe_id" and "scan_ready probe_id s"
  shows "\<exists>s'. pfr_route_scan c probe_id (s, m) = Inr s'"
proof -
  let ?P = "\<lambda>(u :: rdata, m :: double). \<forall>d \<in> set (sm_keys (r s)). summarised (peers_of (r u) d probe_id)
    \<and> route_at (route u) d (probe_id - 1) \<noteq> Some None"
  have "\<exists>t. fold_res (scan_dst c probe_id) (sm_keys (r s)) (s, m) = Inr t \<and> ?P t"
  proof (rule fold_res_total)
    show "?P (s, m)" using assms(2) by (simp add: scan_ready_def sm_in_keys)
  next
    fix d u assume d: "d \<in> set (sm_keys (r s))" and P: "?P u"
    obtain v w where u: "u = (v, w)" by (cases u)
    let ?ps = "peers_of (r v) d probe_id" and ?prev = "route_at (route v) d (probe_id - 1)"
    have ok: "summarised ?ps" "?prev \<noteq> Some None" using P d u by auto
    obtain sel z rt where pieces: "scan_select (c_path_metric c) probe_id ?ps w = Inr sel"
      "scan_result (c_path_metric c) ?ps sel = Inr z" "next_route c ?prev z = Inr rt"
      using scan_one_total [OF assms(1) ok] .
    then obtain x where x: "scan_dst c probe_id d (v, w) = Inr x"
      "x = (v\<lparr>r := set_peers d probe_id (touch99 probe_id ?ps) (r v),
        route := set_route d probe_id (Some rt) (route v),
        scan_new_cnt := scan_new_cnt v + (if ?prev = None \<or> z_peer_id z = 0 then 1 else 0),
        route_log1 := set_log d probe_id (tlog_of z) (route_log1 v)\<rparr>, Fin 50000)"
      using scan_dst_pos [OF assms(1), of c d v w] by blast
    have "touch99 probe_id ?ps = ?ps"
    proof -
      have "sm_modify sm_empty p (sm_touch None 99) ?ps = ?ps" if pk: "p \<in> set (sm_keys ?ps)" for p
      proof -
        obtain seqs where f: "sm_find ?ps p = Some seqs" using pk by (auto simp: sm_in_keys)
        then have "(p, seqs) \<in> set (entries ?ps)" by (simp add: entries_iff_find)
        then have "sm_find seqs 99 \<noteq> None" using ok(1) by (auto simp: summarised_def)
        then have "sm_touch None 99 seqs = seqs" by (auto simp: sm_touch_present)
        then show ?thesis using f by (simp add: sm_modify_def sm_find_Some_at smap.put_same)
      qed
      then have "fold (\<lambda>p. sm_modify sm_empty p (sm_touch None 99)) ks ?ps = ?ps"
        if "set ks \<subseteq> set (sm_keys ?ps)" for ks
        using that by (induction ks) auto
      then show ?thesis using assms(1) by (simp add: touch99_def)
    qed
    then have "?P x" using P assms(1) by (auto simp: x(2) u)
    then show "\<exists>v. scan_dst c probe_id d u = Inr v \<and> ?P v" using x(1) u by blast
  qed
  then show ?thesis by (auto simp: pfr_route_scan_def)
qed


section \<open>Moving a route\<close>

lemma dround_nonneg: "0 \<le> q \<Longrightarrow> \<exists>x. (dround q = Fin x \<and> 0 \<le> x) \<or> dround q = Inf False"
  using rnd_nonneg [of q] by (auto simp: dround_def)

lemma least_move_less:
  assumes "0 \<le> thresh" and "0 \<le> x" and "representable (Fin q)" and "least_move thresh (Fin q) (Fin x)"
  shows "x < q"
proof -
  define mul where "mul = ddiv (d_of_int thresh) (Fin 100)"
  define delta0 where "delta0 = dmul (Fin x) mul"
  have move: "dless (Fin x) (dsub (Fin q) delta0)"
    using assms(4) by (simp add: least_move_def Let_def mul_def delta0_def)
  have "(0 :: rat) \<le> of_int thresh" using assms(1) by simp
  then obtain t where "(d_of_int thresh = Fin t \<and> 0 \<le> t) \<or> d_of_int thresh = Inf False"
    unfolding d_of_int_def using dround_nonneg by blast
  then obtain m where m: "(mul = Fin m \<and> 0 \<le> m) \<or> mul = Inf False"
    using dround_nonneg [of "t / 100"] by (auto simp: mul_def)
  have "\<exists>d. (delta0 = Fin d \<and> 0 \<le> d) \<or> delta0 = Inf False \<or> delta0 = NaN"
    using m dround_nonneg [of "x * m"] assms(2) by (auto simp: delta0_def)
  then obtain d where d: "delta0 = Fin d" "0 \<le> d"
    using move by (auto simp: dsub_def)
  have "\<not> dless (Fin q) (dsub (Fin q) (Fin d))" using assms(3) d(2) by (rule dsub_nonneg_le)
  then have "\<not> dless (Fin q) (Fin x)" using move d(1) dless_trans by blast
  moreover have "x \<noteq> q" using move d(1) \<open>\<not> dless (Fin q) (dsub (Fin q) (Fin d))\<close> by auto
  ultimately show ?thesis by simp
qed

text \<open>
  C19. With \<open>rtt_least_move\<close> a route leaves its peer only for one whose value is strictly below the
  value stored for the old peer: the rounding of the threshold never lets an equal or worse peer win.
\<close>

theorem next_route_improves:
  assumes "c_rtt_least_move c" and "0 \<le> c_rtt_least_thresh c"
    and "next_route c (Some (Some p)) z = Inr rt" and "curr_peer rt \<noteq> curr_peer p"
    and "cmin_rtt p = Fin q" and "representable (Fin q)" and "z_min_rtt z = Fin x" and "0 \<le> x"
  shows "x < q \<and> curr_peer rt = z_peer_id z \<and> cmin_rtt rt = Fin x"
proof -
  have move: "least_move (c_rtt_least_thresh c) (cmin_rtt p) (z_min_rtt z)" and z: "z_peer_id z \<noteq> 0"
    using assms(1,3,4) by (auto simp: next_route_def rt_parm_new_def split: if_splits)
  then have "x < q" using least_move_less [OF assms(2,8,6)] assms(5,7) by simp
  then show ?thesis
    using assms(3,7) move z by (auto simp: next_route_def rt_parm_new_def)
qed

text \<open>The entries of a destination over several rounds, from its entry \<open>p\<close>.\<close>

fun routes_from :: "config \<Rightarrow> rt_parm \<Rightarrow> scan_choice list \<Rightarrow> rt_parm res" where
  "routes_from c p [] = Inr p"
| "routes_from c p (z # zs) = res_bind (next_route c (Some (Some p)) z) (\<lambda>rt. routes_from c rt zs)"

lemma zero_stays:
  assumes "c_rtt_least_move c" and "0 \<le> c_rtt_least_thresh c" and "cmin_rtt p = Fin 0"
    and "z_peer_id z = 0 \<longrightarrow> z_min_rtt z = Fin 0" and "z_min_rtt z = Fin x" and "0 \<le> x"
  obtains rt where "next_route c (Some (Some p)) z = Inr rt" and "curr_peer rt = curr_peer p"
    and "cmin_rtt rt = Fin 0"
proof -
  have "representable (Fin 0)" by simp
  then have "\<not> least_move (c_rtt_least_thresh c) (Fin 0) (Fin x)"
    using least_move_less [OF assms(2,6), of 0] assms(6) by auto
  then show thesis
    using that assms by (simp add: next_route_def rt_parm_new_def)
qed

text \<open>
  C36. One silent round pins a route: the scan stores 0 for a round without an answer, and with
  \<open>rtt_least_move\<close> no later round, whatever its measurements, moves the route to another peer.
\<close>

theorem silence_pins_route:
  assumes "c_rtt_least_move c" and "0 \<le> c_rtt_least_thresh c"
    and "scan_result (c_path_metric c) ps (m, 0) = Inr silent"
    and "next_route c (Some (Some p)) silent = Inr p1"
    and "\<forall>z \<in> set zs. (z_peer_id z = 0 \<longrightarrow> z_min_rtt z = Fin 0) \<and> (\<exists>x. z_min_rtt z = Fin x \<and> 0 \<le> x)"
  shows "\<exists>pn. routes_from c p1 zs = Inr pn \<and> curr_peer pn = curr_peer p \<and> cmin_rtt pn = Fin 0"
proof -
  have p1: "curr_peer p1 = curr_peer p" "cmin_rtt p1 = Fin 0"
    using assms(3,4) by (auto simp: scan_result_def next_route_def rt_parm_new_def)
  have "\<exists>pn. routes_from c q zs = Inr pn \<and> curr_peer pn = curr_peer q \<and> cmin_rtt pn = Fin 0"
    if "cmin_rtt q = Fin 0" for q
    using that assms(5)
  proof (induction zs arbitrary: q)
    case (Cons z zs)
    obtain x where x: "z_min_rtt z = Fin x" "0 \<le> x" "z_peer_id z = 0 \<longrightarrow> z_min_rtt z = Fin 0"
      using Cons.prems(2) by auto
    obtain rt where rt: "next_route c (Some (Some q)) z = Inr rt" "curr_peer rt = curr_peer q"
      "cmin_rtt rt = Fin 0"
      using zero_stays [OF assms(1,2) Cons.prems(1) x(3,1,2)] .
    then show ?case using Cons.IH [OF rt(3)] Cons.prems(2) by simp
  qed simp
  from this [OF p1(2)] show ?thesis by (simp add: p1(1))
qed

text \<open>
  The metrics 2 to 5 are accepted by the configuration but not implemented: under them the scan
  compares its initial 0 and always takes the first peer, whatever was measured.
\<close>

lemma other_metrics_first_peer:
  assumes "pm \<noteq> ''metric0''" and "pm \<noteq> ''metric1''" and "probe_id \<noteq> 0"
    and "entries ps = (p, seqs) # rest" and "dless (Fin 0) bound"
  shows "scan_select pm probe_id ps bound = Inr (Fin 0, p)"
proof -
  have rm: "read_metric pm old sq = Inr old" for old sq
    using assms(1,2) by (simp add: read_metric_def metric_of_def split: option.splits)
  have "scan_peers pm es (Fin 0, Fin 0, p) = Inr (Fin 0, Fin 0, p)" for es
    by (induction es) (auto simp: rm)
  then show ?thesis using assms(3-5) by (simp add: scan_select_def rm)
qed


section \<open>Examples\<close>

text \<open>Two peers that answered a destination: peer 1 in 12 ms and peer 2 in 10 ms.\<close>

definition example_seqs :: "rat \<Rightarrow> seq_map" where
  "example_seqs v = sm_put 99 (Some ((tparm_new (Fin 0) (Fin v) 0 7)\<lparr>tp_metric1 := Some (Fin v)\<rparr>)) sm_empty"

definition example_peers :: peer_map where
  "example_peers = sm_put 1 (example_seqs 12) (sm_put 2 (example_seqs 10) sm_empty)"

definition example_rdata :: rdata where
  "example_rdata = initial_rdata\<lparr>
     r := set_peers ''10.0.0.1'' 1 example_peers sm_empty,
     route := set_route ''10.0.0.1'' 0 (Some (rt_parm_new 0 (Fin 30) 1 (Fin 30))) sm_empty\<rparr>"

definition example_move :: config where
  "example_move = initial_config\<lparr>c_rtt_least_move := True, c_rtt_least_thresh := 10\<rparr>"

lemma entries_example: "entries example_peers = [(1, example_seqs 12), (2, example_seqs 10)]"
  by (simp add: example_peers_def sm_put.rep_eq)

lemma scan_ready_example: "scan_ready 1 example_rdata"
  by (auto simp: scan_ready_def example_rdata_def initial_rdata_def set_peers_def peers_of_def
      summarised_def entries_example example_seqs_def split: if_splits)

theorem scan_select_best_witness:
  "\<exists>best. scan_select ''metric0'' 1 example_peers (Fin 50000) = Inr best
    \<and> is_best (Fin 50000) (peer_values ''metric0'' example_peers) best"
  by (rule scan_select_best) (simp_all add: entries_example seq_value_def example_seqs_def tparm_new_def)

lemma example_scan: "\<exists>s' m'. pfr_route_scan initial_config 1 (example_rdata, Fin 50000) = Inr (s', m')"
proof -
  have keys: "sm_keys (r example_rdata) = [''10.0.0.1'']"
    by (simp add: example_rdata_def initial_rdata_def set_peers_def sm_modify_def sm_keys_def sm_put.rep_eq)
  have ps: "peers_of (r example_rdata) ''10.0.0.1'' 1 = example_peers"
    and rt: "route_at (route example_rdata) ''10.0.0.1'' 0 = Some (Some (rt_parm_new 0 (Fin 30) 1 (Fin 30)))"
    by (simp_all add: example_rdata_def initial_rdata_def)
  have "summarised example_peers"
    by (auto simp: summarised_def entries_example example_seqs_def)
  moreover have "(0::int) < 1" "Some (Some (rt_parm_new 0 (Fin 30) 1 (Fin 30))) \<noteq> Some None" by simp_all
  ultimately obtain sel z q where pieces: "scan_select ''metric0'' 1 example_peers (Fin 50000) = Inr sel"
    "scan_result ''metric0'' example_peers sel = Inr z"
    "next_route initial_config (Some (Some (rt_parm_new 0 (Fin 30) 1 (Fin 30)))) z = Inr q"
    using scan_one_total by metis
  have pm: "c_path_metric initial_config = ''metric0''" by (simp add: initial_config_def)
  have "\<exists>v. scan_dst initial_config 1 ''10.0.0.1'' (example_rdata, Fin 50000) = Inr v"
    using pieces by (simp add: scan_dst_pos ps rt pm)
  then show ?thesis by (auto simp: pfr_route_scan_def keys)
qed

theorem route_scan_local_witness:
  "\<exists>s' m'. pfr_route_scan initial_config 1 (example_rdata, Fin 50000) = Inr (s', m') \<and> m' = Fin 50000
    \<and> scan_one initial_config 1 ''10.0.0.1'' (dst_view 1 example_rdata ''10.0.0.1'')
        (dst_view 1 s' ''10.0.0.1'')"
proof -
  obtain s' m' where s: "pfr_route_scan initial_config 1 (example_rdata, Fin 50000) = Inr (s', m')"
    using example_scan by blast
  have "sm_find (r example_rdata) ''10.0.0.1'' \<noteq> None"
    by (simp add: example_rdata_def set_peers_def)
  then show ?thesis using route_scan_local [OF _ s, of "''10.0.0.1''"] s by auto
qed

theorem next_route_improves_witness:
  "let p = rt_parm_new 0 (Fin 30) 1 (Fin 30);
       z = \<lparr>z_peer_id = 2, z_min_rtt = Fin 10, z_avg_rtt = Fin 10, z_ts = 0, z_lost = 0,
            z_min_rtt1 = None, z_max_rtt = None, z_stddev_rtt = None, z_mediana_rtt = None\<rparr>;
       rt = rt_parm_new 1 (Fin 30) 2 (Fin 10)
   in next_route example_move (Some (Some p)) z = Inr rt \<and> (10 :: rat) < 30 \<and> curr_peer rt = z_peer_id z
      \<and> cmin_rtt rt = Fin 10"
  unfolding Let_def
proof (intro conjI)
  let ?p = "rt_parm_new 0 (Fin 30) 1 (Fin 30)"
  let ?z = "\<lparr>z_peer_id = 2, z_min_rtt = Fin 10, z_avg_rtt = Fin 10, z_ts = 0, z_lost = 0,
    z_min_rtt1 = None, z_max_rtt = None, z_stddev_rtt = None, z_mediana_rtt = None\<rparr>"
  let ?rt = "rt_parm_new 1 (Fin 30) 2 (Fin 10)"
  have "least_move 10 (Fin 30) (Fin 10)" by (simp add: least_move_def dbl_eval)
  then show n: "next_route example_move (Some (Some ?p)) ?z = Inr ?rt"
    by (simp add: next_route_def example_move_def rt_parm_new_def)
  have "representable (Fin 30)" by (simp add: dbl_eval)
  then have "(10 :: rat) < 30 \<and> curr_peer ?rt = z_peer_id ?z \<and> cmin_rtt ?rt = Fin 10"
    by (intro next_route_improves [OF _ _ n]) (simp_all add: example_move_def rt_parm_new_def)
  then show "(10 :: rat) < 30" "curr_peer ?rt = z_peer_id ?z" "cmin_rtt ?rt = Fin 10" by blast+
qed

theorem silence_pins_route_witness:
  "let p = rt_parm_new 0 (Fin 30) 1 (Fin 30);
       z0 = \<lparr>z_peer_id = 0, z_min_rtt = Fin 0, z_avg_rtt = Fin 0, z_ts = 0, z_lost = 0,
            z_min_rtt1 = Some (Fin 0), z_max_rtt = Some (Fin 0), z_stddev_rtt = Some (Fin 0),
            z_mediana_rtt = Some (Fin 0)\<rparr>;
       z = z0\<lparr>z_peer_id := 2, z_min_rtt := Fin 10\<rparr>
   in \<exists>pn. routes_from example_move (rt_parm_new 1 (Fin 30) 1 (Fin 0)) [z, z0, z] = Inr pn
        \<and> curr_peer pn = curr_peer p \<and> cmin_rtt pn = Fin 0"
  unfolding Let_def
  by (rule silence_pins_route [where ps = sm_empty and m = "Fin 50000" and silent =
        "\<lparr>z_peer_id = 0, z_min_rtt = Fin 0, z_avg_rtt = Fin 0, z_ts = 0, z_lost = 0,
          z_min_rtt1 = Some (Fin 0), z_max_rtt = Some (Fin 0), z_stddev_rtt = Some (Fin 0),
          z_mediana_rtt = Some (Fin 0)\<rparr>"])
    (simp_all add: example_move_def scan_result_def next_route_def rt_parm_new_def)

section \<open>From the measurements to the scan\<close>

lemma measured_summarised:
  assumes "measured_round req probe_id s s'" and "sm_find (r s) d \<noteq> None"
  shows "summarised (peers_of (r s') d probe_id)"
  unfolding summarised_def
proof (intro ballI, clarify)
  fix k seqs assume "(k, seqs) \<in> set (entries (peers_of (r s') d probe_id))"
  then have f: "sm_find (peers_of (r s') d probe_id) k = Some seqs" by (simp add: entries_iff_find)
  have "case sm_find (peers_of (r s) d probe_id) k of
      None \<Rightarrow> sm_find (peers_of (r s') d probe_id) k = None
    | Some seqs \<Rightarrow> (\<exists>tp tp'. sums_up req (rtts (entries seqs)) tp \<and> deviates (rtts (entries seqs)) tp tp'
        \<and> sm_find (peers_of (r s') d probe_id) k = Some (sm_put 99 (Some tp') seqs))"
    using assms unfolding measured_round_def by blast
  then obtain xs tp tp' seqs0 where "sums_up req xs tp" "deviates xs tp tp'" "seqs = sm_put 99 (Some tp') seqs0"
    using f by (auto split: option.splits)
  then show "\<exists>tp. sm_find seqs 99 = Some (Some tp) \<and> tp_metric1 tp \<noteq> None"
    by (auto simp: sums_up_def deviates_def)
qed

text \<open>
  For a round after the first, whose entries are answers and whose destinations have no null route in
  the round before, the three passes return, and the scan starts from correct summaries.
\<close>

lemma evaluation_passes:
  assumes "0 < probe_id" and "round_answered ppm probe_id s"
    and "\<forall>d. sm_find (r s) d \<noteq> None \<longrightarrow> route_at (route s) d (probe_id - 1) \<noteq> Some None"
  shows "\<exists>s1 s2 out. pfr_calc_avg_rtt c ppm probe_id s = Inr s1 \<and> pfr_calc_stddev_rtt probe_id s1 = Inr s2
    \<and> measured_round (c_pfr_ping_req c) probe_id s s2 \<and> pfr_route_scan c probe_id (s2, m) = Inr out"
proof -
  obtain s1 s2 where s: "pfr_calc_avg_rtt c ppm probe_id s = Inr s1" "pfr_calc_stddev_rtt probe_id s1 = Inr s2"
    "measured_round (c_pfr_ping_req c) probe_id s s2"
    using measure_passes [OF assms(2)] by blast
  have known: "sm_find (r s2) d \<noteq> None \<longleftrightarrow> sm_find (r s) d \<noteq> None" and rt: "route s2 = route s" for d
    using s(3) unfolding measured_round_def by blast+
  have "scan_ready probe_id s2"
    unfolding scan_ready_def known rt using measured_summarised [OF s(3)] assms(3) by blast
  then show ?thesis using route_scan_total [OF assms(1)] s by blast
qed

end
