(* ===== verification/Pfr_Routes.thy ===== *)
theory Pfr_Routes
  imports Pfr_Scan
begin

text \<open>
  The removal of destinations and of old rounds (\<open>src/src/pfr_rdata.cpp\<close>): \<open>pfr_route_free\<close>,
  \<open>pfr_route_update\<close>, \<open>pfr_delete\<close>, \<open>pfr_delete_all\<close> and \<open>pfr_delete_r_route\<close>.

  The loops that erase the entry they stand on are written as what they leave: an empty map.  The
  counters are kept.
\<close>


section \<open>\<open>pfr_route_free\<close>\<close>

text \<open>
  The round \<open>probe_id - 2\<close> of one destination: its samples are deleted, peer by peer, and so is its
  entry of \<open>route\<close>.  \<open>r[dst_ip][probe_id]\<close> creates an empty round and the erasures leave one.
\<close>

definition samples :: "peer_map \<Rightarrow> nat" where
  "samples ps = sum_list (map (\<lambda>(p, seqs). size seqs) (entries ps))"

definition free_dst :: "int \<Rightarrow> string \<Rightarrow> rdata \<Rightarrow> rdata" where
  "free_dst probe_id dst_ip s =
     s\<lparr>r := set_peers dst_ip probe_id sm_empty (r s),
       del_proc_v4_new_cnt := del_proc_v4_new_cnt s + int (samples (peers_of (r s) dst_ip probe_id)),
       route := sm_modify sm_empty dst_ip (sm_erase probe_id) (route s),
       del_scan_new_cnt := del_scan_new_cnt s + 1\<rparr>"

definition pfr_route_free :: "int \<Rightarrow> rdata \<Rightarrow> rdata" where
  "pfr_route_free probe_id s =
     (if probe_id < 2 then s else fold (free_dst (probe_id - 2)) (sm_keys (r s)) s)"


section \<open>\<open>pfr_delete\<close>\<close>

text \<open>\<open>pfr_delete_r_route\<close>: everything about a destination goes, and its route is withdrawn.\<close>

definition pfr_delete_r_route ::
  "(string \<Rightarrow> string option) \<Rightarrow> config \<Rightarrow> string \<Rightarrow> int
    \<Rightarrow> rdata \<times> 's rtr_state \<Rightarrow> (rdata \<times> 's rtr_state) res" where
  "pfr_delete_r_route popen c dst_ip peer_id = (\<lambda>(s, w).
     res_map (\<lambda>w'. (s\<lparr>r := sm_erase dst_ip (r s), route := sm_erase dst_ip (route s)\<rparr>, w'))
       (pfr_delete_set_jrouter_rt popen c peer_id dst_ip w))"

text \<open>
  The test: no logged round among the last \<open>deep_delete + 1\<close> has an answer.  A round without a log
  entry does not count.
\<close>

definition no_answer :: "log_map \<Rightarrow> string \<Rightarrow> int \<Rightarrow> int \<Rightarrow> bool" where
  "no_answer lg dst_ip probe_id deep_delete =
     list_all (\<lambda>i. case log_at lg dst_ip (probe_id - i) of
         None \<Rightarrow> True
       | Some l \<Rightarrow> tl_peer_id l = 0) [0..deep_delete]"

definition delete_if_routed ::
  "(string \<Rightarrow> string option) \<Rightarrow> config \<Rightarrow> int \<Rightarrow> string
    \<Rightarrow> rdata \<times> 's rtr_state \<Rightarrow> (rdata \<times> 's rtr_state) res" where
  "delete_if_routed popen c probe_id dst_ip = (\<lambda>(s, w).
     case sm_find (route s) dst_ip of
       None \<Rightarrow> Inr (s, w)
     | Some ps \<Rightarrow>
         (case sm_find ps probe_id of
            Some (Some rt) \<Rightarrow> pfr_delete_r_route popen c dst_ip (curr_peer rt) (s, w)
          | _ \<Rightarrow> Inr (s, w)))"

definition pfr_delete ::
  "(string \<Rightarrow> string option) \<Rightarrow> config \<Rightarrow> int
    \<Rightarrow> rdata \<times> 's rtr_state \<Rightarrow> (rdata \<times> 's rtr_state) res" where
  "pfr_delete popen c probe_id = (\<lambda>(s, w).
     if probe_id \<le> c_deep_delete c then Inr (s, w)
     else fold_res (\<lambda>dst_ip (s, w).
         if no_answer (route_log1 s) dst_ip probe_id (c_deep_delete c)
         then delete_if_routed popen c probe_id dst_ip (s, w) else Inr (s, w))
       (sm_keys (route_log1 s)) (s, w))"

definition pfr_delete_all ::
  "(string \<Rightarrow> string option) \<Rightarrow> config \<Rightarrow> int
    \<Rightarrow> rdata \<times> 's rtr_state \<Rightarrow> (rdata \<times> 's rtr_state) res" where
  "pfr_delete_all popen c probe_id = (\<lambda>(s, w).
     fold_res (delete_if_routed popen c probe_id) (sm_keys (route_log1 s)) (s, w))"


section \<open>\<open>pfr_route_update\<close>\<close>

text \<open>
  The body for a destination that the list no longer holds.  The variable \<open>probe_id\<close> is the loop
  variable of the inner loop too: afterwards it is the last round erased.
\<close>

definition update_gone ::
  "(string \<Rightarrow> string option) \<Rightarrow> config \<Rightarrow> string
    \<Rightarrow> int \<times> rdata \<times> 's rtr_state \<Rightarrow> (int \<times> rdata \<times> 's rtr_state) res" where
  "update_gone popen c dst_ip = (\<lambda>(probe_id, s, w).
     let rounds = sm_at sm_empty (r s) dst_ip
     in res_map (\<lambda>w'.
          (if sm_keys rounds = [] then probe_id else last (sm_keys rounds),
           s\<lparr>r := sm_erase dst_ip (r s), route := sm_erase dst_ip (route s),
             del_proc_v4_new_cnt := del_proc_v4_new_cnt s
               + int (sum_list (map (\<lambda>(p, ps). size ps) (entries rounds))),
             del_scan_new_cnt := del_scan_new_cnt s + 1\<rparr>, w'))
        (case route_at (route s) dst_ip (probe_id - 1) of
           None \<Rightarrow> Inr w
         | Some None \<Rightarrow> Inl null_deref
         | Some (Some rt) \<Rightarrow>
             (if curr_peer rt > 0 then pfr_delete_set_jrouter_rt popen c (curr_peer rt) dst_ip w
              else Inr w)))"

text \<open>
  The loop over \<open>r\<close>.  After the body has erased the entry that its iterator stands on, the loop
  increments that iterator, which is undefined.
\<close>

fun route_update_loop ::
  "(string \<Rightarrow> string option) \<Rightarrow> config \<Rightarrow> string list \<Rightarrow> string list
    \<Rightarrow> int \<times> rdata \<times> 's rtr_state \<Rightarrow> (int \<times> rdata \<times> 's rtr_state) res" where
  "route_update_loop popen c dst_list [] st = Inr st"
| "route_update_loop popen c dst_list (dst_ip # rest) st =
     (if dst_ip \<in> set dst_list then route_update_loop popen c dst_list rest st
      else res_bind (update_gone popen c dst_ip st)
        (\<lambda>_. Inl (Undefined_Behaviour ''increment of an erased iterator'')))"

definition pfr_route_update ::
  "(string \<Rightarrow> string option) \<Rightarrow> config \<Rightarrow> int \<Rightarrow> string list
    \<Rightarrow> rdata \<times> 's rtr_state \<Rightarrow> (rdata \<times> 's rtr_state) res" where
  "pfr_route_update popen c probe_id dst_list = (\<lambda>(s, w).
     res_map snd (route_update_loop popen c dst_list (sm_keys (r s)) (probe_id, s, w)))"


section \<open>Facts: the removal of old rounds\<close>

lemma route_at_erase [simp]:
  "route_at (sm_modify sm_empty d (sm_erase p) m) d' p'
    = (if d' = d \<and> p' = p then None else route_at m d' p')"
  by (simp add: route_at_def)

lemma free_dst_simps [simp]:
  "peers_of (r (free_dst p d s)) d' p' = (if d' = d \<and> p' = p then sm_empty else peers_of (r s) d' p')"
  "route_at (route (free_dst p d s)) d' p' = (if d' = d \<and> p' = p then None else route_at (route s) d' p')"
  "route_log1 (free_dst p d s) = route_log1 s"
  "del_proc_v4_new_cnt (free_dst p d s) = del_proc_v4_new_cnt s + int (samples (peers_of (r s) d p))"
  by (simp_all add: free_dst_def)

lemma free_dsts:
  assumes "distinct ds"
  shows "peers_of (r (fold (free_dst p) ds s)) d' p'
      = (if d' \<in> set ds \<and> p' = p then sm_empty else peers_of (r s) d' p')"
    and "route_at (route (fold (free_dst p) ds s)) d' p'
      = (if d' \<in> set ds \<and> p' = p then None else route_at (route s) d' p')"
    and "route_log1 (fold (free_dst p) ds s) = route_log1 s"
    and "del_proc_v4_new_cnt (fold (free_dst p) ds s)
      = del_proc_v4_new_cnt s + int (\<Sum>d \<leftarrow> ds. samples (peers_of (r s) d p))"
proof -
  show "peers_of (r (fold (free_dst p) ds s)) d' p'
      = (if d' \<in> set ds \<and> p' = p then sm_empty else peers_of (r s) d' p')"
    by (induction ds arbitrary: s) auto
  show "route_at (route (fold (free_dst p) ds s)) d' p'
      = (if d' \<in> set ds \<and> p' = p then None else route_at (route s) d' p')"
    by (induction ds arbitrary: s) auto
  show "route_log1 (fold (free_dst p) ds s) = route_log1 s"
    by (induction ds arbitrary: s) auto
  show "del_proc_v4_new_cnt (fold (free_dst p) ds s)
      = del_proc_v4_new_cnt s + int (\<Sum>d \<leftarrow> ds. samples (peers_of (r s) d p))"
    using assms
  proof (induction ds arbitrary: s)
    case (Cons d ds)
    have "(\<Sum>e \<leftarrow> ds. samples (if e = d then sm_empty else peers_of (r s) e p))
        = (\<Sum>e \<leftarrow> ds. samples (peers_of (r s) e p))"
      using Cons.prems by (intro arg_cong [where f = sum_list] map_cong) auto
    then show ?case using Cons by simp
  qed simp
qed

lemma free_dsts_keys:
  "sm_find (route (fold (free_dst p) ds s)) e \<noteq> None \<longleftrightarrow> e \<in> set ds \<or> sm_find (route s) e \<noteq> None"
  "sm_find (r (fold (free_dst p) ds s)) e \<noteq> None \<longleftrightarrow> e \<in> set ds \<or> sm_find (r s) e \<noteq> None"
  by (induction ds arbitrary: s) (auto simp: free_dst_def set_peers_def)

text \<open>\<open>pfr_route_free\<close> as the later steps see it.\<close>

lemma route_free_keeps:
  shows "route_at (route (pfr_route_free n s)) e n = route_at (route s) e n"
    and "sm_find (route (pfr_route_free n s)) e \<noteq> None
      \<Longrightarrow> sm_find (route s) e \<noteq> None \<or> sm_find (r s) e \<noteq> None"
    and "sm_find (route s) e \<noteq> None \<Longrightarrow> sm_find (route (pfr_route_free n s)) e \<noteq> None"
    and "sm_find (r (pfr_route_free n s)) e \<noteq> None \<longleftrightarrow> sm_find (r s) e \<noteq> None"
    and "route_log1 (pfr_route_free n s) = route_log1 s"
proof -
  show "route_at (route (pfr_route_free n s)) e n = route_at (route s) e n"
    using free_dsts(2) [OF smap.distinct_keys [of "r s"], of "n - 2" s e n] by (simp add: pfr_route_free_def)
  show "sm_find (route (pfr_route_free n s)) e \<noteq> None \<Longrightarrow> sm_find (route s) e \<noteq> None \<or> sm_find (r s) e \<noteq> None"
    and "sm_find (route s) e \<noteq> None \<Longrightarrow> sm_find (route (pfr_route_free n s)) e \<noteq> None"
    and "sm_find (r (pfr_route_free n s)) e \<noteq> None \<longleftrightarrow> sm_find (r s) e \<noteq> None"
    using free_dsts_keys [of "n - 2" "sm_keys (r s)" s e]
    by (auto simp: pfr_route_free_def sm_in_keys simp del: not_None_eq split: if_splits)
  show "route_log1 (pfr_route_free n s) = route_log1 s"
    using free_dsts(3) [OF smap.distinct_keys [of "r s"]] by (simp add: pfr_route_free_def)
qed

text \<open>
  C21. \<open>pfr_route_free\<close> keeps the memory of the last two rounds: from round 2 on it empties, for every
  destination, exactly the round before the last one, samples and route, and counts the samples it
  deletes; all the other rounds, the log included, stay.
\<close>

theorem route_free_one_round:
  "if probe_id < 2 then pfr_route_free probe_id s = s
   else (\<forall>d p. peers_of (r (pfr_route_free probe_id s)) d p
          = (if sm_find (r s) d \<noteq> None \<and> p = probe_id - 2 then sm_empty else peers_of (r s) d p))
     \<and> (\<forall>d p. route_at (route (pfr_route_free probe_id s)) d p
          = (if sm_find (r s) d \<noteq> None \<and> p = probe_id - 2 then None else route_at (route s) d p))
     \<and> route_log1 (pfr_route_free probe_id s) = route_log1 s
     \<and> del_proc_v4_new_cnt (pfr_route_free probe_id s) = del_proc_v4_new_cnt s
          + int (\<Sum>d \<leftarrow> sm_keys (r s). samples (peers_of (r s) d (probe_id - 2)))"
  by (auto simp add: pfr_route_free_def sm_in_keys
      free_dsts [OF smap.distinct_keys [of "r s"], of "probe_id - 2" s])


section \<open>Facts: the removal of destinations\<close>

definition routed :: "route_map \<Rightarrow> int \<Rightarrow> string \<Rightarrow> rt_parm option" where
  "routed m probe_id d = (case sm_find m d of
       None \<Rightarrow> None
     | Some ps \<Rightarrow> (case sm_find ps probe_id of Some (Some rt) \<Rightarrow> Some rt | _ \<Rightarrow> None))"

text \<open>The calls that withdraw the routes of the destinations \<open>ds\<close>.\<close>

definition withdrawals :: "config \<Rightarrow> peer_table \<Rightarrow> int \<Rightarrow> route_map \<Rightarrow> string list \<Rightarrow> rib_call list" where
  "withdrawals c m probe_id rts ds =
     map (\<lambda>d. del_call c d (sm_at pfr_peer_default m (curr_peer (the (routed rts probe_id d))))) ds"

definition forget :: "string list \<Rightarrow> rdata \<Rightarrow> rdata" where
  "forget ds s = s\<lparr>r := fold sm_erase ds (r s), route := fold sm_erase ds (route s)\<rparr>"

lemma forget_simps [simp]:
  "sm_find (r (forget ds s)) d = (if d \<in> set ds then None else sm_find (r s) d)"
  "sm_find (route (forget ds s)) d = (if d \<in> set ds then None else sm_find (route s) d)"
  "route_log1 (forget ds s) = route_log1 s"
  by (simp_all add: forget_def smap.find_fold_erase)

lemma delete_if_routed_simp:
  "delete_if_routed popen c probe_id d (s, w) = (case routed (route s) probe_id d of
      None \<Rightarrow> Inr (s, w)
    | Some rt \<Rightarrow> pfr_delete_r_route popen c d (curr_peer rt) (s, w))"
  by (auto simp: delete_if_routed_def routed_def split: option.split)

lemma delete_r_route_ready:
  assumes "peer_ready popen c (mm w) k"
  shows "\<exists>w'. pfr_delete_r_route popen c d k (s, w) = Inr (forget [d] s, w') \<and> mm w' = mm w
    \<and> calls w' = calls w @ [del_call c d (sm_at pfr_peer_default (mm w) k)]"
proof -
  obtain p where "sm_find (mm w) k = Some p" "usable popen c p" using assms by (auto simp: peer_ready_def)
  then show ?thesis
    by (simp add: pfr_delete_r_route_def pfr_delete_set_jrouter_rt_def touch_peer_present peer_at_def
        sm_find_Some_at rib_del_ok Let_def forget_def)
qed

lemma routed_forget: "routed (route (forget ds s)) p d = (if d \<in> set ds then None else routed (route s) p d)"
  by (simp add: routed_def)

lemma delete_fold:
  fixes s :: rdata and w :: "'s rtr_state"
  assumes "distinct ds"
    and "\<forall>d \<in> set ds. \<forall>rt. Q (route_log1 s) d \<and> routed (route s) probe_id d = Some rt
      \<longrightarrow> peer_ready popen c (mm w) (curr_peer rt)"
  defines "gone \<equiv> filter (\<lambda>d. Q (route_log1 s) d \<and> routed (route s) probe_id d \<noteq> None) ds"
  shows "\<exists>w'. fold_res (\<lambda>d (s, w). if Q (route_log1 s) d then delete_if_routed popen c probe_id d (s, w)
        else Inr (s, w)) ds (s, w) = Inr (forget gone s, w')
    \<and> mm w' = mm w \<and> calls w' = calls w @ withdrawals c (mm w) probe_id (route s) gone"
  using assms(1,2) unfolding gone_def
proof (induction ds arbitrary: s w)
  case Nil
  then show ?case by (simp add: forget_def withdrawals_def)
next
  case (Cons d ds)
  let ?f = "\<lambda>d (s, w). if Q (route_log1 s) d then delete_if_routed popen c probe_id d (s, w) else Inr (s, w)"
  let ?g = "\<lambda>s ds. filter (\<lambda>d. Q (route_log1 s) d \<and> routed (route s) probe_id d \<noteq> None) ds"
  show ?case
  proof (cases "Q (route_log1 s) d \<and> routed (route s) probe_id d \<noteq> None")
    case False
    then have "?f d (s, w) = Inr (s, w)" by (auto simp: delete_if_routed_simp)
    moreover have "?g s (d # ds) = ?g s ds" using False by simp
    ultimately show ?thesis using Cons.IH [of s w] Cons.prems by simp
  next
    case True
    then obtain rt where rt: "Q (route_log1 s) d" "routed (route s) probe_id d = Some rt" by auto
    then have "peer_ready popen c (mm w) (curr_peer rt)" using Cons.prems(2) by simp
    from delete_r_route_ready [OF this, of d s] obtain w1 where
      w1: "?f d (s, w) = Inr (forget [d] s, w1)" "mm w1 = mm w"
      "calls w1 = calls w @ [del_call c d (sm_at pfr_peer_default (mm w) (curr_peer rt))]"
      using rt by (auto simp: delete_if_routed_simp)
    have g: "?g (forget [d] s) ds = ?g s ds"
      using Cons.prems(1) by (auto simp: routed_forget intro!: filter_cong)
    have w: "withdrawals c (mm w) probe_id (route (forget [d] s)) (?g (forget [d] s) ds)
        = withdrawals c (mm w) probe_id (route s) (?g s ds)"
      unfolding g using Cons.prems(1) by (auto simp: withdrawals_def routed_forget)
    have "\<forall>e \<in> set ds. \<forall>rt. Q (route_log1 (forget [d] s)) e
        \<and> routed (route (forget [d] s)) probe_id e = Some rt \<longrightarrow> peer_ready popen c (mm w1) (curr_peer rt)"
      using Cons.prems(2) by (simp add: w1(2) routed_forget)
    then obtain w' where w': "fold_res ?f ds (forget [d] s, w1) = Inr (forget (?g s ds) (forget [d] s), w')"
      "mm w' = mm w" "calls w' = calls w1 @ withdrawals c (mm w) probe_id (route s) (?g s ds)"
      using Cons.IH [of "forget [d] s" w1] Cons.prems(1) w unfolding w1(2) g by auto
    have "fold_res ?f (d # ds) (s, w) = fold_res ?f ds (forget [d] s, w1)"
      using w1(1) by simp
    also have "forget (?g s ds) (forget [d] s) = forget (?g s (d # ds)) s"
      using rt by (simp add: forget_def)
    then have "fold_res ?f ds (forget [d] s, w1) = Inr (forget (?g s (d # ds)) s, w')"
      unfolding w'(1) by simp
    finally have "fold_res ?f (d # ds) (s, w) = Inr (forget (?g s (d # ds)) s, w')" .
    moreover have "calls w1 @ withdrawals c (mm w) probe_id (route s) (?g s ds)
        = calls w @ withdrawals c (mm w) probe_id (route s) (?g s (d # ds))"
      using rt w1(3) by (simp add: withdrawals_def)
    ultimately show ?thesis using w'(2,3) by (intro exI [of _ w'] conjI) simp_all
  qed
qed


text \<open>Nothing is removed in a round in which every destination with a route has an answer.\<close>

lemma delete_nothing:
  assumes "0 \<le> c_deep_delete c"
    and "\<And>d rt. routed (route s) probe_id d = Some rt
      \<Longrightarrow> \<exists>l. log_at (route_log1 s) d probe_id = Some l \<and> tl_peer_id l \<noteq> 0"
  shows "pfr_delete popen c probe_id (s, w) = Inr (s, w)"
proof -
  have "(if no_answer (route_log1 s) d probe_id (c_deep_delete c)
      then delete_if_routed popen c probe_id d (s, w) else Inr (s, w)) = Inr (s, w)" for d
  proof (cases "routed (route s) probe_id d")
    case None
    then show ?thesis by (simp add: delete_if_routed_def routed_def split: option.splits)
  next
    case (Some rt)
    then obtain l where "log_at (route_log1 s) d (probe_id - 0) = Some l" "tl_peer_id l \<noteq> 0"
      using assms(2) by fastforce
    then have "\<not> no_answer (route_log1 s) d probe_id (c_deep_delete c)"
      using assms(1) by (force simp: no_answer_def list_all_iff)
    then show ?thesis by simp
  qed
  then have "fold_res (\<lambda>d (s, w). if no_answer (route_log1 s) d probe_id (c_deep_delete c)
      then delete_if_routed popen c probe_id d (s, w) else Inr (s, w)) ds (s, w) = Inr (s, w)" for ds
    by (induction ds) simp_all
  then show ?thesis by (simp add: pfr_delete_def)
qed

text \<open>\<open>pfr_delete_all\<close>: every logged destination that has a route.\<close>

lemma delete_all:
  assumes "\<forall>d rt. routed (route s) probe_id d = Some rt \<longrightarrow> peer_ready popen c (mm w) (curr_peer rt)"
  shows "\<exists>w'. pfr_delete_all popen c probe_id (s, w)
      = Inr (forget (filter (\<lambda>d. routed (route s) probe_id d \<noteq> None) (sm_keys (route_log1 s))) s, w')
    \<and> mm w' = mm w \<and> calls w' = calls w @ withdrawals c (mm w) probe_id (route s)
        (filter (\<lambda>d. routed (route s) probe_id d \<noteq> None) (sm_keys (route_log1 s)))"
  using delete_fold [of "sm_keys (route_log1 s)" "\<lambda>_ _. True" s probe_id popen c w] assms
    smap.distinct_keys [of "route_log1 s"]
  by (simp add: pfr_delete_all_def case_prod_unfold)


section \<open>Facts: the update of the destinations\<close>

lemma route_update_loop_Inr:
  "route_update_loop popen c dst_list ds st = Inr st' \<longleftrightarrow> set ds \<subseteq> set dst_list \<and> st' = st"
  by (induction ds) (auto simp: res_bind_Inr_iff)

lemma route_update_listed:
  assumes "\<And>d. sm_find (r s) d \<noteq> None \<Longrightarrow> d \<in> set dst_list"
  shows "pfr_route_update popen c probe_id dst_list (s, w) = Inr (s, w)"
  using assms
  by (auto simp: pfr_route_update_def res_map_Inr_iff route_update_loop_Inr subset_iff sm_in_keys)



section \<open>Examples\<close>

definition example_silent :: rdata where
  "example_silent = initial_rdata\<lparr>
     route := set_route ''10.0.0.1'' 4 (Some (rt_parm_new 1 (Fin 0) 1 (Fin 0))) sm_empty,
     route_log1 := set_log ''10.0.0.1'' 4
       (tlog_new 0 (Fin 0) (Fin 0) None None None None 0 0) sm_empty\<rparr>"

lemma example_silent_ready:
  "routed (route example_silent) 4 d = Some rt
    \<Longrightarrow> peer_ready (\<lambda>_. Some []) initial_config (mm example_routers) (curr_peer rt)"
  by (auto simp: routed_def example_silent_def set_route_def initial_rdata_def example_routers_def
      peer_ready_def example_table_def usable_def initial_config_def rt_parm_new_def split: if_splits)


end
