(* ===== verification/Pfr_Sql_Log.thy ===== *)
theory Pfr_Sql_Log
  imports Pfr_Scan
begin

text \<open>
  The log in the database: the class \<open>pfr_sql_log\<close> (\<open>src/src/pfr_sql_log.h\<close>, \<open>pfr_sql_log.cpp\<close>), and
  the thread \<open>pfr_route_scan_sql\<close> (\<open>pfr_rdata.cpp\<close>) that writes a row for every destination of a round.

  The statements sent to the database are recorded; what \<open>PQexec\<close> answers is a parameter.  A stream
  prints a \<open>double\<close> as \<open>printf\<close> does with \<open>%g\<close>.
\<close>


section \<open>Printing a double\<close>

text \<open>
  The exponent of the first significant decimal digit.  A value below 1 is scaled up at most 400 times:
  the smallest positive \<open>double\<close> is above \<open>10 ^ -324\<close>.
\<close>

fun small_exp10 :: "nat \<Rightarrow> rat \<Rightarrow> int" where
  "small_exp10 0 q = 0"
| "small_exp10 (Suc n) q = (if 1 \<le> q then 0 else small_exp10 n (10 * q) - 1)"

definition exp10 :: "rat \<Rightarrow> int" where
  "exp10 q = (if 1 \<le> q then int (length (nat_to_string (nat \<lfloor>q\<rfloor>))) - 1 else small_exp10 400 q)"

definition pow10 :: "int \<Rightarrow> rat" where
  "pow10 e = (if 0 \<le> e then 10 ^ nat e else 1 / 10 ^ nat (- e))"

text \<open>Six significant digits, and the exponent after rounding.\<close>

definition six_digits :: "rat \<Rightarrow> nat \<times> int" where
  "six_digits q = (let e = exp10 q; n = nat (rhe (q / pow10 (e - 5)))
     in if n = 1000000 then (100000, e + 1) else (n, e))"

definition strip_zeros :: "string \<Rightarrow> string" where
  "strip_zeros s = rev (dropWhile (\<lambda>c. c = CHR ''0'') (rev s))"

definition with_fraction :: "string \<Rightarrow> string \<Rightarrow> string" where
  "with_fraction whole fs =
     (let f = strip_zeros fs in if f = [] then whole else whole @ ''.'' @ f)"

definition exponent_text :: "int \<Rightarrow> string" where
  "exponent_text x = (let d = nat_to_string (nat \<bar>x\<bar>)
     in (if x < 0 then ''e-'' else ''e+'') @ (if length d < 2 then ''0'' @ d else d))"

definition format_positive :: "rat \<Rightarrow> string" where
  "format_positive q =
     (let (n, x) = six_digits q; ds = nat_to_string n
      in if x < - 4 \<or> 6 \<le> x then with_fraction (take 1 ds) (drop 1 ds) @ exponent_text x
         else if 0 \<le> x then with_fraction (take (nat x + 1) ds) (drop (nat x + 1) ds)
         else with_fraction ''0'' (replicate (nat (- x - 1)) CHR ''0'' @ ds))"

fun show_double :: "double \<Rightarrow> string" where
  "show_double NaN = ''nan''"
| "show_double (Inf s) = (if s then ''-inf'' else ''inf'')"
| "show_double (Fin q) =
     (if q = 0 then ''0''
      else if q < 0 then ''-'' @ format_positive (- q) else format_positive q)"


section \<open>\<open>pfr_sql_log\<close>\<close>

datatype pg_result = Pg_null | Pg_ok | Pg_error

text \<open>Without logging the constructor leaves \<open>allow_sql_log\<close> and the connection without values.\<close>

record pfr_sql_log =
  allow_sql_log :: "bool option"
  ins_head :: string
  ins_multi :: string
  statements :: "string list"

definition first_head :: string where
  "first_head = ''insert into pfr_log (datetime, ccase_id, ipv4_dest_address, probe_id, peer_id, pkts, rtt_min, rtt_avg, max_rtt, stddev_rtt, mediana_rtt ,pkt_loss, ts) values ''"

definition next_head :: string where
  "next_head = ''insert into pfr_log (datetime, ccase_id, ipv4_dest_address, probe_id, peer_id, pkts, rtt_min, rtt_avg, max_rtt, stddev_rtt, mediana_rtt, pkt_loss, ts) values ''"

definition pfr_sql_log_new :: "bool \<Rightarrow> bool \<Rightarrow> pfr_sql_log res" where
  "pfr_sql_log_new db_up allow =
     (if \<not> allow
      then Inr \<lparr>allow_sql_log = None, ins_head = [], ins_multi = [], statements = []\<rparr>
      else if \<not> db_up then Inl (Exit 1)
      else Inr \<lparr>allow_sql_log = Some True, ins_head = first_head, ins_multi = [], statements = []\<rparr>)"

text \<open>The numbers of a row.\<close>

record log_row =
  lr_ccase :: int
  lr_dst_ip :: string
  lr_probe_id :: int
  lr_peer_id :: int
  lr_min_rtt :: double
  lr_avg_rtt :: double
  lr_max_rtt :: double
  lr_stddev_rtt :: double
  lr_mediana_rtt :: double
  lr_lost :: int
  lr_ts :: int

definition row_text :: "int \<Rightarrow> log_row \<Rightarrow> string" where
  "row_text pfr_ping_req l =
     '' (now(), '' @ to_string (lr_ccase l) @ '', '' @ [CHR 0x27] @ lr_dst_ip l @ [CHR 0x27] @ '', ''
     @ to_string (lr_probe_id l) @ '', '' @ to_string (lr_peer_id l) @ '', ''
     @ to_string pfr_ping_req @ '', '' @ show_double (lr_min_rtt l) @ '', ''
     @ show_double (lr_avg_rtt l) @ '', '' @ show_double (lr_max_rtt l) @ '', ''
     @ show_double (lr_stddev_rtt l) @ '', '' @ show_double (lr_mediana_rtt l) @ '', ''
     @ to_string (lr_lost l) @ '', '' @ to_string (lr_ts l) @ '')''"

definition sql_insert :: "int \<Rightarrow> log_row \<Rightarrow> pfr_sql_log \<Rightarrow> pfr_sql_log res" where
  "sql_insert pfr_ping_req l s = (case allow_sql_log s of
       None \<Rightarrow> Inl uninitialised
     | Some a \<Rightarrow> Inr (if a then s\<lparr>ins_multi := ins_multi s @ row_text pfr_ping_req l @ '', ''\<rparr> else s))"

text \<open>
  A failed command is cleared twice: \<open>PQclear\<close> in the branch and \<open>PQclear\<close> behind it.
\<close>

definition pq_exec :: "(string \<Rightarrow> pg_result) \<Rightarrow> string \<Rightarrow> pfr_sql_log \<Rightarrow> pfr_sql_log res" where
  "pq_exec exec cmd s = (case exec cmd of
       Pg_error \<Rightarrow> Inl (Undefined_Behaviour ''double free'')
     | _ \<Rightarrow> Inr (s\<lparr>statements := statements s @ [cmd]\<rparr>))"

definition sql_insert1 ::
  "(string \<Rightarrow> pg_result) \<Rightarrow> int \<Rightarrow> string \<Rightarrow> int \<Rightarrow> int \<Rightarrow> double \<Rightarrow> double \<Rightarrow> int \<Rightarrow> int
    \<Rightarrow> pfr_sql_log \<Rightarrow> pfr_sql_log res" where
  "sql_insert1 exec ccase dst_ip probe_id peer_id min_rtt avg_rtt lost ts s =
     (case allow_sql_log s of
        None \<Rightarrow> Inl uninitialised
      | Some a \<Rightarrow>
          (if a then pq_exec exec
             (''insert into pfr_log (datetime, ccase_id, ipv4_dest_address, probe_id, peer_id, pkts, rtt_min, rtt_avg, pkt_loss, ts) ''
              @ ''values (now(), '' @ to_string ccase @ '', '' @ [CHR 0x27] @ dst_ip @ [CHR 0x27] @ '', ''
              @ to_string probe_id @ '', '' @ to_string peer_id @ '', 5, '' @ show_double min_rtt
              @ '', '' @ show_double avg_rtt @ '', '' @ to_string lost @ '', '' @ to_string ts @ '');'') s
           else Inr s))"

text \<open>\<open>substr(0, size() - 2)\<close>: the size is unsigned, so that a short string stays whole.\<close>

definition drop_last_two :: "string \<Rightarrow> string" where
  "drop_last_two s = (if length s < 2 then s else take (length s - 2) s)"

definition sql_commit :: "(string \<Rightarrow> pg_result) \<Rightarrow> pfr_sql_log \<Rightarrow> pfr_sql_log res" where
  "sql_commit exec s =
     res_map (\<lambda>s'. s'\<lparr>ins_head := next_head, ins_multi := []\<rparr>)
       (pq_exec exec (ins_head s @ drop_last_two (ins_multi s) @ '';'') s)"


section \<open>\<open>pfr_route_scan_sql\<close>\<close>

text \<open>
  The choice is that of the scan, always by \<open>metric0\<close>; the row names the case.  What the route of the
  round before holds is only logged, through its pointer.
\<close>

definition defined_double :: "double option \<Rightarrow> double res" where
  "defined_double x = (case x of None \<Rightarrow> Inl uninitialised | Some d \<Rightarrow> Inr d)"

definition sql_row :: "int \<Rightarrow> string \<Rightarrow> int \<Rightarrow> peer_map \<Rightarrow> int \<Rightarrow> log_row res" where
  "sql_row ccase dst_ip probe_id ps peer_id =
     (if peer_id \<noteq> 0 then
        (case sm_at None (sm_at sm_empty ps peer_id) 99 of
           None \<Rightarrow> Inl null_deref
         | Some tp \<Rightarrow>
             res_bind (defined_double (tp_min_rtt tp)) (\<lambda>mn.
             res_bind (defined_double (tp_max_rtt tp)) (\<lambda>mx.
             res_bind (defined_double (tp_stddev_rtt tp)) (\<lambda>sd.
             res_bind (defined_double (tp_mediana_rtt tp)) (\<lambda>md.
             Inr \<lparr>lr_ccase = ccase, lr_dst_ip = dst_ip, lr_probe_id = probe_id, lr_peer_id = peer_id,
               lr_min_rtt = mn, lr_avg_rtt = tp_avg_rtt tp, lr_max_rtt = mx, lr_stddev_rtt = sd,
               lr_mediana_rtt = md, lr_lost = tp_lost tp, lr_ts = tp_timestamp tp\<rparr>)))))
      else Inr \<lparr>lr_ccase = ccase, lr_dst_ip = dst_ip, lr_probe_id = probe_id, lr_peer_id = 0,
        lr_min_rtt = Fin 0, lr_avg_rtt = Fin 0, lr_max_rtt = Fin 0, lr_stddev_rtt = Fin 0,
        lr_mediana_rtt = Fin 0, lr_lost = 0, lr_ts = 0\<rparr>)"

definition sql_case :: "int \<Rightarrow> rt_parm option option \<Rightarrow> int \<Rightarrow> int res" where
  "sql_case probe_id prev peer_id =
     (if probe_id = 0 then Inr 10
      else (case prev of
          None \<Rightarrow> Inr 11
        | Some None \<Rightarrow> Inl null_deref
        | Some (Some _) \<Rightarrow> Inr (if peer_id = 0 then 20 else 21)))"

definition sql_dst ::
  "config \<Rightarrow> int \<Rightarrow> string \<Rightarrow> (rdata \<times> double) \<times> pfr_sql_log \<Rightarrow> ((rdata \<times> double) \<times> pfr_sql_log) res" where
  "sql_dst c probe_id dst_ip = (\<lambda>((s, min_rtt), l).
     let ps = peers_of (r s) dst_ip probe_id;
         s1 = s\<lparr>r := set_peers dst_ip probe_id (touch99 probe_id ps) (r s),
                scan_new_cnt := scan_new_cnt s + (if probe_id = 0 \<and> entries ps \<noteq> [] then 1 else 0)\<rparr>
     in res_bind (scan_select ''metric0'' probe_id ps min_rtt) (\<lambda>sel.
        res_bind (sql_row 0 dst_ip probe_id ps (snd sel)) (\<lambda>row.
        if probe_id < 0 then Inr ((s1, Fin 50000), l)
        else res_bind (sql_case probe_id (route_at (route s) dst_ip (probe_id - 1)) (snd sel)) (\<lambda>k.
             res_map (\<lambda>l'. ((s1, Fin 50000), l'))
               (sql_insert (c_pfr_ping_req c) (row\<lparr>lr_ccase := k\<rparr>) l)))))"

text \<open>
  \<open>pfr_sql_log sql_log = thl->log\<close> converts the pointer to \<open>true\<close>: the thread's log is a new one that
  is always enabled.
\<close>

definition pfr_route_scan_sql ::
  "(string \<Rightarrow> pg_result) \<Rightarrow> bool \<Rightarrow> config \<Rightarrow> int
    \<Rightarrow> rdata \<times> double \<Rightarrow> ((rdata \<times> double) \<times> string list) res" where
  "pfr_route_scan_sql exec db_up c probe_id s =
     res_bind (pfr_sql_log_new db_up True) (\<lambda>l0.
     res_bind (fold_res (sql_dst c probe_id) (sm_keys (r (fst s))) (s, l0)) (\<lambda>(s', l).
     res_map (\<lambda>l'. (s', statements l')) (sql_commit exec l)))"


section \<open>Facts\<close>

text \<open>What a sequence of insertions and a commit sends.\<close>

fun comma_list :: "string list \<Rightarrow> string" where
  "comma_list [] = []"
| "comma_list [x] = x"
| "comma_list (x # y # xs) = x @ '', '' @ comma_list (y # xs)"

lemma comma_list_concat:
  "xs \<noteq> [] \<Longrightarrow> concat (map (\<lambda>x. x @ '', '') xs) = comma_list xs @ '', ''"
  by (induction xs rule: comma_list.induct) auto

lemma sql_inserts:
  assumes "allow_sql_log s = Some True"
  shows "fold_res (sql_insert req) ls s
    = Inr (s\<lparr>ins_multi := ins_multi s @ concat (map (\<lambda>l. row_text req l @ '', '') ls)\<rparr>)"
  using assms by (induction ls arbitrary: s) (simp_all add: sql_insert_def)

lemma sql_commit_rows:
  assumes "ls \<noteq> []" and "exec (ins_head s @ comma_list (map (row_text req) ls) @ '';'') \<noteq> Pg_error"
    and "ins_multi s = concat (map (\<lambda>l. row_text req l @ '', '') ls)"
  shows "sql_commit exec s = Inr (s\<lparr>ins_head := next_head, ins_multi := [],
    statements := statements s @ [ins_head s @ comma_list (map (row_text req) ls) @ '';'']\<rparr>)"
proof -
  have "ins_multi s = comma_list (map (row_text req) ls) @ '', ''"
    using comma_list_concat [of "map (row_text req) ls"] assms(1,3) by (simp add: o_def)
  then have "drop_last_two (ins_multi s) = comma_list (map (row_text req) ls)"
    by (simp add: drop_last_two_def)
  then show ?thesis
    using assms(2) by (cases "exec (ins_head s @ comma_list (map (row_text req) ls) @ '';'')")
      (simp_all add: sql_commit_def pq_exec_def)
qed


section \<open>Properties\<close>


definition example_row :: log_row where
  "example_row = \<lparr>lr_ccase = 21, lr_dst_ip = ''10.0.0.1'', lr_probe_id = 3, lr_peer_id = 2, lr_min_rtt = Fin 10,
     lr_avg_rtt = Fin 12, lr_max_rtt = Fin 14, lr_stddev_rtt = Fin 1, lr_mediana_rtt = Fin 12, lr_lost = 0, lr_ts = 7\<rparr>"


end
