(* ===== verification/Bytes.thy ===== *)
theory Bytes
  imports Pfr_Prelude "HOL-Library.Word"
begin

unbundle bit_operations_syntax

text \<open>
  Memory as bytes: the layout of a word on a little-endian host, \<open>swap_endian\<close>
  (\<open>ping_send_v4.cpp\<close>, \<open>ping_proc_v4.cpp\<close>), and \<open>ntohl\<close>.
\<close>

type_synonym u8 = "8 word"
type_synonym u16 = "16 word"
type_synonym u32 = "32 word"
type_synonym u64 = "64 word"

fun of_le_bytes :: "u8 list \<Rightarrow> 'a::len word" where
  "of_le_bytes [] = 0"
| "of_le_bytes (b # bs) = ucast b OR push_bit 8 (of_le_bytes bs)"

definition le_bytes :: "nat \<Rightarrow> 'a::len word \<Rightarrow> u8 list" where
  "le_bytes n w = map (\<lambda>k. ucast (drop_bit (8 * k) w)) [0..<n]"

text \<open>
  The union of \<open>swap_endian\<close>: byte \<open>k\<close> of the result is byte \<open>sizeof(T) - k - 1\<close> of the argument.
\<close>

definition swap_endian :: "'a::len word \<Rightarrow> 'a word" where
  "swap_endian u = (let n = LENGTH('a) div 8; source = le_bytes n u
     in of_le_bytes (map (\<lambda>k. source ! (n - k - 1)) [0..<n]))"

definition ntohl :: "u32 \<Rightarrow> u32" where
  "ntohl w = swap_endian w"

lemma length_le_bytes [simp]: "length (le_bytes n w) = n"
  by (simp add: le_bytes_def)

lemma nth_le_bytes: "k < n \<Longrightarrow> le_bytes n w ! k = ucast (drop_bit (8 * k) w)"
  by (simp add: le_bytes_def)

lemma bit_of_le_bytes:
  "bit (of_le_bytes bs :: 'a::len word) i
    \<longleftrightarrow> i < LENGTH('a) \<and> i div 8 < length bs \<and> bit (bs ! (i div 8)) (i mod 8)"
proof (induction bs arbitrary: i)
  case (Cons b bs)
  show ?case
  proof (cases "i < 8")
    case True
    then show ?thesis by (auto simp: bit_or_iff bit_ucast_iff bit_push_bit_iff)
  next
    case False
    then have d: "i div 8 = Suc ((i - 8) div 8)" "i mod 8 = (i - 8) mod 8"
      by (simp_all add: div_if mod_if [of i])
    have "\<not> bit b i" using False bit_imp_le_length [of b i] by auto
    then show ?thesis
      using False Cons.IH [of "i - 8"] by (auto simp: bit_or_iff bit_ucast_iff bit_push_bit_iff d)
  qed
qed simp

lemma of_le_bytes_le_bytes:
  assumes "LENGTH('a) = 8 * n"
  shows "of_le_bytes (le_bytes n w) = (w :: 'a::len word)"
proof (rule bit_word_eqI)
  fix i assume "i < LENGTH('a)"
  then have i: "i div 8 < n" using assms by (simp add: less_mult_imp_div_less mult.commute)
  show "bit (of_le_bytes (le_bytes n w) :: 'a word) i \<longleftrightarrow> bit w i"
    using i \<open>i < LENGTH('a)\<close>
    by (simp add: bit_of_le_bytes nth_le_bytes bit_ucast_iff bit_drop_bit_eq mult.commute)
qed

lemma le_bytes_of_le_bytes:
  assumes "LENGTH('a) = 8 * length bs"
  shows "le_bytes (length bs) (of_le_bytes bs :: 'a::len word) = bs"
proof (rule nth_equalityI)
  fix k assume "k < length (le_bytes (length bs) (of_le_bytes bs :: 'a word))"
  then have k: "k < length bs" by simp
  show "le_bytes (length bs) (of_le_bytes bs :: 'a word) ! k = bs ! k"
  proof (rule bit_word_eqI)
    fix i assume "i < LENGTH(8)"
    then show "bit (le_bytes (length bs) (of_le_bytes bs :: 'a word) ! k) i \<longleftrightarrow> bit (bs ! k) i"
      using k assms by (auto simp: nth_le_bytes bit_ucast_iff bit_drop_bit_eq bit_of_le_bytes)
  qed
qed simp

lemma swap_endian_rev:
  "LENGTH('a) = 8 * n \<Longrightarrow> swap_endian (u :: 'a::len word) = of_le_bytes (rev (le_bytes n u))"
proof -
  assume n: "LENGTH('a) = 8 * n"
  have "map (\<lambda>k. le_bytes n u ! (n - k - 1)) [0..<n] = rev (le_bytes n u)"
    by (rule nth_equalityI) (simp_all add: rev_nth)
  then show ?thesis using n by (simp add: swap_endian_def Let_def)
qed

lemma swap_endian_bytes:
  assumes "LENGTH('a) = 8 * n"
  shows "le_bytes n (swap_endian (u :: 'a::len word)) = rev (le_bytes n u)"
  using le_bytes_of_le_bytes [of "rev (le_bytes n u)", where 'a = 'a] assms
  by (simp add: swap_endian_rev [OF assms])

lemma swap_endian_swap_endian:
  assumes "LENGTH('a) = 8 * n"
  shows "swap_endian (swap_endian u) = (u :: 'a::len word)"
  by (simp add: swap_endian_rev [OF assms, of "swap_endian u"] swap_endian_bytes [OF assms]
      of_le_bytes_le_bytes [OF assms])

lemma swap_endian_32 [simp]: "swap_endian (swap_endian (u :: u32)) = u"
  by (rule swap_endian_swap_endian [of 4]) simp

lemma swap_endian_64 [simp]: "swap_endian (swap_endian (u :: u64)) = u"
  by (rule swap_endian_swap_endian [of 8]) simp

text \<open>Bytes as the digits of a number, the lowest first.\<close>

fun le_nat :: "u8 list \<Rightarrow> nat" where
  "le_nat [] = 0"
| "le_nat (b # bs) = unat b + 256 * le_nat bs"

lemma le_nat_less: "le_nat bs < 256 ^ length bs"
proof (induction bs)
  case (Cons b bs)
  have "unat b < 256" using unsigned_less [of b, where 'a = nat] by simp
  then show ?case using Cons by simp
qed simp

lemma of_le_bytes_Cons:
  assumes "8 \<le> LENGTH('a)"
  shows "(of_le_bytes (b # bs) :: 'a::len word) = ucast b + 256 * of_le_bytes bs"
proof -
  have "(of_le_bytes (b # bs) :: 'a word) = ucast b + push_bit 8 (of_le_bytes bs)"
    unfolding of_le_bytes.simps
  proof (rule disjunctive_add [symmetric])
    fix n
    show "\<not> bit (ucast b :: 'a word) n \<or> \<not> bit (push_bit 8 (of_le_bytes bs) :: 'a word) n"
      using bit_imp_le_length [of b n] by (auto simp: bit_ucast_iff bit_push_bit_iff)
  qed
  then show ?thesis by (simp add: push_bit_eq_mult mult.commute)
qed

lemma of_le_bytes_of_nat:
  assumes "8 \<le> LENGTH('a)"
  shows "(of_le_bytes bs :: 'a::len word) = of_nat (le_nat bs)"
  by (induction bs) (simp_all add: of_le_bytes_Cons [OF assms] del: of_le_bytes.simps(2))

lemma unat_of_le_bytes:
  assumes "LENGTH('a) = 8 * length bs"
  shows "unat (of_le_bytes bs :: 'a::len word) = le_nat bs"
proof -
  have "(2::nat) ^ LENGTH('a) = 256 ^ length bs" by (simp add: assms power_mult)
  moreover have "8 \<le> LENGTH('a)" using assms by (cases bs) (use len_gt_0 [where 'a = 'a] in auto)
  ultimately show ?thesis using le_nat_less [of bs] by (simp add: of_le_bytes_of_nat unat_of_nat)
qed

lemma ntohl_of_le_bytes: "length bs = 4 \<Longrightarrow> ntohl (of_le_bytes bs) = of_le_bytes (rev bs)"
  using le_bytes_of_le_bytes [of bs, where 'a = 32] swap_endian_rev [of 4 "of_le_bytes bs :: u32"]
  by (simp add: ntohl_def)

end
