(* ===== verification/Ping_Wire.thy ===== *)
theory Ping_Wire
  imports Bytes
begin

text \<open>
  The bytes of a probe: the time difference \<open>tv_sub\<close> (\<open>src/src/tv_sub.cpp\<close>), the Internet checksum
  \<open>in_cksum\<close> (\<open>ping_in_cksum.cpp\<close>), the payload \<open>icmp_payload\<close> (\<open>ping_data.h\<close>), and the packet that
  \<open>send_v4\<close> (\<open>ping_send_v4.cpp\<close>) writes into \<open>sendbuf\<close>.

  Memory is a list of bytes on a little-endian host; \<open>long\<close> and \<open>time_t\<close> have 64 bits.
\<close>


section \<open>Times\<close>

record timeval =
  tv_sec :: int
  tv_usec :: int

definition tv_sub :: "timeval \<Rightarrow> timeval \<Rightarrow> timeval" where
  "tv_sub out inn =
     (let usec = tv_usec out - tv_usec inn;
          (sec, usec) = (if usec < 0 then (tv_sec out - 1, usec + 1000000) else (tv_sec out, usec))
      in \<lparr>tv_sec = sec - tv_sec inn, tv_usec = usec\<rparr>)"


section \<open>The checksum\<close>

text \<open>The sum of the 16-bit words in memory order; an odd last byte is the low byte of a word.\<close>

fun cksum_sum :: "u8 list \<Rightarrow> u32 \<Rightarrow> u32" where
  "cksum_sum (a # b # w) acc = cksum_sum w (acc + ucast (of_le_bytes [a, b] :: u16))"
| "cksum_sum [a] acc = acc + ucast (of_le_bytes [a, 0] :: u16)"
| "cksum_sum [] acc = acc"

definition in_cksum :: "u8 list \<Rightarrow> u16" where
  "in_cksum addr =
     (let acc = cksum_sum addr 0;
          acc = drop_bit 16 acc + (acc AND 0xffff);
          acc = acc + drop_bit 16 acc
      in NOT (ucast acc))"


section \<open>The payload\<close>

text \<open>
  \<open>icmp_payload\<close>, packed: 44 bytes of fields, and 64 with the alignment.  The last four fields hold
  the values as they are stored, that is, swapped.
\<close>

record icmp_payload =
  ip_tv :: timeval
  ip_peer_id :: u32
  ip_probe_id :: u64
  ip_thread_id :: u64
  ip_timestamp :: u64

definition payload_fields :: nat where "payload_fields = 44"

definition payload_size :: nat where "payload_size = 64"

definition payload_bytes :: "icmp_payload \<Rightarrow> u8 list" where
  "payload_bytes p =
     le_bytes 8 (word_of_int (tv_sec (ip_tv p)) :: u64) @ le_bytes 8 (word_of_int (tv_usec (ip_tv p)) :: u64)
     @ le_bytes 4 (ip_peer_id p) @ le_bytes 8 (ip_probe_id p) @ le_bytes 8 (ip_thread_id p)
     @ le_bytes 8 (ip_timestamp p)"

definition field :: "nat \<Rightarrow> nat \<Rightarrow> u8 list \<Rightarrow> u8 list" where
  "field off n bs = take n (drop off bs)"

definition read_payload :: "u8 list \<Rightarrow> icmp_payload" where
  "read_payload bs = \<lparr>
     ip_tv = \<lparr>tv_sec = sint (of_le_bytes (field 0 8 bs) :: u64),
              tv_usec = sint (of_le_bytes (field 8 8 bs) :: u64)\<rparr>,
     ip_peer_id = of_le_bytes (field 16 4 bs),
     ip_probe_id = of_le_bytes (field 20 8 bs),
     ip_thread_id = of_le_bytes (field 28 8 bs),
     ip_timestamp = of_le_bytes (field 36 8 bs)\<rparr>"


section \<open>The packet\<close>

definition BUFSIZE :: nat where "BUFSIZE = 1500"

text \<open>Writing bytes into a buffer.\<close>

definition poke :: "nat \<Rightarrow> u8 list \<Rightarrow> u8 list \<Rightarrow> u8 list" where
  "poke off bs buf = take off buf @ bs @ drop (off + length bs) buf"

text \<open>What one probe is made from: the variables of \<open>send_v4\<close> at the head of its inner loop.\<close>

record probe =
  pr_seq :: int
  pr_peer_id :: int
  pr_probe_id :: int
  pr_thread_id :: u64
  pr_tv :: timeval
  pr_time :: u64

definition probe_payload :: "probe \<Rightarrow> icmp_payload" where
  "probe_payload p = \<lparr>
     ip_tv = pr_tv p,
     ip_peer_id = swap_endian (word_of_int (pr_peer_id p)),
     ip_probe_id = swap_endian (word_of_int (pr_probe_id p)),
     ip_thread_id = swap_endian (pr_thread_id p),
     ip_timestamp = swap_endian (pr_time p)\<rparr>"

text \<open>
  The allocated payload: \<open>sizeof(icmp_payload) + max_load\<close> bytes, filled with the pattern when there
  is a load and with what \<open>malloc\<close> left there (\<open>heap\<close>) otherwise.
\<close>

definition payload_block :: "(nat \<Rightarrow> u8) \<Rightarrow> int \<Rightarrow> icmp_payload \<Rightarrow> u8 list" where
  "payload_block heap max_load p =
     (let n = nat (int payload_size + max_load)
      in poke 0 (payload_bytes p) (if max_load > 0 then replicate n 0xa5 else map heap [0..<n]))"

text \<open>
  The header is written once for a destination; a pass of the inner loop writes the sequence number,
  copies the payload behind the header, and puts the checksum of the whole in the place it has zeroed.
\<close>

definition write_header :: "int \<Rightarrow> u8 list \<Rightarrow> u8 list" where
  "write_header pid buf = poke 4 (le_bytes 2 (word_of_int pid :: u16)) (poke 0 [8, 0] buf)"

definition write_seq :: "int \<Rightarrow> u8 list \<Rightarrow> u8 list" where
  "write_seq seq buf = poke 6 (le_bytes 2 (word_of_int seq :: u16)) buf"

definition write_payload :: "(nat \<Rightarrow> u8) \<Rightarrow> int \<Rightarrow> probe \<Rightarrow> u8 list \<Rightarrow> u8 list" where
  "write_payload heap max_load p buf = poke 8 (payload_block heap max_load (probe_payload p)) buf"

definition packet_len :: "int \<Rightarrow> nat" where
  "packet_len max_load = nat (8 + int payload_size + max_load)"

definition write_cksum :: "int \<Rightarrow> u8 list \<Rightarrow> u8 list" where
  "write_cksum max_load buf =
     (let buf0 = poke 2 [0, 0] buf
      in poke 2 (le_bytes 2 (in_cksum (take (packet_len max_load) buf0))) buf0)"

text \<open>
  Outside of these bounds the fields leave the allocated block, or the copy leaves \<open>sendbuf\<close>.
\<close>

definition load_ok :: "int \<Rightarrow> bool" where
  "load_ok max_load \<longleftrightarrow> - 20 \<le> max_load \<and> max_load \<le> 1428"

definition fill_sendbuf :: "(nat \<Rightarrow> u8) \<Rightarrow> int \<Rightarrow> probe \<Rightarrow> u8 list \<Rightarrow> u8 list res" where
  "fill_sendbuf heap max_load p buf =
     (if load_ok max_load
      then Inr (write_cksum max_load (write_payload heap max_load p (write_seq (pr_seq p) buf)))
      else Inl (Undefined_Behaviour ''buffer overflow''))"


section \<open>Facts\<close>

text \<open>A time as microseconds: \<open>tv_sub\<close> subtracts, and keeps the microseconds normal.\<close>

definition usecs :: "timeval \<Rightarrow> int" where
  "usecs t = tv_sec t * 1000000 + tv_usec t"

lemma usecs_tv_sub: "usecs (tv_sub a b) = usecs a - usecs b"
  by (simp add: usecs_def tv_sub_def Let_def algebra_simps)

lemma tv_sub_normal:
  assumes "0 \<le> tv_usec a" "tv_usec a < 1000000" "0 \<le> tv_usec b" "tv_usec b < 1000000"
  shows "0 \<le> tv_usec (tv_sub a b) \<and> tv_usec (tv_sub a b) < 1000000"
  using assms by (simp add: tv_sub_def Let_def)

lemma length_payload_bytes [simp]: "length (payload_bytes p) = 44"
  by (simp add: payload_bytes_def)

lemma length_poke [simp]:
  "off + length bs \<le> length buf \<Longrightarrow> length (poke off bs buf) = length buf"
  by (simp add: poke_def)

lemma field_poke_same:
  "off + length bs \<le> length buf \<Longrightarrow> length bs = n \<Longrightarrow> field off n (poke off bs buf) = bs"
  by (simp add: field_def poke_def)

lemma field_poke_other:
  assumes "off + n \<le> off' \<or> off' + length bs \<le> off" and "off' + length bs \<le> length buf"
  shows "field off n (poke off' bs buf) = field off n buf"
proof (rule nth_equalityI)
  show l: "length (field off n (poke off' bs buf)) = length (field off n buf)"
    using assms(2) by (simp add: field_def)
  fix i assume "i < length (field off n (poke off' bs buf))"
  then show "field off n (poke off' bs buf) ! i = field off n buf ! i"
    using assms by (auto simp: field_def poke_def nth_append)
qed

subsection \<open>The checksum\<close>

text \<open>The sum as a natural number, and its two folds as arithmetic.\<close>

lemma unat_ucast_16_32 [simp]: "unat (ucast (w :: u16) :: u32) = unat w"
  using unsigned_less [of w, where 'a = nat] by (simp add: unsigned_ucast_eq take_bit_nat_eq_self)

fun words_sum :: "u8 list \<Rightarrow> nat" where
  "words_sum (a # b # w) = unat a + 256 * unat b + words_sum w"
| "words_sum [a] = unat a"
| "words_sum [] = 0"

definition fold16 :: "nat \<Rightarrow> nat" where
  "fold16 n = (let s = n div 65536 + n mod 65536 in (s + s div 65536) mod 65536)"

lemma unat_of_le_bytes_2: "unat (of_le_bytes [a, b] :: u16) = unat a + 256 * unat b"
proof -
  have "(of_le_bytes [a, b] :: u16) = ucast a OR push_bit 8 (ucast b)" by simp
  also have "\<dots> = ucast a + push_bit 8 (ucast b)"
  proof (rule disjunctive_add [symmetric])
    fix n
    show "\<not> bit (ucast a :: u16) n \<or> \<not> bit (push_bit 8 (ucast b) :: u16) n"
      using bit_imp_le_length [of a n] by (auto simp: bit_ucast_iff bit_push_bit_iff)
  qed
  finally have eq: "(of_le_bytes [a, b] :: u16) = of_nat (unat a + 256 * unat b)"
    by (simp add: push_bit_eq_mult mult.commute)
  have "unat a < 256" "unat b < 256" using unsigned_less [of a, where 'a = nat] unsigned_less [of b, where 'a = nat] by simp_all
  then have "unat a + 256 * unat b < 2 ^ 16" by simp
  then show ?thesis unfolding eq unat_of_nat by (simp add: mod_less)
qed

lemma unat_cksum_sum:
  "unat acc + words_sum bs < 2 ^ 32 \<Longrightarrow> unat (cksum_sum bs acc) = unat acc + words_sum bs"
proof (induction bs acc rule: cksum_sum.induct)
  case (1 a b w acc)
  have "unat (acc + ucast (of_le_bytes [a, b] :: u16)) = unat acc + (unat a + 256 * unat b)"
    using 1 unat_of_le_bytes_2 [of a b]
    by (simp add: unat_word_ariths del: of_le_bytes.simps)
  then show ?case using 1 by (simp del: of_le_bytes.simps)
next
  case (2 a acc)
  then show ?case using unat_of_le_bytes_2 [of a 0]
    by (simp add: unat_word_ariths del: of_le_bytes.simps)
qed simp

lemma unat_not_16: "unat (NOT w :: u16) = 65535 - unat w"
proof -
  have "NOT w = - 1 - w" by (simp add: not_eq_complement)
  moreover have "w \<le> - 1" by simp
  ultimately show ?thesis by (simp only: unat_sub unsigned_minus_1_eq_mask) (simp add: mask_eq_exp_minus_1)
qed

lemma unat_in_cksum:
  assumes "words_sum bs < 2 ^ 32"
  shows "unat (in_cksum bs) = 65535 - fold16 (words_sum bs)"
proof -
  define s where "s = cksum_sum bs 0"
  define s1 where "s1 = drop_bit 16 s + (s AND 0xffff)"
  have s: "unat s = words_sum bs" using assms by (simp add: s_def unat_cksum_sum)
  have hi: "unat (drop_bit 16 w) = unat w div 65536" for w :: u32
    using unsigned_less [of w, where 'a = nat]
    by (simp only: unsigned_drop_bit_eq) (simp add: drop_bit_eq_div take_bit_nat_eq_self)
  have "s AND 0xffff = take_bit 16 s" by (simp add: take_bit_eq_mask mask_eq_exp_minus_1)
  then have lo: "unat (s AND 0xffff) = unat s mod 65536"
    by (simp only: unsigned_take_bit_eq) (simp add: take_bit_eq_mod)
  have "unat s div 65536 < 65536" using s assms by (simp add: less_mult_imp_div_less)
  then have small: "unat s div 65536 + unat s mod 65536 < 131072"
    using mod_less_divisor [of 65536 "unat s"] by simp
  then have s1: "unat s1 = unat s div 65536 + unat s mod 65536"
    by (simp add: s1_def unat_word_ariths hi lo)
  have "unat s1 div 65536 \<le> 1" using small s1 by simp
  then have s2: "unat (s1 + drop_bit 16 s1) = unat s1 + unat s1 div 65536"
    using small s1 by (simp add: unat_word_ariths hi)
  have "unat (ucast (s1 + drop_bit 16 s1) :: u16) = fold16 (words_sum bs)"
    by (simp add: unsigned_ucast_eq take_bit_eq_mod s2 s1 s fold16_def Let_def)
  then show ?thesis
    by (simp add: in_cksum_def Let_def unat_not_16 s_def [symmetric] s1_def [symmetric])
qed

text \<open>The fold is the residue modulo 65535 that is 0 for 0 only: adding its complement gives 65535.\<close>

text \<open>Folding is reduction modulo 65535, with 65535 in place of 0 for a positive number.\<close>

lemma fold16_halves:
  assumes "m < 2 ^ 32"
  obtains q t where "m = 65536 * q + t" and "t < 65536" and "q < 65536"
    and "fold16 m = (if q + t < 65536 then q + t else q + t - 65535)"
proof -
  define q where "q = m div 65536"
  define t where "t = m mod 65536"
  have m: "m = 65536 * q + t" "t < 65536" "q < 65536"
    using assms by (simp_all add: q_def t_def less_mult_imp_div_less)
  have fo: "fold16 m = (q + t + (q + t) div 65536) mod 65536"
    by (simp add: fold16_def q_def t_def Let_def)
  have "fold16 m = (if q + t < 65536 then q + t else q + t - 65535)"
  proof (cases "q + t < 65536")
    case False
    then have "(q + t) div 65536 = 1" using m by simp
    moreover from this have "(q + t + 1) mod 65536 = q + t + 1 - 65536" using False m by (simp add: mod_if)
    ultimately show ?thesis using False by (simp add: fo)
  qed (simp add: fo)
  then show thesis using that m by blast
qed

lemma fold16_mod:
  assumes "m < 2 ^ 32"
  shows "fold16 m mod 65535 = m mod 65535" and "fold16 m \<le> 65535" and "fold16 m = 0 \<longleftrightarrow> m = 0"
proof -
  obtain q t where m: "m = 65536 * q + t" "t < 65536" "q < 65536"
    and fo: "fold16 m = (if q + t < 65536 then q + t else q + t - 65535)"
    by (rule fold16_halves [OF assms])
  have "m = (q + t) + 65535 * q" using m(1) by simp
  then have mm: "m mod 65535 = (q + t) mod 65535" by (metis mod_mult_self2)
  show "fold16 m mod 65535 = m mod 65535"
  proof (cases "q + t < 65536")
    case False
    then have "fold16 m + 65535 = q + t" by (simp add: fo)
    then show ?thesis using mm by (metis mod_add_self2)
  qed (simp add: fo mm)
  show "fold16 m \<le> 65535" "fold16 m = 0 \<longleftrightarrow> m = 0" unfolding fo using m by auto
qed

lemma fold16_complement:
  assumes "n < 2 ^ 31"
  shows "fold16 (n + (65535 - fold16 n)) = 65535"
proof -
  define k where "k = n + (65535 - fold16 n)"
  have n: "fold16 n mod 65535 = n mod 65535" "fold16 n \<le> 65535" "fold16 n = 0 \<longleftrightarrow> n = 0"
    using fold16_mod [of n] assms by auto
  have k: "k < 2 ^ 32" using assms by (simp add: k_def)
  have "int n mod 65535 = int (fold16 n) mod 65535" using n(1) by (metis of_nat_mod of_nat_numeral)
  then have "65535 dvd int n - int (fold16 n)" by (simp add: mod_eq_dvd_iff)
  moreover have "int k = int n - int (fold16 n) + 65535" using n(2) by (simp add: k_def)
  ultimately have "65535 dvd int k" by simp
  then have k0: "k mod 65535 = 0" by presburger
  have "k \<noteq> 0" using n by (cases "n = 0") (auto simp: k_def)
  then have "fold16 k \<noteq> 0" "fold16 k \<le> 65535" "fold16 k mod 65535 = 0" using fold16_mod [OF k] k0 by auto
  then show ?thesis unfolding k_def [symmetric] by (metis le_neq_implies_less mod_less)
qed

lemma words_sum_append: "even (length a) \<Longrightarrow> words_sum (a @ b) = words_sum a + words_sum b"
  by (induction a rule: words_sum.induct) auto

lemma unat_u8_le: "unat (a :: u8) \<le> 255"
  using unsigned_less [of a, where 'a = nat] by simp

lemma words_sum_bound: "words_sum bs \<le> 65535 * length bs"
proof (induction bs rule: words_sum.induct)
  case (1 a b w)
  then show ?case using unat_u8_le [of a] unat_u8_le [of b] by simp
next
  case (2 a)
  then show ?case using unat_u8_le [of a] by simp
qed simp

lemma words_sum_le_bytes: "words_sum (le_bytes 2 (c :: u16)) = unat c"
proof -
  obtain x y where b: "le_bytes 2 c = [x, y]"
    using length_le_bytes [of 2 c] by (metis (no_types) One_nat_def Suc_1 length_0_conv length_Suc_conv)
  have "(of_le_bytes (le_bytes 2 c) :: u16) = c" by (rule of_le_bytes_le_bytes) simp
  then have "unat c = unat x + 256 * unat y" using unat_of_le_bytes_2 [of x y] unfolding b by metis
  then show ?thesis by (simp add: b)
qed

text \<open>A block whose checksum field holds the checksum of the block with a zero there sums to 0.\<close>

lemma in_cksum_inserted:
  assumes "even (length a)" and "length (a @ [0, 0] @ b) < 2 ^ 14"
  shows "in_cksum (a @ le_bytes 2 (in_cksum (a @ [0, 0] @ b)) @ b) = 0"
proof -
  define n where "n = words_sum (a @ [0, 0] @ b)"
  define c where "c = in_cksum (a @ [0, 0] @ b)"
  have n31: "n < 2 ^ 31" using words_sum_bound [of "a @ [0, 0] @ b"] assms(2) by (simp add: n_def)
  then have c: "unat c = 65535 - fold16 n"
    using unat_in_cksum [of "a @ [0, 0] @ b"] by (simp add: n_def c_def)
  have total: "words_sum (a @ le_bytes 2 c @ b) = n + unat c"
    using assms(1) by (simp add: words_sum_append words_sum_le_bytes n_def)
  moreover have "n + unat c < 2 ^ 32" using n31 c by simp
  ultimately have "unat (in_cksum (a @ le_bytes 2 c @ b)) = 65535 - fold16 (n + (65535 - fold16 n))"
    using unat_in_cksum [of "a @ le_bytes 2 c @ b"] c by simp
  then show ?thesis by (simp add: fold16_complement [OF n31] c_def unsigned_eq_0_iff)
qed


subsection \<open>The packet\<close>

lemma load_bounds:
  assumes "load_ok max_load"
  shows "44 \<le> nat (64 + max_load)" and "nat (64 + max_load) \<le> 1492"
    and "packet_len max_load = 8 + nat (64 + max_load)"
  using assms by (auto simp: load_ok_def packet_len_def payload_size_def le_nat_iff nat_le_iff)

lemma length_payload_block [simp]:
  "load_ok max_load \<Longrightarrow> length (payload_block heap max_load p) = nat (64 + max_load)"
  using load_bounds [of max_load] by (simp add: payload_block_def Let_def payload_size_def)

lemma field_take: "off + n \<le> m \<Longrightarrow> field off n (take m bs) = field off n bs"
  by (simp add: field_def drop_take)

lemma nth_field: "off < length bs \<Longrightarrow> bs ! off = field off 1 bs ! 0"
  by (simp add: field_def)

lemma field_payload_block:
  assumes "load_ok max_load"
  shows "field 0 44 (payload_block heap max_load p) = payload_bytes p"
  using load_bounds [OF assms] by (simp add: payload_block_def Let_def payload_size_def field_def poke_def)

lemma field_poke_inside:
  assumes "off' \<le> off" and "off + n \<le> off' + length bs" and "off' + length bs \<le> length buf"
  shows "field off n (poke off' bs buf) = field (off - off') n bs"
  using assms by (simp add: field_def poke_def)

text \<open>The header that \<open>write_header\<close> leaves, and what the buffer holds when \<open>sendto\<close> is called.\<close>

definition has_header :: "int \<Rightarrow> u8 list \<Rightarrow> bool" where
  "has_header pid buf \<longleftrightarrow> length buf = BUFSIZE \<and> field 0 2 buf = [8, 0]
     \<and> field 4 2 buf = le_bytes 2 (word_of_int pid :: u16)"

lemma has_header_write: "length buf = BUFSIZE \<Longrightarrow> has_header pid (write_header pid buf)"
  by (simp add: has_header_def write_header_def BUFSIZE_def field_poke_other field_poke_same)

lemma fill_sendbuf_layout:
  assumes "fill_sendbuf heap max_load p buf = Inr sb" and "has_header pid buf"
  shows "has_header pid sb"
    and "field 6 2 sb = le_bytes 2 (word_of_int (pr_seq p) :: u16)"
    and "field 8 44 sb = payload_bytes (probe_payload p)"
proof -
  have load: "load_ok max_load"
    and sb: "sb = write_cksum max_load (write_payload heap max_load p (write_seq (pr_seq p) buf))"
    using assms(1) by (simp_all add: fill_sendbuf_def split: if_splits)
  have n: "8 + nat (64 + max_load) \<le> 1500" "44 \<le> nat (64 + max_load)"
    using load_bounds [OF load] by simp_all
  note d = sb write_cksum_def write_payload_def write_seq_def Let_def
  have len: "length buf = 1500" using assms(2) by (simp add: has_header_def BUFSIZE_def)
  show "has_header pid sb"
    using load n len assms(2) by (simp add: d has_header_def BUFSIZE_def field_poke_other)
  show "field 6 2 sb = le_bytes 2 (word_of_int (pr_seq p) :: u16)"
    using load n len by (simp add: d field_poke_other field_poke_same)
  show "field 8 44 sb = payload_bytes (probe_payload p)"
    using load n len
    by (simp add: d field_poke_other field_poke_inside field_payload_block)
qed

lemma fill_sendbuf_cksum:
  assumes "fill_sendbuf heap max_load p buf = Inr sb" and "length buf = BUFSIZE"
  shows "in_cksum (take (packet_len max_load) sb) = 0"
proof -
  have load: "load_ok max_load" using assms(1) by (simp add: fill_sendbuf_def split: if_splits)
  define b where "b = write_payload heap max_load p (write_seq (pr_seq p) buf)"
  define n where "n = packet_len max_load"
  have n: "52 \<le> n" "n \<le> 1500" "n = 8 + nat (64 + max_load)"
    using load_bounds [OF load] by (simp_all add: n_def)
  have "length b = 1500"
    using load n assms(2)
    by (simp add: b_def write_payload_def write_seq_def BUFSIZE_def)
  have sb: "sb = write_cksum max_load b"
    using assms(1) by (simp add: fill_sendbuf_def b_def split: if_splits)
  have l: "length b = 1500" by fact
  have poked: "take n (poke 2 [x, y] b) = take 2 b @ [x, y] @ take (n - 4) (drop 4 b)" for x y
    using n l by (simp add: poke_def take_Cons')
  have again: "poke 2 w (poke 2 [0, 0] b) = poke 2 w b" if "length w = 2" for w
    using that l by (simp add: poke_def)
  have two: "\<exists>x y. le_bytes 2 c = [x, y]" for c :: u16
    using length_le_bytes [of 2 c] by (metis (no_types) One_nat_def Suc_1 length_0_conv length_Suc_conv)
  have "take n sb = take 2 b @ le_bytes 2 (in_cksum (take n (poke 2 [0, 0] b))) @ take (n - 4) (drop 4 b)"
    using two [of "in_cksum (take n (poke 2 [0, 0] b))"]
    by (auto simp: sb write_cksum_def Let_def again poked n_def [symmetric])
  then show ?thesis
    using in_cksum_inserted [of "take 2 b" "take (n - 4) (drop 4 b)"] n(1,2) l
    by (simp add: poked [of 0 0] n_def [symmetric] del: One_nat_def)
qed


section \<open>Properties\<close>

text \<open>
  The time difference: for two times in normal form, the result of \<open>tv_sub\<close> is in normal form and
  is exactly the difference in microseconds, whichever of the two is the later.
\<close>

lemma tv_sub_exact:
  assumes "0 \<le> tv_usec a" and "tv_usec a < 1000000" and "0 \<le> tv_usec b" and "tv_usec b < 1000000"
  shows "0 \<le> tv_usec (tv_sub a b) \<and> tv_usec (tv_sub a b) < 1000000
    \<and> tv_sec (tv_sub a b) * 1000000 + tv_usec (tv_sub a b)
      = (tv_sec a * 1000000 + tv_usec a) - (tv_sec b * 1000000 + tv_usec b)"
  using tv_sub_normal [OF assms] usecs_tv_sub [of a b] by (simp add: usecs_def algebra_simps)

text \<open>
  C13. The checksum verifies: a packet into whose zeroed 16-bit field, at an even offset, its own
  checksum is written has the checksum 0, as its receiver computes it.
\<close>

theorem cksum_verifies:
  assumes "even (length a)" and "length (a @ [0, 0] @ b) < 2 ^ 14"
  shows "in_cksum (a @ le_bytes 2 (in_cksum (a @ [0, 0] @ b)) @ b) = 0"
  by (rule in_cksum_inserted [OF assms])

theorem cksum_verifies_witness:
  "in_cksum ([8, 0] @ le_bytes 2 (in_cksum ([8, 0] @ [0, 0] @ [0x12, 0x34, 0, 7, 255])) @ [0x12, 0x34, 0, 7, 255]) = 0"
  by (rule cksum_verifies) simp_all

end
