(* ===== verification/Ping_Proc.thy ===== *)
theory Ping_Proc
  imports Ping_Wire Pfr_Rdata
begin

text \<open>
  The receiver (\<open>src/src/ping_proc_v4.cpp\<close>): \<open>proc_v4\<close> takes a raw IP packet from the buffer of
  \<open>readloop\<close> (\<open>ping_readloop.cpp\<close>), and stores the sample of an answer to one of our probes.

  The buffer is the whole of \<open>recvbuf\<close>, of which the first \<open>len\<close> bytes are the packet and the rest is
  what earlier packets left.
\<close>


section \<open>\<open>proc_v4\<close>\<close>

text \<open>\<open>inet_ntop(AF_INET, ...)\<close> on four bytes in network order.\<close>

definition inet_ntop4 :: "u8 list \<Rightarrow> string" where
  "inet_ntop4 a = dotted (unat (a ! 0)) (unat (a ! 1)) (unat (a ! 2)) (unat (a ! 3))"

definition ip_hlen :: "u8 list \<Rightarrow> nat" where
  "ip_hlen buf = unat (push_bit 2 (hd buf AND 15))"

definition ip_p :: "u8 list \<Rightarrow> u8" where "ip_p buf = buf ! 9"

definition ip_src :: "u8 list \<Rightarrow> u8 list" where "ip_src buf = field 12 4 buf"

definition icmp_type :: "u8 list \<Rightarrow> u8" where "icmp_type ic = ic ! 0"

definition icmp_id :: "u8 list \<Rightarrow> u16" where "icmp_id ic = of_le_bytes (field 4 2 ic)"

definition icmp_seq :: "u8 list \<Rightarrow> u16" where "icmp_seq ic = of_le_bytes (field 6 2 ic)"

text \<open>\<open>tv_sec * 1000.0 + tv_usec / 1000.0\<close>.\<close>

definition rtt_of :: "timeval \<Rightarrow> double" where
  "rtt_of t = dadd (dmul (d_of_int (tv_sec t)) (Fin 1000)) (ddiv (d_of_int (tv_usec t)) (Fin 1000))"

text \<open>\<open>if(r[...][...][...][seq] == NULL)\<close>: the first answer stays.\<close>

definition store_sample :: "string \<Rightarrow> int \<Rightarrow> int \<Rightarrow> int \<Rightarrow> tparm \<Rightarrow> rdata \<Rightarrow> rdata" where
  "store_sample src probe_id peer_id seq tp s =
     (case sm_at None (seqs_of (r s) src probe_id peer_id) seq of
        Some _ \<Rightarrow> s
      | None \<Rightarrow> s\<lparr>r := sm_modify sm_empty src (sm_modify sm_empty probe_id
                    (sm_modify sm_empty peer_id (sm_put seq (Some tp)))) (r s),
                  proc_v4_new_cnt := proc_v4_new_cnt s + 1\<rparr>)"

text \<open>
  \<open>verbose\<close> prints the sender of any other message from \<open>pr->sarecv\<close>, which is null.
\<close>

definition proc_v4 ::
  "bool \<Rightarrow> int \<Rightarrow> u8 list \<Rightarrow> int \<Rightarrow> timeval \<Rightarrow> rdata \<Rightarrow> rdata res" where
  "proc_v4 verbose pid buf len tvrecv s =
     (let hlen1 = ip_hlen buf in
      if ip_p buf \<noteq> 1 then Inr s
      else
        (let ic = drop hlen1 buf; icmplen = len - int hlen1 in
         if icmplen < 8 then Inr s
         else if icmp_type ic = 0 then
           (if uint (icmp_id ic) \<noteq> pid then Inr s
            else if icmplen < 16 then Inr s
            else
              (let icmp_d = read_payload (drop 8 ic);
                   rtt = rtt_of (tv_sub tvrecv (ip_tv icmp_d));
                   peer_id = swap_endian (ip_peer_id icmp_d);
                   probe_id = swap_endian (ip_probe_id icmp_d);
                   timestamp = swap_endian (ip_timestamp icmp_d)
               in Inr (store_sample (inet_ntop4 (ip_src buf)) (to_int32 (uint probe_id))
                    (to_int32 (uint peer_id)) (uint (icmp_seq ic))
                    (tparm_new rtt (Fin 0) 0 (to_int32 (uint timestamp))) s)))
         else if verbose then Inl null_deref
         else Inr s))"


section \<open>Facts\<close>

lemma seqs_of_store_sample:
  "seqs_of (r (store_sample src probe_id peer_id seq tp s)) src' probe_id' peer_id'
    = (let m = seqs_of (r s) src' probe_id' peer_id'
       in if src' = src \<and> probe_id' = probe_id \<and> peer_id' = peer_id \<and> sm_at None m seq = None
          then sm_put seq (Some tp) m else m)"
  by (auto simp: store_sample_def seqs_of_def peers_of_def Let_def split: option.splits)

lemma to_int32_uint_32: "to_int32 (uint (word_of_int n :: u32)) = to_int32 n"
  by (simp add: to_int32_def uint_word_of_int_eq signed_take_bit_take_bit)

lemma to_int32_uint_64: "to_int32 (uint (word_of_int n :: u64)) = to_int32 n"
  by (simp add: to_int32_def uint_word_of_int_eq signed_take_bit_take_bit)

text \<open>What is read back from the bytes of a payload.\<close>

lemma field_append1: "length a = off \<Longrightarrow> length b = n \<Longrightarrow> field off n (a @ b @ c) = b"
  by (simp add: field_def)

lemma take_field: "off + n \<le> m \<Longrightarrow> field off n (take m bs) = field off n bs"
  by (simp add: field_def drop_take)

lemma drop_field: "field off n (drop m bs) = field (m + off) n bs"
  by (simp add: field_def add.commute)

definition timeval_ok :: "timeval \<Rightarrow> bool" where
  "timeval_ok t \<longleftrightarrow> - (2 ^ 63) \<le> tv_sec t \<and> tv_sec t < 2 ^ 63 \<and> 0 \<le> tv_usec t \<and> tv_usec t < 1000000"

lemma sint_word_64: "- (2 ^ 63) \<le> n \<Longrightarrow> n < 2 ^ 63 \<Longrightarrow> sint (word_of_int n :: u64) = n"
  by (simp add: sint_sbintrunc' signed_take_bit_int_eq_self)

lemma read_payload_bytes:
  assumes "timeval_ok (ip_tv p)"
  shows "read_payload (payload_bytes p @ rest) = p"
proof -
  define a where "a = le_bytes 8 (word_of_int (tv_sec (ip_tv p)) :: u64)"
  define b where "b = le_bytes 8 (word_of_int (tv_usec (ip_tv p)) :: u64)"
  define c where "c = le_bytes 4 (ip_peer_id p)"
  define d where "d = le_bytes 8 (ip_probe_id p)"
  define e where "e = le_bytes 8 (ip_thread_id p)"
  define f where "f = le_bytes 8 (ip_timestamp p)"
  have len: "length a = 8" "length b = 8" "length c = 4" "length d = 8" "length e = 8" "length f = 8"
    by (simp_all add: a_def b_def c_def d_def e_def f_def)
  have bytes: "payload_bytes p @ rest = a @ b @ c @ d @ e @ f @ rest"
    by (simp add: payload_bytes_def a_def b_def c_def d_def e_def f_def)
  have fields: "field 0 8 (payload_bytes p @ rest) = a" "field 8 8 (payload_bytes p @ rest) = b"
    "field 16 4 (payload_bytes p @ rest) = c" "field 20 8 (payload_bytes p @ rest) = d"
    "field 28 8 (payload_bytes p @ rest) = e" "field 36 8 (payload_bytes p @ rest) = f"
    unfolding bytes using len by (simp_all add: field_def)
  have words: "(of_le_bytes a :: u64) = word_of_int (tv_sec (ip_tv p))"
    "(of_le_bytes b :: u64) = word_of_int (tv_usec (ip_tv p))"
    "of_le_bytes c = ip_peer_id p" "of_le_bytes d = ip_probe_id p" "of_le_bytes e = ip_thread_id p"
    "of_le_bytes f = ip_timestamp p"
    unfolding a_def b_def c_def d_def e_def f_def by (simp_all add: of_le_bytes_le_bytes)
  show ?thesis
    using assms unfolding read_payload_def fields words timeval_ok_def
    by (cases p; cases "ip_tv p") (simp add: sint_word_64)
qed


section \<open>From the sender to the receiver\<close>

text \<open>
  The answer to an echo request as the network delivers it: an IP header of 20 bytes from the probed
  host, and our packet with type 0 and a new checksum; behind it the receive buffer holds old bytes.
\<close>

definition ip_header_from :: "u8 list \<Rightarrow> u8 list \<Rightarrow> bool" where
  "ip_header_from src h \<longleftrightarrow>
     length h = 20 \<and> h ! 0 = 0x45 \<and> h ! 9 = 1 \<and> field 12 4 h = src \<and> length src = 4"

definition echo_reply_of :: "u8 list \<Rightarrow> u8 list \<Rightarrow> bool" where
  "echo_reply_of request reply \<longleftrightarrow> (\<exists>x y. reply = poke 0 [0, 0, x, y] request)"

definition probe_ok :: "int \<Rightarrow> probe \<Rightarrow> bool" where
  "probe_ok pid p \<longleftrightarrow> 0 \<le> pid \<and> pid < 2 ^ 16 \<and> 0 \<le> pr_seq p \<and> pr_seq p < 2 ^ 16
     \<and> - (2 ^ 31) \<le> pr_peer_id p \<and> pr_peer_id p < 2 ^ 31
     \<and> - (2 ^ 31) \<le> pr_probe_id p \<and> pr_probe_id p < 2 ^ 31
     \<and> timeval_ok (pr_tv p) \<and> uint (pr_time p) < 2 ^ 31"

lemma uint_word_of_int_16: "0 \<le> n \<Longrightarrow> n < 2 ^ 16 \<Longrightarrow> uint (word_of_int n :: u16) = n"
  by (simp add: uint_word_of_int_eq take_bit_int_eq_self)

lemma proc_v4_reply:
  assumes sent: "fill_sendbuf heap max_load p sendbuf = Inr sb" "has_header pid sendbuf"
    and ok: "probe_ok pid p" and ip: "ip_header_from src h"
    and reply: "echo_reply_of (take (packet_len max_load) sb) pkt"
  shows "proc_v4 verbose pid (h @ pkt @ old) (20 + int (packet_len max_load)) tvrecv s =
    Inr (store_sample (inet_ntop4 src) (pr_probe_id p) (pr_peer_id p) (pr_seq p)
      (tparm_new (rtt_of (tv_sub tvrecv (pr_tv p))) (Fin 0) 0 (uint (pr_time p))) s)"
proof -
  define n where "n = packet_len max_load"
  have load: "load_ok max_load" using sent(1) by (simp add: fill_sendbuf_def split: if_splits)
  have n: "52 \<le> n" "n \<le> BUFSIZE" using load_bounds [OF load] by (simp_all add: n_def BUFSIZE_def)
  note layout = fill_sendbuf_layout [OF sent]
  have len: "length sb = BUFSIZE" using layout(1) by (simp add: has_header_def)
  obtain x y where pkt: "pkt = poke 0 [0, 0, x, y] (take n sb)"
    using reply by (auto simp: echo_reply_of_def n_def)
  have fields: "field off k (pkt @ old) = field off k sb" if "4 \<le> off" "off + k \<le> n" for off k
  proof -
    have "field off k (pkt @ old) = field off k pkt"
      using that n len by (simp add: pkt field_def)
    also have "\<dots> = field off k (take n sb)"
      unfolding pkt using that n len by (intro field_poke_other) auto
    finally show ?thesis using that by (simp add: field_take)
  qed
  have h: "length h = 20" "h ! 0 = 0x45" "h ! 9 = 1" "field 12 4 h = src"
    using ip by (simp_all add: ip_header_from_def)
  then have "h \<noteq> []" by auto
  then have hdr: "ip_hlen (h @ pkt @ old) = 20" "ip_p (h @ pkt @ old) = 1" "ip_src (h @ pkt @ old) = src"
    using h by (simp_all add: ip_hlen_def ip_p_def ip_src_def hd_append hd_conv_nth nth_append field_def)
  have ic: "icmp_type (pkt @ old) = 0" "icmp_id (pkt @ old) = word_of_int pid"
    "icmp_seq (pkt @ old) = word_of_int (pr_seq p)"
    using fields [of 4 2] fields [of 6 2] n layout(1,2)
    by (simp_all add: icmp_type_def icmp_id_def icmp_seq_def of_le_bytes_le_bytes has_header_def)
      (simp add: pkt poke_def)
  have "field 8 44 (pkt @ old) = payload_bytes (probe_payload p)"
    using fields [of 8 44] n layout(3) by simp
  then obtain rest where "drop 8 (pkt @ old) = payload_bytes (probe_payload p) @ rest"
    by (metis field_def append_take_drop_id)
  then have pay: "read_payload (drop 8 (pkt @ old)) = probe_payload p"
    using ok by (simp add: read_payload_bytes probe_payload_def probe_ok_def)
  have "- (2 ^ 31) \<le> uint (pr_time p)"
    by (rule order_trans [of _ 0]) (simp_all only: unsigned_greater_eq, simp)
  then have time: "to_int32 (uint (pr_time p)) = uint (pr_time p)"
    using ok by (intro to_int32_id) (simp_all add: probe_ok_def)
  have d20: "drop 20 (h @ pkt @ old) = pkt @ old" using h(1) by simp
  show ?thesis
    unfolding proc_v4_def Let_def hdr d20 pay ic
    using ok n time
    by (simp add: n_def [symmetric] probe_payload_def uint_word_of_int_16 probe_ok_def
        to_int32_uint_32 to_int32_uint_64 to_int32_id)
qed


section \<open>What the receiver changes\<close>

lemma proc_v4_store:
  obtains "proc_v4 False pid buf len tv s = Inr s"
  | src probe_id peer_id seq tp where
      "proc_v4 False pid buf len tv s = Inr (store_sample src probe_id peer_id seq tp s)"
proof (cases "ip_p buf \<noteq> 1 \<or> len - int (ip_hlen buf) < 16 \<or> icmp_type (drop (ip_hlen buf) buf) \<noteq> 0
    \<or> uint (icmp_id (drop (ip_hlen buf) buf)) \<noteq> pid")
  case True
  then have "proc_v4 False pid buf len tv s = Inr s" by (auto simp: proc_v4_def Let_def)
  then show thesis by (rule that(1))
next
  case False
  then show thesis by (intro that(2)) (simp add: proc_v4_def Let_def)
qed

text \<open>Samples are only added, and none of them is null.\<close>

definition samples_grow :: "rdata \<Rightarrow> rdata \<Rightarrow> bool" where
  "samples_grow s s' \<longleftrightarrow> route s' = route s \<and> route_log1 s' = route_log1 s
     \<and> (\<forall>d probe_id peer_id seq.
          sm_at None (seqs_of (r s') d probe_id peer_id) seq = sm_at None (seqs_of (r s) d probe_id peer_id) seq
          \<or> sm_at None (seqs_of (r s) d probe_id peer_id) seq = None)
     \<and> (\<forall>d probe_id peer_id seq.
          sm_find (seqs_of (r s') d probe_id peer_id) seq = Some None
          \<longrightarrow> sm_find (seqs_of (r s) d probe_id peer_id) seq = Some None)
     \<and> (\<forall>d. sm_find (r s) d \<noteq> None \<longrightarrow> sm_find (r s') d \<noteq> None)"

lemma samples_grow_refl: "samples_grow s s"
  by (simp add: samples_grow_def)

lemma samples_grow_store: "samples_grow s (store_sample src probe_id peer_id seq tp s)"
proof -
  have "route (store_sample src probe_id peer_id seq tp s) = route s"
    "route_log1 (store_sample src probe_id peer_id seq tp s) = route_log1 s"
    by (simp_all add: store_sample_def split: option.split)
  moreover have "sm_find (r s) d \<noteq> None \<Longrightarrow> sm_find (r (store_sample src probe_id peer_id seq tp s)) d \<noteq> None" for d
    by (auto simp: store_sample_def split: option.split)
  ultimately show ?thesis
    by (auto simp: samples_grow_def seqs_of_store_sample Let_def sm_at_def split: if_splits)
qed

lemma samples_grow_trans: "samples_grow s t \<Longrightarrow> samples_grow t u \<Longrightarrow> samples_grow s u"
  unfolding samples_grow_def by metis

lemma proc_v4_grows: "\<exists>s'. proc_v4 False pid buf len tv s = Inr s' \<and> samples_grow s s'"
  by (rule proc_v4_store [of pid buf len tv s])
    (auto intro: samples_grow_refl samples_grow_store)

end
