(* ===== verification/Ipv4.thy ===== *)
theory Ipv4
  imports C_String Bytes
begin

text \<open>
  IPv4 addresses: the \<open>inet_pton\<close> of the repository (\<open>src/src/ping_inet_pton_ipv4.cpp\<close>) on top of the C
  library's \<open>inet_aton\<close>, which is the parameter \<open>aton\<close>, and the numbers that addresses denote.
\<close>

definition AF_INET :: int where "AF_INET = 2"

definition AF_INET6 :: int where "AF_INET6 = 10"

text \<open>The result is what is stored: \<open>None\<close> leaves the destination as it is.\<close>

definition inet_pton :: "(string \<Rightarrow> u32 option) \<Rightarrow> int \<Rightarrow> string \<Rightarrow> u32 option" where
  "inet_pton aton family strptr = (if family = AF_INET then aton strptr else None)"


section \<open>Facts\<close>

text \<open>An address as a number, and addresses that agree in their \<open>n\<close> leading bits.\<close>

definition addr_num :: "nat \<Rightarrow> nat \<Rightarrow> nat \<Rightarrow> nat \<Rightarrow> nat" where
  "addr_num a b c d = a * 2 ^ 24 + b * 2 ^ 16 + c * 2 ^ 8 + d"

definition same_prefix :: "nat \<Rightarrow> nat \<Rightarrow> nat \<Rightarrow> bool" where
  "same_prefix n x y \<longleftrightarrow> x div 2 ^ (32 - n) = y div 2 ^ (32 - n)"

definition octets_ok :: "nat \<Rightarrow> nat \<Rightarrow> nat \<Rightarrow> nat \<Rightarrow> bool" where
  "octets_ok a b c d \<longleftrightarrow> a < 256 \<and> b < 256 \<and> c < 256 \<and> d < 256"

text \<open>Addresses and prefixes as the octets they are written with.\<close>

type_synonym address = "nat \<times> nat \<times> nat \<times> nat"

definition addr_text :: "address \<Rightarrow> string" where
  "addr_text = (\<lambda>(a, b, c, d). dotted a b c d)"

definition addr_ok :: "address \<Rightarrow> bool" where
  "addr_ok = (\<lambda>(a, b, c, d). octets_ok a b c d)"

definition addr_val :: "address \<Rightarrow> nat" where
  "addr_val = (\<lambda>(a, b, c, d). addr_num a b c d)"

definition prefix_string :: "nat \<Rightarrow> nat \<Rightarrow> nat \<Rightarrow> nat \<Rightarrow> nat \<Rightarrow> string" where
  "prefix_string a b c d n = dotted a b c d @ ''/'' @ nat_to_string n"

definition prefix_text :: "address \<times> nat \<Rightarrow> string" where
  "prefix_text = (\<lambda>((a, b, c, d), n). prefix_string a b c d n)"

definition in_prefix :: "address \<Rightarrow> address \<times> nat \<Rightarrow> bool" where
  "in_prefix x = (\<lambda>(p, n). same_prefix n (addr_val x) (addr_val p))"

lemma slash_notin_dotted: "CHR ''/'' \<notin> set (dotted a b c d)"
  using nat_to_string_digits digit_not_special by (fastforce simp: dotted_def)

lemma comma_notin_prefix: "CHR '','' \<notin> set (prefix_string a b c d n)"
  using nat_to_string_digits digit_not_special by (fastforce simp: prefix_string_def dotted_def)

lemma unat_of_nat_u8: "n < 256 \<Longrightarrow> unat (of_nat n :: u8) = n"
  by (simp add: unat_of_nat)

lemma s_addr_of_bytes:
  assumes "octets_ok a b c d"
  shows "s_addr_of a b c d = of_le_bytes [of_nat a, of_nat b, of_nat c, of_nat d]"
  using assms
  by (simp add: s_addr_of_def octets_ok_def of_le_bytes_of_nat unat_of_nat_u8 algebra_simps
      del: of_le_bytes.simps)

lemma ntohl_s_addr_of:
  assumes "octets_ok a b c d"
  shows "uint (ntohl (s_addr_of a b c d)) = int (addr_num a b c d)"
proof -
  have "unat (ntohl (s_addr_of a b c d)) = addr_num a b c d"
    using assms
    by (simp add: s_addr_of_bytes ntohl_of_le_bytes unat_of_le_bytes octets_ok_def unat_of_nat_u8
        addr_num_def del: of_le_bytes.simps)
  then show ?thesis by (metis uint_nat)
qed

lemma addr_num_less: "octets_ok a b c d \<Longrightarrow> addr_num a b c d < 2 ^ 32"
  by (simp add: octets_ok_def addr_num_def)

end
