(* ===== verification/Pfr_Customer.thy ===== *)
theory Pfr_Customer
  imports Ipv4
begin

text \<open>
  The customers whose sources are probed (\<open>src/src/pfr_customer.h\<close>, \<open>pfr_customer.cpp\<close>), with the
  \<open>inet_pton\<close> of the repository (\<open>ping_inet_pton_ipv4.cpp\<close>) on top of the C library's \<open>inet_aton\<close>,
  the parameter \<open>aton\<close>.

  \<open>lor\<close> and \<open>hir\<close> are \<open>int\<close>s: an address at or above 128.0.0.0 is negative in them.
\<close>


section \<open>Addresses\<close>

definition ip4_bin :: "(string \<Rightarrow> u32 option) \<Rightarrow> int \<Rightarrow> string \<Rightarrow> int res" where
  "ip4_bin aton family srcaddr =
     (case inet_pton aton family srcaddr of
        None \<Rightarrow> Inl uninitialised
      | Some a \<Rightarrow> Inr (uint (ntohl a)))"

definition is46_addr :: "string \<Rightarrow> int" where
  "is46_addr ip = (case str_find CHR ''.'' ip of Some _ \<Rightarrow> 4 | None \<Rightarrow> 6)"


section \<open>Prefixes\<close>

record pfr_prefix4 =
  p4_prefix :: string
  p4_lor :: int
  p4_hir :: int

definition shir_at :: "string list \<Rightarrow> nat \<Rightarrow> string" where
  "shir_at shir i = (if i < length shir then shir ! i else [])"

text \<open>The last address of the range, as text; it stays empty for a length outside of 0 to 32.\<close>

definition high_addr :: "string list \<Rightarrow> int \<Rightarrow> string res" where
  "high_addr shir prefix_len =
     (if 0 \<le> prefix_len \<and> prefix_len < 8 then
        res_map (\<lambda>n. to_string (n OR drop_bit (nat prefix_len) 255) @ ''.255.255.255'')
          (stoi (shir_at shir 0))
      else if 8 \<le> prefix_len \<and> prefix_len < 16 then
        res_map (\<lambda>n. shir_at shir 0 @ ''.'' @ to_string (n OR drop_bit (nat (prefix_len - 8)) 255)
            @ ''.255.255'') (stoi (shir_at shir 1))
      else if 16 \<le> prefix_len \<and> prefix_len < 24 then
        res_map (\<lambda>n. shir_at shir 0 @ ''.'' @ shir_at shir 1 @ ''.''
            @ to_string (n OR drop_bit (nat (prefix_len - 16)) 255) @ ''.255'') (stoi (shir_at shir 2))
      else if 24 \<le> prefix_len \<and> prefix_len \<le> 32 then
        res_map (\<lambda>n. shir_at shir 0 @ ''.'' @ shir_at shir 1 @ ''.'' @ shir_at shir 2 @ ''.''
            @ to_string (n OR drop_bit (nat (prefix_len - 24)) 255)) (stoi (shir_at shir 3))
      else Inr [])"

definition pfr_prefix4_new :: "(string \<Rightarrow> u32 option) \<Rightarrow> string \<Rightarrow> pfr_prefix4 res" where
  "pfr_prefix4_new aton prefix =
     (let slen = after_char CHR ''/'' prefix; slor = before_char CHR ''/'' prefix;
          shir = split_on CHR ''.'' slor
      in res_bind (stoi slen) (\<lambda>prefix_len.
         res_bind (ip4_bin aton AF_INET slor) (\<lambda>lor.
         if length shir > 4 then Inl (Undefined_Behaviour ''array index'')
         else res_bind (high_addr shir prefix_len) (\<lambda>sshir.
           res_bind (ip4_bin aton AF_INET sshir) (\<lambda>hir.
           Inr \<lparr>p4_prefix = prefix, p4_lor = to_int32 lor, p4_hir = to_int32 hir\<rparr>)))))"

definition prefix4_hit :: "(string \<Rightarrow> u32 option) \<Rightarrow> string \<Rightarrow> pfr_prefix4 \<Rightarrow> bool res" where
  "prefix4_hit aton srcaddr4 p =
     res_map (\<lambda>a. let pfx = to_int32 a in p4_lor p \<le> pfx \<and> pfx \<le> p4_hir p)
       (ip4_bin aton AF_INET srcaddr4)"

text \<open>The constructor of an IPv6 prefix sets nothing, and its test fails before it compares.\<close>

record pfr_prefix6 =
  p6_prefix :: string
  p6_lor :: "int option"
  p6_hir :: "int option"

definition pfr_prefix6_new :: "string \<Rightarrow> pfr_prefix6" where
  "pfr_prefix6_new prefix = \<lparr>p6_prefix = [], p6_lor = None, p6_hir = None\<rparr>"

definition prefix6_hit :: "(string \<Rightarrow> u32 option) \<Rightarrow> string \<Rightarrow> pfr_prefix6 \<Rightarrow> bool res" where
  "prefix6_hit aton srcaddr6 p =
     res_bind (ip4_bin aton AF_INET6 srcaddr6) (\<lambda>a.
       case (p6_lor p, p6_hir p) of
         (Some lo, Some hi) \<Rightarrow> Inr (let pfx = to_int32 a in lo \<le> pfx \<and> pfx \<le> hi)
       | _ \<Rightarrow> Inl uninitialised)"


section \<open>Customers\<close>

record pfr_customer =
  cu_prefix4 :: "pfr_prefix4 list"
  cu_prefix6 :: "pfr_prefix6 list"

definition pfr_customer_default :: pfr_customer where
  "pfr_customer_default = \<lparr>cu_prefix4 = [], cu_prefix6 = []\<rparr>"

text \<open>The rows of the query are a parameter (\<open>None\<close>: no connection).\<close>

definition pfr_customer_new ::
  "(string \<Rightarrow> u32 option) \<Rightarrow> (int \<Rightarrow> string list option) \<Rightarrow> int \<Rightarrow> pfr_customer res" where
  "pfr_customer_new aton prefix_rows customer_id =
     (case prefix_rows customer_id of
        None \<Rightarrow> Inl (Exit 1)
      | Some rows \<Rightarrow> fold_res (\<lambda>pfx cu. res_map (\<lambda>p. cu\<lparr>cu_prefix4 := cu_prefix4 cu @ [p]\<rparr>)
            (pfr_prefix4_new aton pfx)) rows pfr_customer_default)"

text \<open>The loops return at the first hit.\<close>

fun any_hit :: "('p \<Rightarrow> bool res) \<Rightarrow> 'p list \<Rightarrow> bool res" where
  "any_hit f [] = Inr False"
| "any_hit f (p # ps) = res_bind (f p) (\<lambda>b. if b then Inr True else any_hit f ps)"

definition customer_hit :: "(string \<Rightarrow> u32 option) \<Rightarrow> string \<Rightarrow> pfr_customer \<Rightarrow> bool res" where
  "customer_hit aton srcaddr cu =
     (if is46_addr srcaddr = 4 then any_hit (prefix4_hit aton srcaddr) (cu_prefix4 cu)
      else any_hit (prefix6_hit aton srcaddr) (cu_prefix6 cu))"


section \<open>Facts\<close>

definition high_num :: "nat \<Rightarrow> nat \<Rightarrow> nat" where
  "high_num n x = x div 2 ^ (32 - n) * 2 ^ (32 - n) + (2 ^ (32 - n) - 1)"

lemma or_mask_int: "(n :: int) OR mask m = n div 2 ^ m * 2 ^ m + (2 ^ m - 1)"
proof -
  have "n OR mask m = push_bit m (drop_bit m n) OR mask m"
    by (rule bit_eqI) (auto simp: bit_or_iff bit_push_bit_iff bit_drop_bit_eq bit_mask_iff)
  also have "\<dots> = push_bit m (drop_bit m n) + mask m"
    by (rule disjunctive_add [symmetric]) (auto simp: bit_push_bit_iff bit_mask_iff)
  finally show ?thesis by (simp add: push_bit_eq_mult drop_bit_eq_div mask_eq_exp_minus_1)
qed

definition high_octet :: "nat \<Rightarrow> nat \<Rightarrow> nat" where
  "high_octet k a = a div 2 ^ (8 - k) * 2 ^ (8 - k) + (2 ^ (8 - k) - 1)"

lemma drop_bit_255:
  assumes "k \<le> 8"
  shows "drop_bit k (255 :: int) = mask (8 - k)"
proof -
  have "drop_bit k (mask 8 :: int) = mask (8 - k)"
    using assms by (intro bit_eqI) (auto simp: bit_drop_bit_eq bit_mask_iff)
  then show ?thesis by (simp add: mask_eq_exp_minus_1)
qed

lemma to_string_or:
  "k \<le> 8 \<Longrightarrow> to_string (int a OR drop_bit k 255) = nat_to_string (high_octet k a)"
proof -
  assume "k \<le> 8"
  moreover have "int (2 ^ (8 - k) - 1 :: nat) = 2 ^ (8 - k) - 1" by (simp add: of_nat_diff)
  ultimately have "int a OR drop_bit k 255 = int (high_octet k a)"
    unfolding high_octet_def of_nat_add by (simp add: drop_bit_255 or_mask_int zdiv_int)
  then show ?thesis by (simp add: to_string_def)
qed

lemma high_octet_less:
  assumes "a < 256" and "k \<le> 8"
  shows "high_octet k a < 256"
proof -
  have p: "(256::nat) = 2 ^ k * 2 ^ (8 - k)" using assms(2) by (simp flip: power_add)
  then have "a div 2 ^ (8 - k) < 2 ^ k" using assms(1) by (simp add: less_mult_imp_div_less)
  then have "(a div 2 ^ (8 - k) + 1) * 2 ^ (8 - k) \<le> 2 ^ k * 2 ^ (8 - k)"
    by (intro mult_right_mono) auto
  moreover have "1 \<le> (2::nat) ^ (8 - k)" by simp
  ultimately show ?thesis unfolding p high_octet_def
    by (simp only: distrib_right mult_1) linarith
qed

text \<open>The octets in front of the one that is changed, and those behind it.\<close>

lemma high_num_octet:
  assumes "k \<le> 8" and "r < 2 ^ w" and "w + 8 \<le> 32"
  shows "high_num (24 - w + k) (h * 2 ^ (w + 8) + a * 2 ^ w + r)
    = h * 2 ^ (w + 8) + high_octet k a * 2 ^ w + (2 ^ w - 1)"
proof -
  define m where "m = 8 - k"
  have e: "32 - (24 - w + k) = m + w" using assms by (simp add: m_def)
  have w8: "(2::nat) ^ (w + 8) = 2 ^ k * 2 ^ m * 2 ^ w"
  proof -
    have "(2::nat) ^ k * 2 ^ m = 2 ^ 8" using assms(1) by (simp only: m_def flip: power_add) simp
    then show ?thesis by (simp add: power_add)
  qed
  have "(h * 2 ^ (w + 8) + a * 2 ^ w + r) div 2 ^ (m + w) = (h * 2 ^ k * 2 ^ m + a) div 2 ^ m"
  proof -
    have "h * 2 ^ (w + 8) + a * 2 ^ w + r = (h * 2 ^ k * 2 ^ m + a) * 2 ^ w + r"
      by (simp add: w8 algebra_simps)
    moreover have "((h * 2 ^ k * 2 ^ m + a) * 2 ^ w + r) div 2 ^ w = h * 2 ^ k * 2 ^ m + a"
      using assms(2) by simp
    ultimately show ?thesis
      by (simp only: power_add mult.commute [of "2 ^ m" "2 ^ w"] div_mult2_eq)
  qed
  also have "\<dots> = h * 2 ^ k + a div 2 ^ m" by simp
  finally have "high_num (24 - w + k) (h * 2 ^ (w + 8) + a * 2 ^ w + r)
      = (h * 2 ^ k + a div 2 ^ m) * 2 ^ (m + w) + (2 ^ (m + w) - 1)"
    by (simp add: high_num_def e)
  also have "\<dots> = h * 2 ^ (w + 8) + high_octet k a * 2 ^ w + (2 ^ w - 1)"
  proof -
    obtain P W :: nat where "2 ^ m = Suc P" "2 ^ w = Suc W"
      by (metis Suc_pred pos2 zero_less_power)
    then show ?thesis
      unfolding high_octet_def m_def [symmetric] w8 power_add [of _ m w]
      by (simp add: algebra_simps)
  qed
  finally show ?thesis .
qed

lemma split_dotted:
  "split_on CHR ''.'' (dotted a b c d) = [nat_to_string a, nat_to_string b, nat_to_string c, nat_to_string d]"
  by (simp add: dotted_def split_on_append split_on_none dot_notin_nat_to_string)

lemma nat_to_string_255: "nat_to_string 255 = ''255''"
  by code_simp

lemma high_addr_dotted:
  assumes "octets_ok a b c d" and "n \<le> 32"
  obtains e f g h where "octets_ok e f g h"
    and "addr_num e f g h = high_num n (addr_num a b c d)"
    and "high_addr [nat_to_string a, nat_to_string b, nat_to_string c, nat_to_string d] (int n)
      = Inr (dotted e f g h)"
proof -
  note o = octets_ok_def addr_num_def
  have ab: "a < 256" "b < 256" "c < 256" "d < 256" using assms(1) by (simp_all add: octets_ok_def)
  have st: "stoi (nat_to_string x) = Inr (int x)" if "x < 256" for x
    using that stoi_to_string [of "int x"] by (simp add: to_string_def)
  note simps = high_addr_def shir_at_def st ab to_string_or dotted_def nat_to_string_255
  consider "n < 8" | "8 \<le> n" "n < 16" | "16 \<le> n" "n < 24" | "24 \<le> n" using assms(2) by linarith
  then show thesis
  proof cases
    case 1
    show thesis
    proof (rule that)
      show "octets_ok (high_octet n a) 255 255 255"
        using 1 ab high_octet_less [of a n] by (simp add: o)
      show "addr_num (high_octet n a) 255 255 255 = high_num n (addr_num a b c d)"
        using high_num_octet [of n "b * 2 ^ 16 + c * 2 ^ 8 + d" 24 0 a] 1 ab by (simp add: addr_num_def add.assoc)
    qed (use 1 in \<open>simp add: simps\<close>)
  next
    case 2
    show thesis
    proof (rule that)
      show "octets_ok a (high_octet (n - 8) b) 255 255"
        using 2 ab high_octet_less [of b "n - 8"] by (simp add: o)
      show "addr_num a (high_octet (n - 8) b) 255 255 = high_num n (addr_num a b c d)"
        using high_num_octet [of "n - 8" "c * 2 ^ 8 + d" 16 a b] 2 ab by (simp add: addr_num_def add.assoc)
    qed (use 2 in \<open>simp add: simps nat_diff_distrib'\<close>)
  next
    case 3
    show thesis
    proof (rule that)
      show "octets_ok a b (high_octet (n - 16) c) 255"
        using 3 ab high_octet_less [of c "n - 16"] by (simp add: o)
      show "addr_num a b (high_octet (n - 16) c) 255 = high_num n (addr_num a b c d)"
        using high_num_octet [of "n - 16" d 8 "a * 256 + b" c] 3 ab by (simp add: addr_num_def mult.commute)
    qed (use 3 in \<open>simp add: simps nat_diff_distrib'\<close>)
  next
    case 4
    show thesis
    proof (rule that)
      show "octets_ok a b c (high_octet (n - 24) d)"
        using 4 ab assms(2) high_octet_less [of d "n - 24"] by (simp add: o)
      show "addr_num a b c (high_octet (n - 24) d) = high_num n (addr_num a b c d)"
        using high_num_octet [of "n - 24" 0 0 "a * 65536 + b * 256 + c" d] 4 ab assms(2)
        by (simp add: addr_num_def mult.commute)
    qed (use 4 assms(2) in \<open>simp add: simps nat_diff_distrib'\<close>)
  qed
qed

context address_parser
begin

lemma ip4_bin_dotted:
  assumes "octets_ok a b c d"
  shows "ip4_bin aton AF_INET (dotted a b c d) = Inr (int (addr_num a b c d))"
  using assms ntohl_s_addr_of [OF assms]
  by (simp add: ip4_bin_def inet_pton_def aton_dotted octets_ok_def)

lemma prefix4_new_dotted:
  assumes "octets_ok a b c d" and "n \<le> 32"
  shows "pfr_prefix4_new aton (prefix_string a b c d n) = Inr \<lparr>
    p4_prefix = prefix_string a b c d n, p4_lor = to_int32 (int (addr_num a b c d)),
    p4_hir = to_int32 (int (high_num n (addr_num a b c d)))\<rparr>"
proof -
  obtain e f g h where hi: "octets_ok e f g h"
    "addr_num e f g h = high_num n (addr_num a b c d)"
    "high_addr [nat_to_string a, nat_to_string b, nat_to_string c, nat_to_string d] (int n)
      = Inr (dotted e f g h)"
    using high_addr_dotted [OF assms] by blast
  have st: "stoi (nat_to_string n) = Inr (int n)"
    using assms(2) stoi_to_string [of "int n"] by (simp add: to_string_def)
  show ?thesis
    using hi
    by (simp add: pfr_prefix4_new_def prefix_string_def before_after_append [OF slash_notin_dotted] st Let_def
        ip4_bin_dotted [OF assms(1)] ip4_bin_dotted [OF hi(1)] split_dotted)
qed

end

lemma to_int32_unsigned:
  assumes "x < 2 ^ 32"
  shows "to_int32 (int x) = (if x < 2 ^ 31 then int x else int x - 2 ^ 32)"
proof (cases "x < 2 ^ 31")
  case True
  then show ?thesis by (simp add: to_int32_id)
next
  case False
  have "(int x + 2147483648) mod 4294967296 = int x - 2147483648"
    using False assms by (intro int_mod_pos_eq [of _ _ 1]) auto
  then show ?thesis
    using False by (simp add: to_int32_def signed_take_bit_eq_take_bit_shift take_bit_eq_mod)
qed

text \<open>With a length of at least 1 the ends of a range have the same sign.\<close>

lemma high_num_range:
  assumes "1 \<le> n" and "n \<le> 32" and "x < 2 ^ 32"
  shows "x \<le> high_num n x" and "high_num n x < 2 ^ 32"
    and "high_num n x < 2 ^ 31 \<longleftrightarrow> x < 2 ^ 31"
    and "y \<le> high_num n x \<and> x \<le> y \<longleftrightarrow> same_prefix n y x \<and> x \<le> y"
proof -
  define P where "P = (2::nat) ^ (32 - n)"
  define q where "q = x div P"
  have P: "0 < P" by (simp add: P_def)
  have h: "high_num n x = q * P + (P - 1)" by (simp add: high_num_def P_def q_def)
  have x: "q * P \<le> x" "x < q * P + P"
    using div_mult_mod_eq [of x P] mod_less_divisor [OF P, of x] unfolding q_def by linarith+
  show "x \<le> high_num n x" using x P by (simp add: h)
  have half: "q * P + (P - 1) < M * P \<longleftrightarrow> x < M * P" for M
  proof
    assume "x < M * P"
    then have "q < M" using P by (simp add: q_def less_mult_imp_div_less)
    then have "(q + 1) * P \<le> M * P" by (intro mult_right_mono) auto
    then show "q * P + (P - 1) < M * P" using P by simp
  qed (use x in simp)
  have p32: "2 ^ 32 = (2::nat) ^ n * P" using assms by (simp add: P_def flip: power_add)
  have p31: "2 ^ 31 = (2::nat) ^ (n - 1) * P" using assms by (simp add: P_def flip: power_add)
  show "high_num n x < 2 ^ 32" using half assms(3) by (simp only: h p32)
  show "high_num n x < 2 ^ 31 \<longleftrightarrow> x < 2 ^ 31" using half by (simp only: h p31)
  have "y \<le> q * P + (P - 1) \<longleftrightarrow> y div P = q" if "x \<le> y"
  proof
    assume "y \<le> q * P + (P - 1)"
    moreover have "q * P \<le> y" using that x by simp
    ultimately show "y div P = q" using P by (intro div_nat_eqI) (auto simp: algebra_simps)
  next
    assume "y div P = q"
    then show "y \<le> q * P + (P - 1)"
      using div_mult_mod_eq [of y P] mod_less_divisor [OF P, of y] by simp
  qed
  then show "y \<le> high_num n x \<and> x \<le> y \<longleftrightarrow> same_prefix n y x \<and> x \<le> y"
    by (auto simp: h same_prefix_def P_def q_def)
qed

context address_parser
begin

lemma prefix4_hit_dotted:
  assumes "octets_ok a b c d" and "octets_ok e f g h" and "1 \<le> n" and "n \<le> 32"
  shows "res_bind (pfr_prefix4_new aton (prefix_string a b c d n)) (prefix4_hit aton (dotted e f g h))
    = Inr (same_prefix n (addr_num e f g h) (addr_num a b c d) \<and> addr_num a b c d \<le> addr_num e f g h)"
proof -
  define x y where "x = addr_num a b c d" and "y = addr_num e f g h"
  have xy: "x < 2 ^ 32" "y < 2 ^ 32" using assms addr_num_less by (simp_all add: x_def y_def)
  note hn = high_num_range [OF assms(3,4) xy(1)]
  have "to_int32 (int x) \<le> to_int32 (int y) \<and> to_int32 (int y) \<le> to_int32 (int (high_num n x))
      \<longleftrightarrow> y \<le> high_num n x \<and> x \<le> y"
    using hn(1-3) xy by (auto simp: to_int32_unsigned)
  then show ?thesis
    using hn(4) [of y]
    by (simp add: prefix4_new_dotted [OF assms(1,4)] prefix4_hit_def ip4_bin_dotted [OF assms(2)]
        x_def y_def)
qed

end

text \<open>A customer with the prefixes \<open>ps\<close>.\<close>

definition customer_prefix_ok :: "address \<times> nat \<Rightarrow> bool" where
  "customer_prefix_ok = (\<lambda>(p, n). addr_ok p \<and> 1 \<le> n \<and> n \<le> 32)"

definition prefix_covers :: "address \<Rightarrow> address \<times> nat \<Rightarrow> bool" where
  "prefix_covers x p \<longleftrightarrow> in_prefix x p \<and> addr_val (fst p) \<le> addr_val x"

lemma is46_addr_text: "is46_addr (addr_text x) = 4"
  using str_find_None_iff [of "CHR ''.''" "addr_text x"]
  by (cases x) (auto simp: is46_addr_def addr_text_def dotted_def split: option.splits)

context address_parser
begin

lemma customer_prefixes_new:
  assumes "\<forall>p \<in> set ps. customer_prefix_ok p"
  shows "\<exists>cs. fold_res (\<lambda>pfx cu. res_map (\<lambda>p. cu\<lparr>cu_prefix4 := cu_prefix4 cu @ [p]\<rparr>)
      (pfr_prefix4_new aton pfx)) (map prefix_text ps) cu = Inr (cu\<lparr>cu_prefix4 := cu_prefix4 cu @ cs\<rparr>)
    \<and> list_all2 (\<lambda>p c. pfr_prefix4_new aton (prefix_text p) = Inr c) ps cs"
  using assms
proof (induction ps arbitrary: cu)
  case (Cons p ps)
  obtain a b c d n where p: "p = ((a, b, c, d), n)" by (metis prod.exhaust)
  obtain q where q: "pfr_prefix4_new aton (prefix_text p) = Inr q"
    using prefix4_new_dotted [of a b c d n] Cons.prems
    by (simp add: p prefix_text_def customer_prefix_ok_def addr_ok_def)
  show ?case
    using Cons.IH [of "cu\<lparr>cu_prefix4 := cu_prefix4 cu @ [q]\<rparr>"] Cons.prems q
    by (auto intro: exI [of _ "q # _"])
qed simp

lemma prefix4_hit_covers:
  assumes "customer_prefix_ok p" and "addr_ok x" and "pfr_prefix4_new aton (prefix_text p) = Inr c"
  shows "prefix4_hit aton (addr_text x) c = Inr (prefix_covers x p)"
proof -
  obtain a b c' d n e f g h where "p = ((a, b, c', d), n)" "x = (e, f, g, h)" by (metis prod.exhaust)
  then show ?thesis
    using prefix4_hit_dotted [of a b c' d e f g h n] assms
    by (simp add: prefix_text_def customer_prefix_ok_def addr_ok_def addr_text_def prefix_covers_def
        in_prefix_def addr_val_def)
qed

lemma customer_hit_prefixes:
  assumes "prefix_rows customer_id = Some (map prefix_text ps)"
    and "\<forall>p \<in> set ps. customer_prefix_ok p" and "addr_ok x"
  shows "res_bind (pfr_customer_new aton prefix_rows customer_id) (customer_hit aton (addr_text x))
    = Inr (\<exists>p \<in> set ps. prefix_covers x p)"
proof -
  obtain cs where cs: "pfr_customer_new aton prefix_rows customer_id
      = Inr (pfr_customer_default\<lparr>cu_prefix4 := cs\<rparr>)"
    "list_all2 (\<lambda>p c. pfr_prefix4_new aton (prefix_text p) = Inr c) ps cs"
    using customer_prefixes_new [OF assms(2), of pfr_customer_default]
    by (auto simp: pfr_customer_new_def assms(1) pfr_customer_default_def)
  from cs(2) assms(2) have "any_hit (prefix4_hit aton (addr_text x)) cs = Inr (\<exists>p \<in> set ps. prefix_covers x p)"
    by (induction ps cs rule: list_all2_induct) (auto simp: prefix4_hit_covers [OF _ assms(3)])
  then show ?thesis by (simp add: cs(1) customer_hit_def is46_addr_text)
qed

end

section \<open>Properties\<close>

text \<open>
  C22. The customer test refines the prefixes of the database: a customer made from the IPv4 prefixes
  \<open>ps\<close> (of lengths 1 to 32) accepts an IPv4 address exactly if one of the prefixes contains it and is
  written with an address not above it (as a prefix written with its network address always is).
\<close>

theorem customer_hit_iff:
  assumes "address_parser aton" and "prefix_rows customer_id = Some (map prefix_text ps)"
    and "\<forall>(p, n) \<in> set ps. addr_ok p \<and> 1 \<le> n \<and> n \<le> 32" and "addr_ok x"
  shows "res_bind (pfr_customer_new aton prefix_rows customer_id) (customer_hit aton (addr_text x))
    = Inr (\<exists>p \<in> set ps. in_prefix x p \<and> addr_val (fst p) \<le> addr_val x)"
proof -
  have "\<forall>p \<in> set ps. customer_prefix_ok p" using assms(3) by (auto simp: customer_prefix_ok_def)
  from address_parser.customer_hit_prefixes [where prefix_rows = prefix_rows and customer_id = customer_id,
      OF assms(1,2) this assms(4)]
  show ?thesis by (simp add: prefix_covers_def)
qed

theorem customer_hit_iff_witness:
  "res_bind (pfr_customer_new aton_dotted (\<lambda>_. Some (map prefix_text [((10, 1, 0, 0), 16)])) 7)
      (customer_hit aton_dotted (addr_text (10, 1, 2, 3)))
    = Inr (\<exists>p \<in> set [((10, 1, 0, 0), 16)]. in_prefix (10, 1, 2, 3) p \<and> addr_val (fst p) \<le> addr_val (10, 1, 2, 3))"
  by (rule customer_hit_iff [OF dotted_quad.address_parser_axioms])
    (simp_all add: addr_ok_def octets_ok_def)

text \<open>
  The prefix \<open>0.0.0.0/0\<close> accepts no address: its upper end, 255.255.255.255, is -1 as an \<open>int\<close>, and
  the range is empty.
\<close>

lemma default_prefix_misses:
  assumes "address_parser aton" and "addr_ok x"
  shows "res_bind (pfr_prefix4_new aton ''0.0.0.0/0'') (prefix4_hit aton (addr_text x)) = Inr False"
proof -
  have "prefix_string 0 0 0 0 0 = ''0.0.0.0/0''" by code_simp
  then have p: "pfr_prefix4_new aton ''0.0.0.0/0'' = Inr \<lparr>p4_prefix = ''0.0.0.0/0'', p4_lor = 0, p4_hir = - 1\<rparr>"
    using address_parser.prefix4_new_dotted [OF assms(1), of 0 0 0 0 0]
    by (simp add: octets_ok_def addr_num_def high_num_def to_int32_def)
  obtain a b c d where x: "x = (a, b, c, d)" by (metis prod.exhaust)
  then show ?thesis
    using assms(2) address_parser.ip4_bin_dotted [OF assms(1), of a b c d]
    by (simp add: p prefix4_hit_def addr_text_def addr_ok_def Let_def)
qed

end
