(* ===== verification/Pfr_Localnets.thy ===== *)
theory Pfr_Localnets
  imports Ipv4
begin

text \<open>
  The networks whose hosts are not probed: the class \<open>pfr_localnets\<close> (\<open>src/src/pfr_localnets.h\<close>,
  \<open>pfr_localnets.cpp\<close>), and the function \<open>is_host_in_network\<close> of \<open>pfr_lib.cpp\<close>.

  The text of a mask is printed into \<open>char network_mask[15]\<close>, which holds 14 characters and the
  terminating zero; a longer text is a buffer overflow.  A network whose text does not parse keeps what
  \<open>malloc\<close> left in its field, which is \<open>None\<close>.
\<close>


section \<open>The text of a mask\<close>

text \<open>\<open>(0xFFFFFFFF << (32 - prefix)) & 0xFFFFFFFF\<close>: a shift by a count outside of 0 to 31 is undefined.\<close>

definition prefix_mask :: "int \<Rightarrow> u32 res" where
  "prefix_mask prefix =
     (if 0 \<le> 32 - prefix \<and> 32 - prefix < 32 then Inr (push_bit (nat (32 - prefix)) 0xFFFFFFFF)
      else Inl (Undefined_Behaviour ''shift count''))"

definition network_mask :: "u32 \<Rightarrow> string res" where
  "network_mask m =
     (let text = dotted (unat (drop_bit 24 m)) (unat (drop_bit 16 m AND 0xFF))
           (unat (drop_bit 8 m AND 0xFF)) (unat (m AND 0xFF))
      in if length text + 1 > 15 then Inl (Undefined_Behaviour ''buffer overflow'') else Inr text)"

definition mask_text :: "int \<Rightarrow> string res" where
  "mask_text prefix = res_bind (prefix_mask prefix) network_mask"


section \<open>\<open>pfr_localnets\<close>\<close>

record net =
  n_net :: "u32 option"
  n_mask :: "u32 option"

definition parse_net ::
  "((char \<Rightarrow> bool) \<Rightarrow> string \<Rightarrow> string list) \<Rightarrow> (string \<Rightarrow> u32 option) \<Rightarrow> string \<Rightarrow> net res" where
  "parse_net split aton prefix =
     (case split (\<lambda>c. c = CHR ''/'') prefix of
        a # n # _ \<Rightarrow> res_map (\<lambda>text.
            \<lparr>n_net = inet_pton aton AF_INET a, n_mask = inet_pton aton AF_INET text\<rparr>)
            (mask_text (atoi n))
      | _ \<Rightarrow> Inl (Undefined_Behaviour ''vector index''))"

definition pfr_localnets ::
  "((char \<Rightarrow> bool) \<Rightarrow> string \<Rightarrow> string list) \<Rightarrow> (string \<Rightarrow> u32 option) \<Rightarrow> string \<Rightarrow> net list res" where
  "pfr_localnets split aton localnets =
     fold_res (\<lambda>prefix nets. res_map (\<lambda>n. nets @ [n]) (parse_net split aton prefix))
       (split (\<lambda>c. c = CHR '','') localnets) []"

text \<open>The loop does not stop at a match.  \<open>host\<close> has no value when the text does not parse.\<close>

definition net_step :: "u32 option \<Rightarrow> net \<Rightarrow> bool \<Rightarrow> bool res" where
  "net_step host n matched =
     (case (host, n_net n, n_mask n) of
        (Some h, Some a, Some m) \<Rightarrow> Inr (if a AND m = h AND m then True else matched)
      | _ \<Rightarrow> Inl uninitialised)"

definition localnets_host :: "(string \<Rightarrow> u32 option) \<Rightarrow> string \<Rightarrow> net list \<Rightarrow> bool res" where
  "localnets_host aton hoststr nets =
     fold_res (net_step (inet_pton aton AF_INET hoststr)) nets False"


section \<open>\<open>is_host_in_network\<close>\<close>

definition is_host_in_network ::
  "(string \<Rightarrow> u32 option) \<Rightarrow> string \<Rightarrow> int \<Rightarrow> string \<Rightarrow> bool res" where
  "is_host_in_network aton netstr prefix hoststr =
     res_bind (mask_text prefix) (\<lambda>text.
       case (inet_pton aton AF_INET text, inet_pton aton AF_INET netstr, inet_pton aton AF_INET hoststr) of
         (Some netmask, Some net, Some host) \<Rightarrow> Inr (net AND netmask = host AND netmask)
       | _ \<Rightarrow> Inl uninitialised)"


section \<open>Facts\<close>

text \<open>The mask of a length, and its octets.\<close>

definition mask_num :: "nat \<Rightarrow> nat" where
  "mask_num n = 2 ^ 32 - 2 ^ (32 - n)"

definition mask_dotted :: "nat \<Rightarrow> string" where
  "mask_dotted n = (let m = mask_num n
     in dotted (m div 2 ^ 24) (m div 2 ^ 16 mod 256) (m div 2 ^ 8 mod 256) (m mod 256))"

lemma prefix_mask_num:
  assumes "1 \<le> n" and "n \<le> 32"
  obtains w where "prefix_mask (int n) = Inr w" and "unat w = mask_num n"
proof
  define k where "k = 32 - n"
  have k: "k < 32" using assms by (simp add: k_def)
  show "prefix_mask (int n) = Inr (push_bit k 0xFFFFFFFF)"
    using assms by (simp add: prefix_mask_def k_def nat_diff_distrib')
  have "(0xFFFFFFFF :: nat) * 2 ^ k = 2 ^ 32 * 2 ^ k - 2 ^ k" by (simp add: diff_mult_distrib)
  also have "\<dots> = (2 ^ k - 1) * 2 ^ 32 + (2 ^ 32 - 2 ^ k)"
  proof -
    have "2 ^ k \<le> (2::nat) ^ 32" using k by (intro power_increasing) auto
    moreover have "1 \<le> (2::nat) ^ k" by simp
    ultimately show ?thesis by (simp add: diff_mult_distrib)
  qed
  finally have "0xFFFFFFFF * 2 ^ k mod 2 ^ 32 = (2 ^ 32 - 2 ^ k) mod (2 ^ 32 :: nat)"
    by (metis mod_mult_self3)
  also have "\<dots> = 2 ^ 32 - 2 ^ k" by (rule mod_less) simp
  finally show "unat (push_bit k (0xFFFFFFFF :: u32)) = mask_num n"
    by (simp only: unsigned_push_bit_eq)
      (simp add: take_bit_eq_mod push_bit_eq_mult mask_num_def k_def)
qed

lemma unat_shift_and:
  "unat (drop_bit k (w :: u32)) = unat w div 2 ^ k"
  "unat (drop_bit k w AND 0xFF) = unat w div 2 ^ k mod 256"
  "unat (w AND 0xFF) = unat w mod 256"
proof -
  show d: "unat (drop_bit k w) = unat w div 2 ^ k" for k and w :: u32
    using unsigned_less [of w, where 'a = nat]
    by (simp only: unsigned_drop_bit_eq) (simp add: drop_bit_eq_div take_bit_nat_eq_self)
  show m: "unat (w AND 0xFF) = unat w mod 256" for w :: u32
  proof -
    have "w AND 0xFF = take_bit 8 w" by (simp add: take_bit_eq_mask mask_eq_exp_minus_1)
    then show ?thesis by (simp only: unsigned_take_bit_eq) (simp add: take_bit_eq_mod)
  qed
  show "unat (drop_bit k w AND 0xFF) = unat w div 2 ^ k mod 256" by (simp only: m d)
qed

text \<open>How long the text of a mask is: up to 24 bits leave the last octet 0, longer ones fill three octets.\<close>

lemma mask_dotted_short:
  assumes "n \<le> 24"
  shows "length (mask_dotted n) \<le> 13"
proof -
  have "32 - n = 8 + (24 - n)" using assms by simp
  then have "(2::nat) ^ (32 - n) = 256 * 2 ^ (24 - n)" by (simp only: power_add) simp
  moreover have "(2::nat) ^ 32 = 256 * 2 ^ 24" by simp
  ultimately have "mask_num n = 256 * (2 ^ 24 - 2 ^ (24 - n))"
    unfolding mask_num_def by (simp only: diff_mult_distrib2)
  then have "mask_num n mod 256 = 0" by simp
  moreover have "mask_num n < 2 ^ 32" by (simp add: mask_num_def)
  then have "mask_num n div 2 ^ 24 < 256" by (simp add: less_mult_imp_div_less)
  ultimately show ?thesis
    using length_octet_le [of "mask_num n div 2 ^ 24"]
      length_octet_le [of "mask_num n div 2 ^ 16 mod 256"]
      length_octet_le [of "mask_num n div 2 ^ 8 mod 256"] length_nat_to_string(1) [of 0]
    by (simp add: mask_dotted_def Let_def length_dotted)
qed

lemma mask_dotted_long:
  assumes "24 < n" and "n \<le> 32"
  shows "length (mask_dotted n) = 15"
proof -
  define k where "k = 32 - n"
  have "(2::nat) ^ k \<le> 2 ^ 7" using assms by (intro power_increasing) (auto simp: k_def)
  moreover have "0 < (2::nat) ^ k" by simp
  moreover have m: "mask_num n = 4294967296 - 2 ^ k" by (simp add: mask_num_def k_def)
  ultimately have "4294967168 \<le> mask_num n" "mask_num n < 4294967296" by simp_all
  then have d: "mask_num n div 2 ^ 24 = 255" "mask_num n div 2 ^ 16 = 65535"
    "mask_num n div 2 ^ 8 = 16777215"
    by (auto intro!: div_nat_eqI)
  have "mask_num n = mask_num n div 2 ^ 8 * 2 ^ 8 + mask_num n mod 2 ^ 8" by (rule div_mult_mod_eq [symmetric])
  then have "128 \<le> mask_num n mod 256"
    using \<open>4294967168 \<le> mask_num n\<close> unfolding d by simp
  then show ?thesis
    using length_nat_to_string(3) [of 255] length_nat_to_string(3) [of "mask_num n mod 256"]
      mod_less_divisor [of 256 "mask_num n"]
    by (simp add: mask_dotted_def Let_def length_dotted d [simplified] del: mod_less_divisor)
qed

lemma mask_text_num:
  assumes "1 \<le> n" and "n \<le> 32"
  shows "mask_text (int n) = (if n \<le> 24 then Inr (mask_dotted n)
    else Inl (Undefined_Behaviour ''buffer overflow''))"
proof -
  obtain w where w: "prefix_mask (int n) = Inr w" "unat w = mask_num n"
    using prefix_mask_num [OF assms] by blast
  have "mask_text (int n) = (if length (mask_dotted n) + 1 > 15
      then Inl (Undefined_Behaviour ''buffer overflow'') else Inr (mask_dotted n))"
    by (simp add: mask_text_def w network_mask_def Let_def unat_shift_and mask_dotted_def)
  then show ?thesis
    using mask_dotted_short [of n] mask_dotted_long [of n] assms by (cases "n \<le> 24") simp_all
qed

text \<open>Comparing under a mask is comparing the leading bits, in either byte order.\<close>

lemma bit_ntohl: "bit (ntohl u) i \<longleftrightarrow> i < 32 \<and> bit u (8 * (3 - i div 8) + i mod 8)"
proof (cases "i < 32")
  case True
  then have "i div 8 < 4" by simp
  then show ?thesis
    using True swap_endian_rev [of 4 u]
    by (simp add: ntohl_def bit_of_le_bytes rev_nth nth_le_bytes bit_ucast_iff bit_drop_bit_eq)
qed (use bit_imp_le_length [of "ntohl u" i] in auto)

lemma ntohl_and: "ntohl (u AND v) = ntohl u AND ntohl v"
  by (rule bit_word_eqI) (auto simp: bit_ntohl bit_and_iff)

lemma ntohl_inject: "ntohl u = ntohl v \<longleftrightarrow> u = v"
  unfolding ntohl_def by (metis swap_endian_32)

lemma and_push_mask:
  assumes "k \<le> 32"
  shows "x AND push_bit k 0xFFFFFFFF = y AND push_bit k 0xFFFFFFFF
    \<longleftrightarrow> unat (x :: u32) div 2 ^ k = unat y div 2 ^ k"
proof -
  have b: "bit (push_bit k (0xFFFFFFFF :: u32)) i \<longleftrightarrow> k \<le> i \<and> i < 32" for i
  proof -
    have m: "(0xFFFFFFFF :: u32) = mask 32" by (simp add: mask_eq_exp_minus_1)
    show ?thesis unfolding m by (auto simp: bit_push_bit_iff bit_mask_iff)
  qed
  have "x AND push_bit k 0xFFFFFFFF = y AND push_bit k 0xFFFFFFFF \<longleftrightarrow> drop_bit k x = drop_bit k y"
  proof
    assume eq: "x AND push_bit k 0xFFFFFFFF = y AND push_bit k 0xFFFFFFFF"
    show "drop_bit k x = drop_bit k y"
    proof (rule bit_word_eqI)
      fix i
      have "bit (x AND push_bit k 0xFFFFFFFF) (k + i) = bit (y AND push_bit k 0xFFFFFFFF) (k + i)"
        using eq by (rule arg_cong)
      then show "bit (drop_bit k x) i \<longleftrightarrow> bit (drop_bit k y) i"
        using bit_imp_le_length [of x "k + i"] bit_imp_le_length [of y "k + i"]
        by (auto simp: bit_and_iff b bit_drop_bit_eq)
    qed
  next
    assume eq: "drop_bit k x = drop_bit k y"
    show "x AND push_bit k 0xFFFFFFFF = y AND push_bit k 0xFFFFFFFF"
    proof (rule bit_word_eqI)
      fix i
      have "bit (drop_bit k x) (i - k) = bit (drop_bit k y) (i - k)" using eq by (rule arg_cong)
      then show "bit (x AND push_bit k 0xFFFFFFFF) i \<longleftrightarrow> bit (y AND push_bit k 0xFFFFFFFF) i"
        by (auto simp: bit_and_iff b bit_drop_bit_eq)
    qed
  qed
  also have "\<dots> \<longleftrightarrow> unat (drop_bit k x) = unat (drop_bit k y)" by (simp only: word_eq_iff_unsigned [where 'a = nat])
  finally show ?thesis by (simp only: unat_shift_and)
qed

text \<open>A list of networks as it is configured.\<close>

fun join_with :: "char \<Rightarrow> string list \<Rightarrow> string" where
  "join_with c [] = []"
| "join_with c [t] = t"
| "join_with c (t # u # ts) = t @ [c] @ join_with c (u # ts)"

definition nets_text :: "(address \<times> nat) list \<Rightarrow> string" where
  "nets_text ps = join_with CHR '','' (map prefix_text ps)"

definition net_ok :: "address \<times> nat \<Rightarrow> bool" where
  "net_ok = (\<lambda>(p, n). addr_ok p \<and> 1 \<le> n \<and> n \<le> 24)"

lemma octets_of_num:
  assumes "m < 2 ^ 32"
  shows "octets_ok (m div 2 ^ 24) (m div 2 ^ 16 mod 256) (m div 2 ^ 8 mod 256) (m mod 256)"
    and "addr_num (m div 2 ^ 24) (m div 2 ^ 16 mod 256) (m div 2 ^ 8 mod 256) (m mod 256) = m"
proof -
  show "octets_ok (m div 2 ^ 24) (m div 2 ^ 16 mod 256) (m div 2 ^ 8 mod 256) (m mod 256)"
    using assms by (simp add: octets_ok_def less_mult_imp_div_less)
  define q1 q2 q3 where "q1 = m div 256" and "q2 = q1 div 256" and "q3 = q2 div 256"
  have q: "m div 2 ^ 24 = q3" "m div 2 ^ 16 = q2" "m div 2 ^ 8 = q1"
    by (simp_all add: q1_def q2_def q3_def div_mult2_eq [symmetric])
  have "m = q1 * 256 + m mod 256" "q1 = q2 * 256 + q1 mod 256" "q2 = q3 * 256 + q2 mod 256"
    unfolding q1_def q2_def q3_def by (simp_all only: div_mult_mod_eq)
  then show "addr_num (m div 2 ^ 24) (m div 2 ^ 16 mod 256) (m div 2 ^ 8 mod 256) (m mod 256) = m"
    unfolding q addr_num_def by simp
qed

text \<open>The constructor and the test together: both parameters at their documented laws.\<close>

locale net_parser = token_split split + address_parser aton
  for split :: "(char \<Rightarrow> bool) \<Rightarrow> string \<Rightarrow> string list" and aton :: "string \<Rightarrow> 32 word option"
begin

lemma split_join:
  assumes "ts \<noteq> []" and "\<forall>t \<in> set ts. t \<noteq> [] \<and> c \<notin> set t"
  shows "split (\<lambda>x. x = c) (join_with c ts) = ts"
  using assms
proof (induction c ts rule: join_with.induct)
  case (2 c t)
  then show ?case using split_none [of t "\<lambda>x. x = c"] by auto
next
  case (3 c t u ts)
  have "\<exists>x xs. join_with c (u # ts) = x # xs \<and> x \<noteq> c"
    using 3 by (cases u; cases ts) auto
  then have "split (\<lambda>x. x = c) (t @ [c] @ join_with c (u # ts))
      = t # split (\<lambda>x. x = c) (join_with c (u # ts))"
    using 3 by (intro split_run) auto
  then show ?case using 3 by simp
qed simp

lemma parse_net_prefix:
  assumes "net_ok p"
  obtains m where "parse_net split aton (prefix_text p)
      = Inr \<lparr>n_net = aton (addr_text (fst p)), n_mask = Some m\<rparr>"
    and "ntohl m = push_bit (32 - snd p) 0xFFFFFFFF"
proof -
  obtain a b c d n where p: "p = ((a, b, c, d), n)" by (metis prod.exhaust)
  have ok: "octets_ok a b c d" "1 \<le> n" "n \<le> 24" using assms by (simp_all add: p net_ok_def addr_ok_def)
  define k where "k = mask_num n"
  have k: "k < 2 ^ 32" by (simp add: k_def mask_num_def)
  note o = octets_of_num [OF k]
  define m where "m = s_addr_of (k div 2 ^ 24) (k div 2 ^ 16 mod 256) (k div 2 ^ 8 mod 256) (k mod 256)"
  have "aton (mask_dotted n) = Some m"
    using o(1) by (simp add: mask_dotted_def Let_def k_def m_def octets_ok_def aton_dotted)
  moreover have "split (\<lambda>c. c = CHR ''/'') (dotted a b c d @ ''/'' @ nat_to_string n)
      = [dotted a b c d, nat_to_string n]"
    using slash_notin_dotted nat_to_string_digits [of n] digit_not_special
    by (intro split_key_value) auto
  moreover have "atoi (nat_to_string n) = int n"
    using atoi_to_string [of "int n"] ok by (simp add: to_string_def)
  ultimately have parse: "parse_net split aton (prefix_text p)
      = Inr \<lparr>n_net = aton (addr_text (fst p)), n_mask = Some m\<rparr>"
    using ok by (simp add: parse_net_def p prefix_text_def prefix_string_def addr_text_def
        mask_text_num inet_pton_def)
  have "n \<le> 32" using ok by simp
  with ok(2) obtain w where w: "prefix_mask (int n) = Inr w" "unat w = mask_num n"
    by (rule prefix_mask_num)
  have "w = push_bit (32 - n) 0xFFFFFFFF"
    using w(1) ok by (simp add: prefix_mask_def nat_diff_distrib')
  moreover have "unat (ntohl m) = unat w"
    using ntohl_s_addr_of [OF o(1)] o(2) w(2)
    by (simp add: m_def k_def [symmetric]) (metis nat_int unat_eq_nat_uint)
  ultimately have "ntohl m = push_bit (32 - snd p) 0xFFFFFFFF"
    by (simp add: p word_eq_iff_unsigned [where 'a = nat])
  with parse show thesis by (rule that)
qed

lemma net_step_prefix:
  assumes "net_ok p" and "addr_ok x" and "parse_net split aton (prefix_text p) = Inr nt"
  shows "net_step (aton (addr_text x)) nt b = Inr (in_prefix x p \<or> b)"
proof -
  obtain a b' c d n e f g h where p: "p = ((a, b', c, d), n)" and x: "x = (e, f, g, h)"
    by (metis prod.exhaust)
  have ok: "octets_ok a b' c d" "octets_ok e f g h" "n \<le> 24"
    using assms by (simp_all add: p x net_ok_def addr_ok_def)
  obtain m where m: "nt = \<lparr>n_net = aton (addr_text (fst p)), n_mask = Some m\<rparr>"
    "ntohl m = push_bit (32 - n) 0xFFFFFFFF"
    using parse_net_prefix [OF assms(1)] assms(3) by (auto simp: p)
  have val: "unat (ntohl (s_addr_of q r s t)) = addr_num q r s t" if "octets_ok q r s t" for q r s t
    using ntohl_s_addr_of [OF that] by (metis nat_int unat_eq_nat_uint)
  have aton: "aton (dotted q r s t) = Some (s_addr_of q r s t)" if "octets_ok q r s t" for q r s t
    using that by (simp add: octets_ok_def aton_dotted)
  have "s_addr_of a b' c d AND m = s_addr_of e f g h AND m \<longleftrightarrow> in_prefix x p"
    using and_push_mask [of "32 - n" "ntohl (s_addr_of a b' c d)" "ntohl (s_addr_of e f g h)"] ok
    by (auto simp: ntohl_inject [of _ "_ AND m", symmetric] ntohl_and m(2) val in_prefix_def p x addr_val_def
        same_prefix_def)
  then show ?thesis using ok by (simp add: net_step_def m(1) p x addr_text_def aton)
qed

lemma parse_nets:
  assumes "\<forall>p \<in> set ps. net_ok p"
  shows "\<exists>ns. fold_res (\<lambda>prefix nets. res_map (\<lambda>n. nets @ [n]) (parse_net split aton prefix))
      (map prefix_text ps) acc = Inr (acc @ ns)
    \<and> list_all2 (\<lambda>p nt. parse_net split aton (prefix_text p) = Inr nt) ps ns"
  using assms
proof (induction ps arbitrary: acc)
  case (Cons p ps)
  obtain nt where nt: "parse_net split aton (prefix_text p) = Inr nt"
    using parse_net_prefix [of p] Cons.prems by auto
  obtain ns where "fold_res (\<lambda>prefix nets. res_map (\<lambda>n. nets @ [n]) (parse_net split aton prefix))
      (map prefix_text ps) (acc @ [nt]) = Inr ((acc @ [nt]) @ ns)"
    "list_all2 (\<lambda>p nt. parse_net split aton (prefix_text p) = Inr nt) ps ns"
    using Cons.IH [of "acc @ [nt]"] Cons.prems by auto
  then show ?case using nt by (intro exI [of _ "nt # ns"]) simp
qed simp

lemma nets_match:
  assumes "list_all2 (\<lambda>p nt. parse_net split aton (prefix_text p) = Inr nt) ps ns"
    and "\<forall>p \<in> set ps. net_ok p" and "addr_ok x"
  shows "fold_res (net_step (aton (addr_text x))) ns b = Inr ((\<exists>p \<in> set ps. in_prefix x p) \<or> b)"
  using assms
proof (induction ps ns arbitrary: b rule: list_all2_induct)
  case (Cons p ps nt ns)
  then show ?case by (auto simp: net_step_prefix)
qed simp

lemma localnets_prefixes:
  assumes "ps \<noteq> []" and "\<forall>p \<in> set ps. net_ok p" and "addr_ok x"
  shows "res_bind (pfr_localnets split aton (nets_text ps)) (localnets_host aton (addr_text x))
    = Inr (\<exists>p \<in> set ps. in_prefix x p)"
proof -
  have "prefix_text p \<noteq> [] \<and> CHR '','' \<notin> set (prefix_text p)" for p
    using comma_notin_prefix by (cases p) (auto simp: prefix_text_def prefix_string_def dotted_def)
  then have "split (\<lambda>c. c = CHR '','') (nets_text ps) = map prefix_text ps"
    unfolding nets_text_def using assms(1) by (intro split_join) auto
  moreover obtain ns where "fold_res (\<lambda>prefix nets. res_map (\<lambda>n. nets @ [n]) (parse_net split aton prefix))
      (map prefix_text ps) [] = Inr ns"
    "list_all2 (\<lambda>p nt. parse_net split aton (prefix_text p) = Inr nt) ps ns"
    using parse_nets [OF assms(2), of "[]"] by auto
  ultimately show ?thesis
    using nets_match [OF _ assms(2,3)] by (simp add: pfr_localnets_def localnets_host_def inet_pton_def)
qed

end

interpretation dotted_nets: net_parser split_runs aton_dotted
  by unfold_locales


section \<open>Properties\<close>

text \<open>
  C23. The local networks: for a configured list of networks of lengths 1 to 24, the constructor and the
  test together say exactly whether one of them contains the host.
\<close>

theorem localnets_iff:
  assumes "net_parser split aton" and "ps \<noteq> []"
    and "\<forall>(p, n) \<in> set ps. addr_ok p \<and> 1 \<le> n \<and> n \<le> 24" and "addr_ok x"
  shows "res_bind (pfr_localnets split aton (nets_text ps)) (localnets_host aton (addr_text x))
    = Inr (\<exists>p \<in> set ps. in_prefix x p)"
proof -
  have "\<forall>p \<in> set ps. net_ok p" using assms(3) by (auto simp: net_ok_def)
  from net_parser.localnets_prefixes [OF assms(1,2) this assms(4)] show ?thesis .
qed

theorem localnets_iff_witness:
  "res_bind (pfr_localnets split_runs aton_dotted (nets_text [((10, 0, 0, 0), 8), ((192, 168, 1, 0), 24)]))
      (localnets_host aton_dotted (addr_text (192, 168, 1, 77)))
    = Inr (\<exists>p \<in> set [((10, 0, 0, 0), 8), ((192, 168, 1, 0), 24)]. in_prefix (192, 168, 1, 77) p)"
  by (rule localnets_iff [OF dotted_nets.net_parser_axioms]) (simp_all add: addr_ok_def octets_ok_def)

text \<open>
  A network longer than /24 (its mask has at least 15 characters) overflows \<open>network_mask[15]\<close>: the
  constructor and \<open>is_host_in_network\<close> are both undefined on it.
\<close>

lemma long_mask_overflows:
  assumes "token_split split" and "octets_ok a b c d" and "25 \<le> n" and "n \<le> 32"
  shows "parse_net split aton (prefix_string a b c d n) = Inl (Undefined_Behaviour ''buffer overflow'')
    \<and> is_host_in_network aton (dotted a b c d) (int n) host = Inl (Undefined_Behaviour ''buffer overflow'')"
proof -
  have "split (\<lambda>c. c = CHR ''/'') (dotted a b c d @ ''/'' @ nat_to_string n)
      = [dotted a b c d, nat_to_string n]"
    using slash_notin_dotted nat_to_string_digits [of n] digit_not_special
    by (intro token_split.split_key_value [OF assms(1)]) auto
  moreover have "atoi (nat_to_string n) = int n"
    using atoi_to_string [of "int n"] assms(4) by (simp add: to_string_def)
  ultimately show ?thesis
    using assms(3,4) by (simp add: parse_net_def prefix_string_def is_host_in_network_def mask_text_num)
qed

end
