(* ===== verification/Pfr_Dst_List.thy ===== *)
theory Pfr_Dst_List
  imports Std_Map Pfr_Customer Pfr_Localnets
begin

text \<open>
  The destinations of a round (\<open>src/src/pfr_dst.h\<close>, \<open>pfr_dst.cpp\<close>, \<open>pfr_dst_list.h\<close>,
  \<open>pfr_dst_list.cpp\<close>), read from the database (\<open>pfr_sql.h\<close>, \<open>pfr_sql.cpp\<close>, \<open>pfr_sql_list.h\<close>,
  \<open>pfr_sql_list.cpp\<close>) and from the shared memory that another process fills with
  \<open>source,destination:source,destination:...\<close>.

  The environment of a constructor is a parameter: the outcomes of the system calls, the bytes of the
  shared memory, and the rows of the database (\<open>None\<close>: no connection).  The list and what
  \<open>strtok\<close> leaves in the shared memory are the result.
\<close>


section \<open>Destinations\<close>

record pfr_dst =
  d_id :: int
  d_ipv4 :: string
  d_ipv6 :: string
  d_descr :: string

definition pfr_dst_new :: "int \<Rightarrow> string \<Rightarrow> string \<Rightarrow> string \<Rightarrow> pfr_dst" where
  "pfr_dst_new i ipv4 ipv6 descr = \<lparr>d_id = i, d_ipv4 = ipv4, d_ipv6 = ipv6, d_descr = descr\<rparr>"

record pfr_sql =
  s_id :: int
  s_ipv4 :: string
  s_ipv6 :: string
  s_descr :: string

definition pfr_sql_new :: "int \<Rightarrow> string \<Rightarrow> string \<Rightarrow> string \<Rightarrow> pfr_sql" where
  "pfr_sql_new i ipv4 ipv6 descr = \<lparr>s_id = i, s_ipv4 = ipv4, s_ipv6 = ipv6, s_descr = descr\<rparr>"

definition pfr_sql_list_add :: "pfr_sql \<Rightarrow> pfr_sql list \<Rightarrow> pfr_sql list" where
  "pfr_sql_list_add e l = l @ [e]"

text \<open>A row: id, both addresses and the description.\<close>

type_synonym dst_row = "string \<times> string \<times> string \<times> string"

definition sql_of_row :: "dst_row \<Rightarrow> pfr_sql res" where
  "sql_of_row = (\<lambda>(i, ipv4, ipv6, descr). res_map (\<lambda>n. pfr_sql_new n ipv4 ipv6 descr) (stoi i))"

definition get_pfr_dst_sql :: "dst_row list option \<Rightarrow> pfr_sql list res" where
  "get_pfr_dst_sql rows = (case rows of
       None \<Rightarrow> Inl (Exit 1)
     | Some qs \<Rightarrow> fold_res (\<lambda>q psl. res_map (\<lambda>e. pfr_sql_list_add e psl) (sql_of_row q)) qs [])"

definition pfr_dst_getmap :: "dst_row list option \<Rightarrow> (string, bool) std_map res" where
  "pfr_dst_getmap rows =
     res_map (\<lambda>pslq. fold (\<lambda>q. sm_put (s_ipv4 q) True) pslq sm_empty) (get_pfr_dst_sql rows)"

text \<open>The constructor with one argument takes the database's destinations only.\<close>

definition pfr_dst_list_db :: "dst_row list option \<Rightarrow> pfr_dst list res" where
  "pfr_dst_list_db rows =
     res_map (map (\<lambda>q. pfr_dst_new (s_id q) (s_ipv4 q) (s_ipv6 q) (s_descr q))) (get_pfr_dst_sql rows)"


section \<open>\<open>strtok\<close> on the shared memory\<close>

definition NUL :: char where "NUL = CHR 0x00"

text \<open>The tokens of a string that the calls of \<open>strtok(..., ":")\<close> return, until one returns null.\<close>

function strtok_tokens :: "char \<Rightarrow> string \<Rightarrow> string list" where
  "strtok_tokens d s =
     (let s' = dropWhile (\<lambda>c. c = d) s
      in if s' = [] then []
         else takeWhile (\<lambda>c. c \<noteq> d) s' # strtok_tokens d (tl (dropWhile (\<lambda>c. c \<noteq> d) s')))"
  by pat_completeness auto
termination
proof (relation "measure (\<lambda>(d, s). length s)", goal_cases)
  case (2 d s s')
  have "length (tl (dropWhile (\<lambda>c. c \<noteq> d) s')) \<le> length s' - 1"
    using length_dropWhile_le [of "\<lambda>c. c \<noteq> d" s'] by simp
  also have "\<dots> < length s'" using 2 by simp
  also have "\<dots> \<le> length s" using 2 by (simp add: length_dropWhile_le)
  finally show ?case by simp
qed simp

declare strtok_tokens.simps [simp del]

text \<open>What they leave: the delimiter behind every token is overwritten with a zero.\<close>

function strtok_mem :: "char \<Rightarrow> string \<Rightarrow> string" where
  "strtok_mem d s =
     (let a = takeWhile (\<lambda>c. c = d) s; s' = dropWhile (\<lambda>c. c = d) s
      in if s' = [] then a
         else (let t = takeWhile (\<lambda>c. c \<noteq> d) s'; u = dropWhile (\<lambda>c. c \<noteq> d) s'
               in if u = [] then a @ t else a @ t @ NUL # strtok_mem d (tl u)))"
  by pat_completeness auto
termination
proof (relation "measure (\<lambda>(d, s). length s)", goal_cases)
  case (2 d s a s' t u)
  have "length (tl u) < length u" using 2 by simp
  also have "\<dots> \<le> length s'" using 2 by (simp add: length_dropWhile_le)
  also have "\<dots> \<le> length s" using 2 by (simp add: length_dropWhile_le)
  finally show ?case by simp
qed simp

declare strtok_mem.simps [simp del]

text \<open>The C string in the memory, and the memory after the loop.\<close>

definition c_string :: "string \<Rightarrow> string" where
  "c_string mem = takeWhile (\<lambda>c. c \<noteq> NUL) mem"

definition strtok_shm :: "string \<Rightarrow> string" where
  "strtok_shm mem = strtok_mem CHR '':'' (c_string mem) @ drop (length (c_string mem)) mem"


section \<open>The constructors\<close>

text \<open>What the system calls return; \<open>shm\<close> is the attached memory.\<close>

record shm_env =
  ftok_ok :: bool
  sem_opened :: bool
  shmget_ok :: bool
  shm :: "string option"

text \<open>What the constructors read of the configuration and the other components.\<close>

record dst_env =
  e_split :: "(char \<Rightarrow> bool) \<Rightarrow> string \<Rightarrow> string list"
  e_aton :: "string \<Rightarrow> u32 option"
  e_localnets :: string
  e_rows :: "dst_row list option"
  e_cust :: pfr_customer

text \<open>The addresses of a token; without a comma the whole of it is the destination.\<close>

definition token_addrs :: "string \<Rightarrow> string \<times> string" where
  "token_addrs token = (case str_find CHR '','' token of
       None \<Rightarrow> ([], token)
     | Some pos \<Rightarrow> (take pos token, drop (pos + 1) token))"

definition dst_wanted :: "dst_env \<Rightarrow> net list \<Rightarrow> (string, bool) std_map \<Rightarrow> string \<Rightarrow> string \<Rightarrow> bool res" where
  "dst_wanted e lnets ipv4_dst_db saddr daddr =
     res_bind (localnets_host (e_aton e) daddr lnets) (\<lambda>loc.
       if loc then Inr False
       else if sm_count ipv4_dst_db daddr \<noteq> 0 then Inr False
       else customer_hit (e_aton e) saddr (e_cust e))"

text \<open>A pass of the loop: the list and the next \<open>dst_id\<close>.\<close>

definition token_step ::
  "dst_env \<Rightarrow> net list \<Rightarrow> (string, bool) std_map \<Rightarrow> string
    \<Rightarrow> pfr_dst list \<times> int \<Rightarrow> (pfr_dst list \<times> int) res" where
  "token_step e lnets ipv4_dst_db token = (\<lambda>(l, dst_id).
     let (saddr, daddr) = token_addrs token
     in res_map (\<lambda>b. if b then (l @ [pfr_dst_new dst_id daddr [] []], dst_id + 1) else (l, dst_id))
          (dst_wanted e lnets ipv4_dst_db saddr daddr))"

definition add_db_dsts :: "(string, bool) std_map \<Rightarrow> pfr_dst list \<times> int \<Rightarrow> pfr_dst list" where
  "add_db_dsts ipv4_dst_db acc =
     fst (fold (\<lambda>a (l, dst_id). (l @ [pfr_dst_new dst_id a [] []], dst_id + 1)) (sm_keys ipv4_dst_db) acc)"

text \<open>The loop over the tokens and everything in front of it that both constructors share.\<close>

definition shm_dsts ::
  "dst_env \<Rightarrow> net list \<Rightarrow> string \<Rightarrow> ((pfr_dst list \<times> int) \<times> (string, bool) std_map) res" where
  "shm_dsts e lnets mem =
     res_bind (pfr_dst_getmap (e_rows e)) (\<lambda>db.
     res_map (\<lambda>acc. (acc, db))
       (fold_res (token_step e lnets db) (strtok_tokens CHR '':'' (c_string mem)) ([], 0)))"

definition sem_error :: cpp_error where
  "sem_error = Undefined_Behaviour ''sem_wait(SEM_FAILED)''"

text \<open>\<open>pfr_dst_list(nlist, nnlist, prevdstList, cust)\<close>.\<close>

definition pfr_dst_list_next ::
  "dst_env \<Rightarrow> shm_env \<Rightarrow> pfr_dst list \<Rightarrow> (pfr_dst list \<times> string) res" where
  "pfr_dst_list_next e sh prevdstList =
     (if \<not> ftok_ok sh then Inl (Exit 1)
      else if \<not> sem_opened sh then Inl sem_error
      else if \<not> shmget_ok sh then Inl (Exit 1)
      else res_bind (pfr_localnets (e_split e) (e_aton e) (e_localnets e)) (\<lambda>lnets.
        case shm sh of
          None \<Rightarrow> Inl (Exit 1)
        | Some mem \<Rightarrow> res_map (\<lambda>(acc, db).
              (if length (fst acc) < 3 then prevdstList else add_db_dsts db acc, strtok_shm mem))
            (shm_dsts e lnets mem)))"

text \<open>\<open>pfr_dst_list(nlist, nnlist, cust)\<close>: the localnets are parsed later.\<close>

definition pfr_dst_list_first :: "dst_env \<Rightarrow> shm_env \<Rightarrow> (pfr_dst list \<times> string) res" where
  "pfr_dst_list_first e sh =
     (if \<not> ftok_ok sh then Inl (Exit 1)
      else if \<not> sem_opened sh then Inl sem_error
      else if \<not> shmget_ok sh then Inl (Exit 1)
      else (case shm sh of
          None \<Rightarrow> Inl (Exit 1)
        | Some mem \<Rightarrow> res_bind (pfr_localnets (e_split e) (e_aton e) (e_localnets e)) (\<lambda>lnets.
            res_map (\<lambda>(acc, db). (add_db_dsts db acc, strtok_shm mem)) (shm_dsts e lnets mem))))"


section \<open>Facts\<close>

lemma strtok_tokens_nodelim: "t \<in> set (strtok_tokens d s) \<Longrightarrow> t \<noteq> [] \<and> d \<notin> set t \<and> set t \<subseteq> set s"
proof (induction d s rule: strtok_tokens.induct)
  case (1 d s)
  define s' where "s' = dropWhile (\<lambda>c. c = d) s"
  show ?case
  proof (cases "s' = []")
    case True
    then show ?thesis using "1.prems" by (simp add: strtok_tokens.simps [of d s] s'_def)
  next
    case False
    have sub: "set s' \<subseteq> set s" unfolding s'_def by (meson set_dropWhileD subsetI)
    have hd: "hd s' \<noteq> d" using hd_dropWhile [of "\<lambda>c. c = d" s] False unfolding s'_def by auto
    have "t = takeWhile (\<lambda>c. c \<noteq> d) s' \<or> t \<in> set (strtok_tokens d (tl (dropWhile (\<lambda>c. c \<noteq> d) s')))"
      using "1.prems" False by (simp add: strtok_tokens.simps [of d s] s'_def [symmetric] Let_def)
    then show ?thesis
    proof
      assume t: "t = takeWhile (\<lambda>c. c \<noteq> d) s'"
      have "t \<noteq> []" using t hd False by (cases s') auto
      moreover have "d \<notin> set t" unfolding t using set_takeWhileD by fastforce
      moreover have "set t \<subseteq> set s" unfolding t
        by (rule order_trans [OF _ sub]) (auto dest: set_takeWhileD)
      ultimately show ?thesis by blast
    next
      assume "t \<in> set (strtok_tokens d (tl (dropWhile (\<lambda>c. c \<noteq> d) s')))"
      then have IH: "t \<noteq> [] \<and> d \<notin> set t \<and> set t \<subseteq> set (tl (dropWhile (\<lambda>c. c \<noteq> d) s'))"
        using "1.IH" [OF s'_def] False by simp
      have "set (tl u) \<subseteq> set u" for u :: string by (cases u) auto
      moreover have "set (dropWhile (\<lambda>c. c \<noteq> d) s') \<subseteq> set s'" by (auto dest: set_dropWhileD)
      ultimately have "set (tl (dropWhile (\<lambda>c. c \<noteq> d) s')) \<subseteq> set s'" by blast
      then show ?thesis using IH sub by blast
    qed
  qed
qed

text \<open>The memory after a reading holds at most one token.\<close>

lemma c_string_takes: "NUL \<notin> set s \<Longrightarrow> r = [] \<or> hd r = NUL \<Longrightarrow> c_string (s @ r) = s"
  by (cases r) (auto simp: c_string_def takeWhile_append takeWhile_eq_all_conv)

lemma one_token:
  assumes "\<forall>c \<in> set a. c = d" and "\<forall>c \<in> set t. c \<noteq> d"
  shows "length (strtok_tokens d (a @ t)) \<le> 1"
proof -
  have "dropWhile (\<lambda>c. c = d) (a @ t) = t"
    using assms by (cases t) (auto simp: dropWhile_append dropWhile_eq_Nil_conv)
  moreover have "dropWhile (\<lambda>c. c \<noteq> d) t = []"
    using assms(2) by (simp only: dropWhile_eq_Nil_conv)
  then have "tl (dropWhile (\<lambda>c. c \<noteq> d) t) = []" by (simp only: list.sel(2))
  ultimately show ?thesis
    by (simp add: strtok_tokens.simps [of d "a @ t"] strtok_tokens.simps [of d "[]"])
qed

lemma strtok_reread: "length (strtok_tokens CHR '':'' (c_string (strtok_shm mem))) \<le> 1"
proof -
  define s where "s = c_string mem"
  define r where "r = drop (length s) mem"
  define a where "a = takeWhile (\<lambda>c. c = CHR '':'') s"
  define s' where "s' = dropWhile (\<lambda>c. c = CHR '':'') s"
  define t where "t = takeWhile (\<lambda>c. c \<noteq> CHR '':'') s'"
  define u where "u = dropWhile (\<lambda>c. c \<noteq> CHR '':'') s'"
  have r: "r = [] \<or> hd r = NUL"
    using hd_dropWhile [of "\<lambda>c. c \<noteq> NUL" mem] unfolding r_def s_def c_string_def dropWhile_eq_drop by auto
  have nul: "NUL \<notin> set s" unfolding s_def c_string_def using set_takeWhileD by fastforce
  have a: "\<forall>c \<in> set a. c = CHR '':''" unfolding a_def by (auto dest: set_takeWhileD)
  have t: "\<forall>c \<in> set t. c \<noteq> CHR '':''" unfolding t_def by (auto dest: set_takeWhileD)
  have "s = a @ t @ u" unfolding a_def t_def u_def s'_def by simp
  then have nat: "NUL \<notin> set (a @ t)" using nul by auto
  obtain r' where r': "strtok_mem CHR '':'' s @ r = (a @ t) @ r'" "r' = [] \<or> hd r' = NUL"
  proof -
    have "strtok_mem CHR '':'' s = (if s' = [] then a
        else if u = [] then a @ t else a @ t @ NUL # strtok_mem CHR '':'' (tl u))"
      by (subst strtok_mem.simps) (simp only: Let_def a_def s'_def t_def u_def)
    moreover have "s' = [] \<Longrightarrow> t = []" by (simp add: t_def)
    ultimately have "\<exists>r'. strtok_mem CHR '':'' s @ r = (a @ t) @ r' \<and> (r' = [] \<or> hd r' = NUL)"
      using r by auto
    then show thesis using that by blast
  qed
  have "c_string (strtok_mem CHR '':'' s @ r) = a @ t" using c_string_takes [OF nat r'(2)] by (simp only: r'(1))
  then have "c_string (strtok_shm mem) = a @ t" by (simp add: strtok_shm_def s_def r_def)
  then show ?thesis using one_token [OF a t] by simp
qed

text \<open>The list grows by at most one entry a token.\<close>

lemma token_steps_length:
  assumes "fold_res (token_step e lnets db) ts (l, i) = Inr (l', j)"
  shows "length l' \<le> length l + length ts"
  using assms
proof (induction ts arbitrary: l i)
  case (Cons t ts)
  obtain m k where st: "token_step e lnets db t (l, i) = Inr (m, k)"
    "fold_res (token_step e lnets db) ts (m, k) = Inr (l', j)"
    using Cons.prems by (auto elim: res_bind_InrE)
  have "length m \<le> length l + 1"
    using st(1) by (auto simp: token_step_def Let_def res_map_Inr_iff split: prod.splits if_splits)
  then show ?case using Cons.IH [OF st(2)] by simp
qed simp

lemma next_reread:
  assumes "pfr_dst_list_next e sh prev = Inr (l, mem)"
    and "pfr_dst_list_next e' (sh'\<lparr>shm := Some (strtok_shm old)\<rparr>) l = Inr (l', mem')"
  shows "l' = l"
  using assms(2) strtok_reread [of old]
  by (auto simp: pfr_dst_list_next_def shm_dsts_def res_map_Inr_iff elim!: res_bind_InrE
      dest!: token_steps_length split: if_splits)

text \<open>What the loop selects, in order and numbered.\<close>

fun numbered :: "int \<Rightarrow> string list \<Rightarrow> pfr_dst list" where
  "numbered i [] = []"
| "numbered i (a # as) = pfr_dst_new i a [] [] # numbered (i + 1) as"

lemma numbered_append [simp]: "numbered i (as @ bs) = numbered i as @ numbered (i + int (length as)) bs"
  by (induction as arbitrary: i) (simp_all add: add.assoc)

lemma length_numbered [simp]: "length (numbered i as) = length as"
  by (induction as arbitrary: i) simp_all

lemma token_steps_filter:
  assumes "\<forall>t \<in> set ts. dst_wanted e lnets db (fst (token_addrs t)) (snd (token_addrs t)) = Inr (W t)"
  shows "fold_res (token_step e lnets db) ts (l, i)
    = Inr (l @ numbered i (map (snd \<circ> token_addrs) (filter W ts)), i + int (length (filter W ts)))"
  using assms by (induction ts arbitrary: l i) (auto simp: token_step_def Let_def split: prod.splits)

lemma add_db_numbered: "add_db_dsts db (l, i) = l @ numbered i (sm_keys db)"
proof -
  have "fst (fold (\<lambda>a (l, k). (l @ [pfr_dst_new k a [] []], k + 1)) as (l, i)) = l @ numbered i as" for as
    by (induction as arbitrary: l i) simp_all
  then show ?thesis by (simp add: add_db_dsts_def)
qed


section \<open>The selection, end to end\<close>

text \<open>What the collector writes: the source and the destination of every flow.\<close>

definition flow_text :: "address \<times> address \<Rightarrow> string" where
  "flow_text = (\<lambda>(s, d). addr_text s @ CHR '','' # addr_text d)"

definition flows_text :: "(address \<times> address) list \<Rightarrow> string" where
  "flows_text flows = join_with CHR '':'' (map flow_text flows)"

text \<open>The flows whose destinations are to be probed.\<close>

definition flow_wanted ::
  "(address \<times> nat) list \<Rightarrow> (address \<times> nat) list \<Rightarrow> (string, bool) std_map \<Rightarrow> address \<times> address \<Rightarrow> bool" where
  "flow_wanted ps nets db = (\<lambda>(s, d). (\<exists>p \<in> set ps. prefix_covers s p) \<and> \<not> (\<exists>p \<in> set nets. in_prefix d p)
     \<and> sm_find db (addr_text d) = None)"

lemma addr_text_chars: "set (addr_text x) \<inter> {CHR '':'', CHR '','', NUL} = {}" "addr_text x \<noteq> []"
proof -
  obtain a b c d where x: "x = (a, b, c, d)" by (metis prod.exhaust)
  have "CHR '':'' \<notin> set (nat_to_string n)" "CHR '','' \<notin> set (nat_to_string n)" "NUL \<notin> set (nat_to_string n)" for n
    using nat_to_string_digits [of n] by (auto simp: is_digit_def NUL_def)
  then show "set (addr_text x) \<inter> {CHR '':'', CHR '','', NUL} = {}" "addr_text x \<noteq> []"
    by (auto simp: x addr_text_def dotted_def NUL_def)
qed

lemma flow_text_chars: "CHR '':'' \<notin> set (flow_text f)" "NUL \<notin> set (flow_text f)" "flow_text f \<noteq> []"
  using addr_text_chars(1) [of "fst f"] addr_text_chars(1) [of "snd f"]
  by (auto simp: flow_text_def NUL_def split: prod.split)

lemma token_addrs_flow: "token_addrs (flow_text (s, d)) = (addr_text s, addr_text d)"
  using addr_text_chars(1) [of s] by (simp add: token_addrs_def flow_text_def str_find_append)

lemma strtok_join:
  assumes "\<forall>t \<in> set ts. t \<noteq> [] \<and> d \<notin> set t"
  shows "strtok_tokens d (join_with d ts) = ts"
  using assms
proof (induction d ts rule: join_with.induct)
  case (1 d)
  then show ?case by (simp add: strtok_tokens.simps [of d "[]"])
next
  case (2 d t)
  then have t: "dropWhile (\<lambda>c. c = d) t = t" "takeWhile (\<lambda>c. c \<noteq> d) t = t"
    by (cases t; auto simp: takeWhile_eq_all_conv)+
  have "dropWhile (\<lambda>c. c \<noteq> d) t = []" using 2 by (auto simp: dropWhile_eq_Nil_conv)
  then have "tl (dropWhile (\<lambda>c. c \<noteq> d) t) = []" by (simp only: list.sel(2))
  with t show ?case using 2 by (simp add: strtok_tokens.simps [of d t] strtok_tokens.simps [of d "[]"])
next
  case (3 d t u ts)
  define r where "r = join_with d (u # ts)"
  have t: "t \<noteq> []" "\<forall>c \<in> set t. c \<noteq> d" using 3 by auto
  then have "dropWhile (\<lambda>c. c = d) (t @ d # r) = t @ d # r" by (cases t) auto
  moreover have "takeWhile (\<lambda>c. c \<noteq> d) (t @ d # r) = t" "dropWhile (\<lambda>c. c \<noteq> d) (t @ d # r) = d # r"
    using t by (simp_all add: takeWhile_append dropWhile_append takeWhile_eq_all_conv dropWhile_eq_Nil_conv)
  ultimately have "strtok_tokens d (t @ d # r) = t # strtok_tokens d r"
    by (subst strtok_tokens.simps) (simp add: Let_def)
  then show ?case using 3 by (simp add: r_def)
qed

lemma set_join_with: "set (join_with c ts) \<subseteq> insert c (\<Union> (set ` set ts))"
  by (induction c ts rule: join_with.induct) auto

lemma tokens_of_flows:
  "strtok_tokens CHR '':'' (c_string (flows_text flows @ NUL # rest)) = map flow_text flows"
proof -
  have "NUL \<notin> set (flows_text flows)"
    using set_join_with [of "CHR '':''" "map flow_text flows"] flow_text_chars(2)
    by (auto simp: flows_text_def NUL_def)
  then have "c_string (flows_text flows @ NUL # rest) = flows_text flows" by (intro c_string_takes) simp_all
  moreover have "strtok_tokens CHR '':'' (flows_text flows) = map flow_text flows"
    unfolding flows_text_def using flow_text_chars by (intro strtok_join) auto
  ultimately show ?thesis by simp
qed

lemma dst_wanted_flow:
  assumes "net_parser (e_split e) (e_aton e)" and "e_localnets e = nets_text nets" and "nets \<noteq> []"
    and "\<forall>p \<in> set nets. net_ok p" and "\<forall>p \<in> set ps. customer_prefix_ok p"
    and "pfr_customer_new (e_aton e) (\<lambda>_. Some (map prefix_text ps)) k = Inr (e_cust e)"
    and "pfr_localnets (e_split e) (e_aton e) (e_localnets e) = Inr lnets"
    and "addr_ok s" and "addr_ok d"
  shows "dst_wanted e lnets db (addr_text s) (addr_text d) = Inr (flow_wanted ps nets db (s, d))"
proof -
  have ap: "address_parser (e_aton e)" using assms(1) by (simp add: net_parser_def)
  have "localnets_host (e_aton e) (addr_text d) lnets = Inr (\<exists>p \<in> set nets. in_prefix d p)"
    using net_parser.localnets_prefixes [OF assms(1,3,4,9)] assms(2,7) by simp
  moreover have "customer_hit (e_aton e) (addr_text s) (e_cust e) = Inr (\<exists>p \<in> set ps. prefix_covers s p)"
    using address_parser.customer_hit_prefixes [where prefix_rows = "\<lambda>_. Some (map prefix_text ps)"
        and customer_id = k, OF ap refl assms(5,8)] assms(6) by simp
  ultimately show ?thesis by (auto simp: dst_wanted_def flow_wanted_def)
qed

lemma pfr_localnets_Inr:
  assumes "net_parser split aton" and "nets \<noteq> []" and "\<forall>p \<in> set nets. net_ok p"
  shows "\<exists>lnets. pfr_localnets split aton (nets_text nets) = Inr lnets"
  using net_parser.localnets_prefixes [OF assms, of "(0, 0, 0, 0)"]
  by (auto simp: addr_ok_def octets_ok_def elim: res_bind_InrE)


text \<open>
  Reading the shared memory consumes it: \<open>strtok\<close> overwrites the delimiters, so that a second
  reading before the collector has written again sees at most one flow, and the list of destinations
  stays as it was, whatever else has changed.
\<close>

lemma dst_list_reread:
  assumes "pfr_dst_list_next e sh prev = Inr (l, mem)" and "shm sh = Some old"
    and "pfr_dst_list_next e' (sh'\<lparr>shm := Some mem\<rparr>) l = Inr (l', mem')"
  shows "l' = l"
proof -
  have "mem = strtok_shm old"
    using assms(1,2) by (auto simp: pfr_dst_list_next_def res_map_Inr_iff elim!: res_bind_InrE split: if_splits)
  then show ?thesis using next_reread [OF assms(1)] assms(3) by simp
qed


section \<open>Examples\<close>

definition example_nets :: "(address \<times> nat) list" where
  "example_nets = [((192, 168, 0, 0), 16)]"

definition example_prefixes :: "(address \<times> nat) list" where
  "example_prefixes = [((10, 1, 0, 0), 16)]"

definition example_env :: "pfr_customer \<Rightarrow> dst_env" where
  "example_env cust = \<lparr>e_split = split_runs, e_aton = aton_dotted, e_localnets = nets_text example_nets,
     e_rows = Some [], e_cust = cust\<rparr>"

definition example_shm :: "string \<Rightarrow> shm_env" where
  "example_shm mem = \<lparr>ftok_ok = True, sem_opened = True, shmget_ok = True, shm = Some mem\<rparr>"

definition example_flows :: "(address \<times> address) list" where
  "example_flows = [((10, 1, 0, 5), (198, 51, 100, 1)), ((10, 1, 0, 6), (192, 168, 7, 7)),
     ((10, 1, 0, 7), (198, 51, 100, 2)), ((10, 2, 0, 8), (198, 51, 100, 9)), ((10, 1, 9, 9), (198, 51, 100, 3))]"

lemma example_ok: "\<forall>p \<in> set example_nets. net_ok p" "\<forall>p \<in> set example_prefixes. customer_prefix_ok p"
  "\<forall>(s, d) \<in> set example_flows. addr_ok s \<and> addr_ok d"
  by (simp_all add: example_nets_def example_prefixes_def example_flows_def net_ok_def customer_prefix_ok_def
      addr_ok_def octets_ok_def)

lemma example_customer:
  "\<exists>cust. pfr_customer_new aton_dotted (\<lambda>_. Some (map prefix_text example_prefixes)) 7 = Inr cust"
  using dotted_quad.customer_prefixes_new [OF example_ok(2), of pfr_customer_default]
  by (auto simp: pfr_customer_new_def)

lemma example_selected:
  "map (\<lambda>(s, d). addr_text d) (filter (flow_wanted example_prefixes example_nets sm_empty) example_flows)
    = map addr_text [(198, 51, 100, 1), (198, 51, 100, 2), (198, 51, 100, 3)]"
  by (simp add: example_flows_def flow_wanted_def example_prefixes_def example_nets_def prefix_covers_def
      in_prefix_def same_prefix_def addr_val_def addr_num_def)


end
