(* ===== verification/Ping_Send.thy ===== *)
theory Ping_Send
  imports Ping_Wire Pfr_Config Pfr_Dst_List
begin

text \<open>
  The sender of a peer (\<open>src/src/ping_send_v4.cpp\<close>): \<open>set_dscp\<close>, the options of its socket, and
  \<open>send_v4\<close>, which sends \<open>pfr_ping_req\<close> probes to every destination out of the buffer \<open>sendbuf\<close>.

  The outside is a parameter: the clock and the memory that \<open>malloc\<close> returns, by the number of the
  probe, and \<open>getaddrinfo\<close> (\<open>None\<close> when it fails).  What \<open>sendto\<close> is given is recorded; its result
  is ignored by the code.  \<open>sendbuf\<close> is a global that all senders write: here it belongs to one sender,
  and \<open>Ping_Race\<close> lets several of them take turns.
\<close>


section \<open>The socket\<close>

datatype sock_opt =
    Rcvbuf int
  | Mtu_discover       \<comment> \<open>\<open>IP_PMTUDISC_DO\<close>\<close>
  | Ip_tos int
  | Ipv6_tclass int

definition EINVAL :: int where "EINVAL = 22"

definition ENOPROTOOPT :: int where "ENOPROTOOPT = 92"

text \<open>The result and the options it tried; \<open>setsockopt\<close> says which succeed.\<close>

definition set_dscp :: "(sock_opt \<Rightarrow> bool) \<Rightarrow> u8 \<Rightarrow> int \<times> sock_opt list" where
  "set_dscp setsockopt dscp =
     (if dscp > 63 then (EINVAL, [])
      else
        (let val = uint dscp * 4;
             success = setsockopt (Ip_tos val) \<or> setsockopt (Ipv6_tclass val)
         in (if \<not> success then ENOPROTOOPT else 0, [Ip_tos val, Ipv6_tclass val])))"

definition socket_options :: "(sock_opt \<Rightarrow> bool) \<Rightarrow> config \<Rightarrow> sock_opt list" where
  "socket_options setsockopt c =
     [Rcvbuf (60 * 1024)]
     @ (if c_df c \<noteq> 0 then [Mtu_discover] else [])
     @ (if c_dscp c \<noteq> 0 then snd (set_dscp setsockopt (word_of_int (c_dscp c))) else [])"


section \<open>The probes\<close>

record sender =
  sd_pid :: int
  sd_peer_id :: int
  sd_probe_id :: int
  sd_thread_id :: u64

record outside =
  o_tv :: "nat \<Rightarrow> timeval"
  o_time :: "nat \<Rightarrow> u64"
  o_heap :: "nat \<Rightarrow> nat \<Rightarrow> u8"

record 'a send_state =
  sendbuf :: "u8 list"
  probes_made :: nat
  sent :: "('a \<times> u8 list) list"

definition probe_of :: "outside \<Rightarrow> sender \<Rightarrow> int \<Rightarrow> nat \<Rightarrow> probe" where
  "probe_of w sd seq k = \<lparr>pr_seq = seq, pr_peer_id = sd_peer_id sd, pr_probe_id = sd_probe_id sd,
     pr_thread_id = sd_thread_id sd, pr_tv = o_tv w k, pr_time = o_time w k\<rparr>"

definition send_probe ::
  "config \<Rightarrow> outside \<Rightarrow> sender \<Rightarrow> 'a \<Rightarrow> int \<Rightarrow> 'a send_state \<Rightarrow> 'a send_state res" where
  "send_probe c w sd ai seq s =
     (let k = probes_made s
      in res_map (\<lambda>buf. s\<lparr>sendbuf := buf, probes_made := k + 1,
                          sent := sent s @ [(ai, take (packet_len (c_max_load c)) buf)]\<rparr>)
           (fill_sendbuf (o_heap w k) (c_max_load c) (probe_of w sd seq k) (sendbuf s)))"

text \<open>A failed lookup leaves \<open>ai\<close> pointing to memory that has been freed.\<close>

definition send_dst ::
  "(string \<Rightarrow> 'a option) \<Rightarrow> config \<Rightarrow> outside \<Rightarrow> sender \<Rightarrow> pfr_dst
    \<Rightarrow> 'a send_state \<Rightarrow> 'a send_state res" where
  "send_dst getaddrinfo c w sd dst s =
     (case getaddrinfo (d_ipv4 dst) of
        None \<Rightarrow> Inl (Undefined_Behaviour ''use after free'')
      | Some ai \<Rightarrow> fold_res (send_probe c w sd ai) [0..c_pfr_ping_req c - 1]
            (s\<lparr>sendbuf := write_header (sd_pid sd) (sendbuf s)\<rparr>))"

text \<open>\<open>pid = getpid() & 0xffff\<close>; the first lookup is that of a constant.\<close>

definition send_v4 ::
  "(string \<Rightarrow> 'a option) \<Rightarrow> config \<Rightarrow> outside \<Rightarrow> int \<Rightarrow> int \<Rightarrow> int \<Rightarrow> u64 \<Rightarrow> pfr_dst list
    \<Rightarrow> 'a send_state \<Rightarrow> 'a send_state res" where
  "send_v4 getaddrinfo c w getpid peer_id probe_id thId dst_list s =
     (case getaddrinfo ''10.229.4.0'' of
        None \<Rightarrow> Inl uninitialised
      | Some _ \<Rightarrow>
          (let sd = \<lparr>sd_pid = getpid AND 0xffff, sd_peer_id = peer_id, sd_probe_id = probe_id,
                     sd_thread_id = thId\<rparr>
           in fold_res (send_dst getaddrinfo c w sd) dst_list s))"


section \<open>Facts\<close>

text \<open>A packet of a sender: valid, and carrying the sender's identity and the sequence number.\<close>

definition probe_packet :: "sender \<Rightarrow> int \<Rightarrow> u8 list \<Rightarrow> bool" where
  "probe_packet sd seq pkt \<longleftrightarrow>
     in_cksum pkt = 0 \<and> field 0 2 pkt = [8, 0]
     \<and> field 4 2 pkt = le_bytes 2 (word_of_int (sd_pid sd) :: u16)
     \<and> field 6 2 pkt = le_bytes 2 (word_of_int seq :: u16)
     \<and> (\<exists>tv t. field 8 44 pkt = payload_bytes (probe_payload \<lparr>pr_seq = seq, pr_peer_id = sd_peer_id sd,
          pr_probe_id = sd_probe_id sd, pr_thread_id = sd_thread_id sd, pr_tv = tv, pr_time = t\<rparr>))"

lemma send_probe_packet:
  assumes "send_probe c w sd ai seq s = Inr s'" and "has_header (sd_pid sd) (sendbuf s)"
  shows "has_header (sd_pid sd) (sendbuf s')"
    and "\<exists>pkt. sent s' = sent s @ [(ai, pkt)] \<and> probe_packet sd seq pkt"
proof -
  obtain buf where f: "fill_sendbuf (o_heap w (probes_made s)) (c_max_load c)
      (probe_of w sd seq (probes_made s)) (sendbuf s) = Inr buf"
    and s': "s' = s\<lparr>sendbuf := buf, probes_made := probes_made s + 1,
      sent := sent s @ [(ai, take (packet_len (c_max_load c)) buf)]\<rparr>"
    using assms(1) by (auto simp: send_probe_def Let_def res_map_Inr_iff)
  note lay = fill_sendbuf_layout [OF f assms(2)]
  have "load_ok (c_max_load c)" using f by (simp add: fill_sendbuf_def split: if_splits)
  then have n: "52 \<le> packet_len (c_max_load c)" using load_bounds by simp
  have len: "length (sendbuf s) = BUFSIZE" using assms(2) by (simp add: has_header_def)
  show "has_header (sd_pid sd) (sendbuf s')" using lay(1) by (simp add: s')
  have "probe_packet sd seq (take (packet_len (c_max_load c)) buf)"
    using lay n fill_sendbuf_cksum [OF f len]
    by (auto simp: probe_packet_def field_take has_header_def probe_of_def)
  then show "\<exists>pkt. sent s' = sent s @ [(ai, pkt)] \<and> probe_packet sd seq pkt" by (simp add: s')
qed

lemma send_probe_total:
  assumes "load_ok (c_max_load c)"
  obtains s' where "send_probe c w sd ai seq s = Inr s'"
  using assms by (simp add: send_probe_def Let_def fill_sendbuf_def)

text \<open>The packets to one destination.\<close>

definition probe_train :: "sender \<Rightarrow> 'a \<Rightarrow> int list \<Rightarrow> ('a \<times> u8 list) list \<Rightarrow> bool" where
  "probe_train sd ai seqs ps = list_all2 (\<lambda>seq (a, pkt). a = ai \<and> probe_packet sd seq pkt) seqs ps"

lemma send_probes_train:
  assumes "load_ok (c_max_load c)" and "has_header (sd_pid sd) (sendbuf s)"
  shows "\<exists>s' ps. fold_res (send_probe c w sd ai) seqs s = Inr s' \<and> sent s' = sent s @ ps
    \<and> has_header (sd_pid sd) (sendbuf s') \<and> probe_train sd ai seqs ps"
  using assms(2)
proof (induction seqs arbitrary: s)
  case (Cons q seqs)
  obtain t where t: "send_probe c w sd ai q s = Inr t" by (rule send_probe_total [OF assms(1)])
  obtain pkt where pkt: "sent t = sent s @ [(ai, pkt)]" "probe_packet sd q pkt"
    using send_probe_packet(2) [OF t Cons.prems] by blast
  obtain s' ps where IH: "fold_res (send_probe c w sd ai) seqs t = Inr s'" "sent s' = sent t @ ps"
    "has_header (sd_pid sd) (sendbuf s')" "probe_train sd ai seqs ps"
    using Cons.IH [OF send_probe_packet(1) [OF t Cons.prems]] by blast
  have "fold_res (send_probe c w sd ai) (q # seqs) s = Inr s'" by (simp add: t IH(1))
  moreover have "sent s' = sent s @ (ai, pkt) # ps" by (simp add: IH(2) pkt(1))
  moreover have "probe_train sd ai (q # seqs) ((ai, pkt) # ps)"
    using IH(4) pkt(2) by (simp add: probe_train_def)
  ultimately show ?case using IH(3) by blast
qed (simp add: probe_train_def)

lemma send_dst_train:
  assumes "load_ok (c_max_load c)" and "length (sendbuf s) = BUFSIZE"
    and "getaddrinfo (d_ipv4 dst) = Some ai"
  shows "\<exists>s' ps. send_dst getaddrinfo c w sd dst s = Inr s' \<and> sent s' = sent s @ ps
    \<and> length (sendbuf s') = BUFSIZE \<and> probe_train sd ai [0..c_pfr_ping_req c - 1] ps"
proof -
  let ?s = "s\<lparr>sendbuf := write_header (sd_pid sd) (sendbuf s)\<rparr>"
  have hdr: "has_header (sd_pid sd) (sendbuf ?s)" using has_header_write [OF assms(2)] by simp
  obtain s' ps where "fold_res (send_probe c w sd ai) [0..c_pfr_ping_req c - 1] ?s = Inr s'"
    "sent s' = sent ?s @ ps" "has_header (sd_pid sd) (sendbuf s')"
    "probe_train sd ai [0..c_pfr_ping_req c - 1] ps"
    using send_probes_train [OF assms(1) hdr] by blast
  then show ?thesis using assms(3) by (auto simp: send_dst_def has_header_def)
qed

definition sender_of :: "int \<Rightarrow> int \<Rightarrow> int \<Rightarrow> u64 \<Rightarrow> sender" where
  "sender_of getpid peer_id probe_id thId =
     \<lparr>sd_pid = getpid AND 0xffff, sd_peer_id = peer_id, sd_probe_id = probe_id, sd_thread_id = thId\<rparr>"

lemma send_dsts_trains:
  assumes "load_ok (c_max_load c)" and "\<forall>d \<in> set ds. getaddrinfo (d_ipv4 d) \<noteq> None"
    and "length (sendbuf s) = BUFSIZE"
  shows "\<exists>s' trains. fold_res (send_dst getaddrinfo c w sd) ds s = Inr s'
    \<and> sent s' = sent s @ concat trains
    \<and> list_all2 (\<lambda>d. probe_train sd (the (getaddrinfo (d_ipv4 d))) [0..c_pfr_ping_req c - 1]) ds trains"
  using assms(2,3)
proof (induction ds arbitrary: s)
  case (Cons d ds)
  obtain ai where ai: "getaddrinfo (d_ipv4 d) = Some ai" using Cons.prems(1) by auto
  obtain t ps where t: "send_dst getaddrinfo c w sd d s = Inr t" "sent t = sent s @ ps"
    "length (sendbuf t) = BUFSIZE" "probe_train sd ai [0..c_pfr_ping_req c - 1] ps"
    using send_dst_train [where getaddrinfo = getaddrinfo and dst = d and w = w and sd = sd,
        OF assms(1) Cons.prems(2) ai] by blast
  obtain s' trains where IH: "fold_res (send_dst getaddrinfo c w sd) ds t = Inr s'"
    "sent s' = sent t @ concat trains"
    "list_all2 (\<lambda>d. probe_train sd (the (getaddrinfo (d_ipv4 d))) [0..c_pfr_ping_req c - 1]) ds trains"
    using Cons.IH [OF _ t(3)] Cons.prems(1) by auto
  show ?case
    by (rule exI [of _ s'], rule exI [of _ "ps # trains"]) (simp add: t IH ai)
qed simp


definition example_outside :: outside where
  "example_outside = \<lparr>o_tv = (\<lambda>k. \<lparr>tv_sec = 1700000000, tv_usec = int k\<rparr>), o_time = (\<lambda>_. 1700000000),
     o_heap = (\<lambda>_ _. 0)\<rparr>"

definition example_sending :: "string send_state" where
  "example_sending = \<lparr>sendbuf = replicate BUFSIZE 0, probes_made = 0, sent = []\<rparr>"


end
