(* ===== verification/Pfr_Main.thy ===== *)
theory Pfr_Main
  imports Pfr_Routes Pfr_Sql_Log Ping_Proc Ping_Send
begin

text \<open>
  The daemon (\<open>src/src/pfrd.cpp\<close>): the signal handler, the pid file, and \<open>main\<close>: its start and the
  passes of its loop, each of which is a round of probes.

  A pass is a function of the daemon's state and of what happens during it (\<open>round_input\<close>): the
  packets that \<open>readloop\<close> hands to \<open>proc_v4\<close>, the signals, whether \<open>readloop\<close> acknowledged the end of
  the probes (\<open>Pfr_Handshake\<close> says when it does), and what the system and the database return.  The
  senders are in \<open>Ping_Send\<close>; the thread that writes the log of the round is \<open>pfr_route_scan_sql\<close>.
  Sleeping, logging and the fork of the daemon are left out.
\<close>


section \<open>Signals\<close>

datatype signal = SIGUSR1 | SIGUSR2 | SIGINT

record sig_flags =
  sig_usr1_flag :: bool
  sig_usr2_flag :: bool
  sig_int_flag :: bool

definition no_signals :: sig_flags where
  "no_signals = \<lparr>sig_usr1_flag = False, sig_usr2_flag = False, sig_int_flag = False\<rparr>"

definition sig_usr :: "signal \<Rightarrow> sig_flags \<Rightarrow> sig_flags" where
  "sig_usr signo f =
     (if signo = SIGUSR1 \<or> signo = SIGINT then f\<lparr>sig_usr1_flag := True, sig_int_flag := True\<rparr>
      else if signo = SIGUSR2 then f\<lparr>sig_usr2_flag := True\<rparr> else f)"


section \<open>The pid file\<close>

text \<open>Files by their path; \<open>None\<close> cannot be opened.\<close>

type_synonym files = "string \<Rightarrow> string option"

definition file_exists :: "files \<Rightarrow> string \<Rightarrow> bool" where
  "file_exists fs path \<longleftrightarrow> fs path \<noteq> None"

text \<open>\<open>stream >> n\<close> for an \<open>int\<close>: 0 without a number, the nearest bound when it does not fit.\<close>

definition stream_int :: "string \<Rightarrow> int" where
  "stream_int s = (case strtol10 s of None \<Rightarrow> 0 | Some n \<Rightarrow> max (- (2 ^ 31)) (min (2 ^ 31 - 1) n))"

definition read_pid_from_file :: "files \<Rightarrow> string \<Rightarrow> int \<Rightarrow> bool \<times> int" where
  "read_pid_from_file fs pid_path pid =
     (case fs pid_path of Some text \<Rightarrow> (True, stream_int text) | None \<Rightarrow> (False, pid))"

definition print_pid_to_file ::
  "(string \<Rightarrow> bool) \<Rightarrow> int \<Rightarrow> string \<Rightarrow> files \<Rightarrow> bool \<times> files" where
  "print_pid_to_file writable pid pid_path fs =
     (if writable pid_path then (True, fs(pid_path \<mapsto> to_string pid @ [CHR 0x0A])) else (False, fs))"

text \<open>\<open>alive pid\<close> is \<open>kill(pid, 0) == 0\<close>.\<close>

definition claim_pid ::
  "(string \<Rightarrow> bool) \<Rightarrow> (int \<Rightarrow> bool) \<Rightarrow> int \<Rightarrow> string \<Rightarrow> files \<Rightarrow> files res" where
  "claim_pid writable alive getpid pid_path fs =
     (let (ok, pid_from_file) =
            (if file_exists fs pid_path then read_pid_from_file fs pid_path 0 else (False, 0))
      in if ok \<and> pid_from_file > 0 \<and> alive pid_from_file then Inl (Exit 1)
         else (let (written, fs') = print_pid_to_file writable getpid pid_path fs
               in if written then Inr fs' else Inl (Exit 1)))"


section \<open>The state of the loop\<close>

record 's daemon =
  conf_map :: "(string, string) std_map"
  conf :: config
  measured :: rdata
  routers :: "'s rtr_state"
  probe_no :: int
  dsts :: "pfr_dst list"
  flags :: sig_flags
  t_ct :: nat

text \<open>The parts of the outside that do not change: functions of the libraries and the system.\<close>

record lib =
  l_split :: "(char \<Rightarrow> bool) \<Rightarrow> string \<Rightarrow> string list"
  l_aton :: "string \<Rightarrow> u32 option"
  l_popen :: "string \<Rightarrow> string option"
  l_pid :: int

record round_input =
  i_prefix_rows :: "int \<Rightarrow> string list option"
  i_dst_rows :: "dst_row list option"
  i_shm :: shm_env
  i_packets :: "(u8 list \<times> int \<times> timeval) list"
  i_ack :: bool
  i_signals :: "signal list"
  i_perf :: perf_cont
  i_file :: "string list option"

datatype 'd outcome = Running 'd | Terminated int 'd


section \<open>The start\<close>

text \<open>
  The telemetry: three threads for every router, named after the node of its first peer.  The
  arguments of the threads are an array of 999.  The result lists router and name of each thread.
\<close>

definition router_threads ::
  "config \<Rightarrow> string \<times> peer_table \<Rightarrow> (string \<times> string) list \<times> 's pfr_asbrs
    \<Rightarrow> ((string \<times> string) list \<times> 's pfr_asbrs) res" where
  "router_threads c = (\<lambda>(pe_ip, peers) (ts, a).
     case entries peers of
       [] \<Rightarrow> Inl (Undefined_Behaviour ''dereference of end'')
     | (_, peer) # _ \<Rightarrow>
         (case pp_node_id peer of
            None \<Rightarrow> Inl (Undefined_Behaviour ''node id'')
          | Some node \<Rightarrow>
              Inr (ts @ map (\<lambda>n. (pe_ip, thread_name n node (c_pfrd_sndr_name_digit c)))
                  [''pfrd_tlmt'', ''pfrd_strm'', ''pfrd_perf''],
                snd (get_asbr pe_ip a))))"

definition start_telemetry ::
  "config \<Rightarrow> (string, peer_table) std_map \<Rightarrow> 's pfr_asbrs \<Rightarrow> ((string \<times> string) list \<times> 's pfr_asbrs) res" where
  "start_telemetry c asbr_peers a =
     (if size asbr_peers > 999 then Inl (Undefined_Behaviour ''array index'')
      else fold_res (router_threads c) (entries asbr_peers) ([], a))"

text \<open>
  From \<open>load_configuration_file\<close> to the loop.  The size of \<open>thrds\<close> is that of the peer table at the
  start.  (The peer table is read before the configuration.)  The result is the state, the files and
  the threads of the telemetry.
\<close>

definition daemon_start ::
  "lib \<Rightarrow> (string \<Rightarrow> 's pfr_asbr_parm) \<Rightarrow> peer_row list \<Rightarrow> round_input
    \<Rightarrow> (string \<Rightarrow> bool) \<Rightarrow> (int \<Rightarrow> bool) \<Rightarrow> int \<Rightarrow> files \<Rightarrow> bool
    \<Rightarrow> ('s daemon \<times> files \<times> (string \<times> string) list) res" where
  "daemon_start l connect rows i writable alive getpid fs db_up =
     res_bind (pfr_peers rows sm_empty) (\<lambda>(pp, m).
     let (ok, cm, c) = load_configuration_file (l_split l) (i_file i) (sm_empty, initial_config)
     in if \<not> ok then Inl (Exit 1)
        else res_bind (claim_pid writable alive getpid (c_pid_path c) fs) (\<lambda>fs'.
          res_bind (pfr_sql_log_new db_up (c_enable_sql_log c)) (\<lambda>_.
          res_bind (pfr_customer_new (l_aton l) (i_prefix_rows i) (c_customer_id c)) (\<lambda>cust.
          res_bind (pfr_dst_list_first \<lparr>e_split = l_split l, e_aton = l_aton l,
              e_localnets = c_localnets c, e_rows = i_dst_rows i, e_cust = cust\<rparr> (i_shm i)) (\<lambda>(ds, _).
          res_bind (pfr_asbrs_new c connect m) (\<lambda>a.
          res_map (\<lambda>(ts, a'). (\<lparr>conf_map = cm, conf = c, measured = initial_rdata,
              routers = \<lparr>mm = m, br = a', calls = []\<rparr>, probe_no = 0, dsts = ds, flags = no_signals,
              t_ct = size pp\<rparr>, fs', ts))
            (start_telemetry c (pfr_asbr_peers c pp sm_empty) a)))))))"


section \<open>A pass of the loop\<close>

text \<open>From the second round on the list of destinations is read again, for customer 7.\<close>

definition refresh_dsts :: "lib \<Rightarrow> round_input \<Rightarrow> 's daemon \<Rightarrow> 's daemon res" where
  "refresh_dsts l i d =
     (if probe_no d > 0 then
        res_bind (pfr_customer_new (l_aton l) (i_prefix_rows i) 7) (\<lambda>cust.
        res_map (\<lambda>(ds, _). d\<lparr>dsts := ds\<rparr>)
          (pfr_dst_list_next \<lparr>e_split = l_split l, e_aton = l_aton l, e_localnets = c_localnets (conf d),
             e_rows = i_dst_rows i, e_cust = cust\<rparr> (i_shm i) (dsts d)))
      else Inr d)"

text \<open>
  A sender is started for every entry of the peer table: \<open>itdata\<close> holds 999, \<open>thrds\<close> holds \<open>t_ct\<close>.
\<close>

definition start_senders :: "'s daemon \<Rightarrow> int list res" where
  "start_senders d =
     (if size (mm (routers d)) > 999 \<or> size (mm (routers d)) > t_ct d
      then Inl (Undefined_Behaviour ''array index'')
      else Inr (sm_keys (mm (routers d))))"

definition receive :: "lib \<Rightarrow> (u8 list \<times> int \<times> timeval) list \<Rightarrow> rdata \<Rightarrow> rdata res" where
  "receive l packets s =
     fold_res (\<lambda>(buf, len, tv). proc_v4 False (l_pid l) buf len tv) packets s"

text \<open>Steps 3 to 5: the update, the averages and deviations, and the scan.\<close>

definition evaluate_round :: "lib \<Rightarrow> round_input \<Rightarrow> 's daemon \<Rightarrow> 's daemon res" where
  "evaluate_round l i d =
     res_bind (pfr_route_update (l_popen l) (conf d) (probe_no d) (map d_ipv4 (dsts d))
       (measured d, routers d)) (\<lambda>(s1, w1).
     res_bind (pfr_calc_avg_rtt (conf d) (i_perf i) (probe_no d) s1) (\<lambda>s2.
     res_bind (pfr_calc_stddev_rtt (probe_no d) s2) (\<lambda>s3.
     res_map (\<lambda>(s4, min_rtt).
         d\<lparr>measured := s4, routers := w1, conf := (conf d)\<lparr>c_min_rtt := min_rtt\<rparr>\<rparr>)
       (pfr_route_scan (conf d) (probe_no d) (s3, c_min_rtt (conf d))))))"

text \<open>Steps 6 to 7.5.\<close>

definition clean_round :: "lib \<Rightarrow> 's daemon \<Rightarrow> 's daemon res" where
  "clean_round l d =
     res_map (\<lambda>(s, w). d\<lparr>measured := s, routers := w\<rparr>)
       (pfr_delete (l_popen l) (conf d) (probe_no d)
         (pfr_route_free (probe_no d) (measured d), routers d))"

definition shutdown :: "lib \<Rightarrow> 's daemon \<Rightarrow> 's daemon outcome res" where
  "shutdown l d =
     res_map (\<lambda>(s, w). Terminated 1 (d\<lparr>measured := s, routers := w\<rparr>))
       (pfr_delete_all (l_popen l) (conf d) (probe_no d) (measured d, routers d))"

text \<open>\<open>sig_usr2_flag\<close> is not cleared: the configuration is read in every later round, too.\<close>

definition reread_conf :: "lib \<Rightarrow> string list option \<Rightarrow> 's daemon \<Rightarrow> 's daemon outcome" where
  "reread_conf l file d =
     (if sig_usr2_flag (flags d) then
        (let (ok, cm, c) = load_configuration_file (l_split l) file (conf_map d, conf d);
             d' = d\<lparr>conf_map := cm, conf := c\<rparr>
         in if ok then Running d' else Terminated 1 d')
      else Running d)"

text \<open>Step 8.\<close>

definition advertise_round :: "lib \<Rightarrow> 's daemon \<Rightarrow> 's daemon res" where
  "advertise_round l d =
     (if c_enable_advertise (conf d)
      then res_map (\<lambda>(rt, w). d\<lparr>measured := (measured d)\<lparr>route := rt\<rparr>, routers := w\<rparr>)
        (pfr_routes_man (l_popen l) (conf d) (probe_no d) (route (measured d), routers d))
      else Inr d)"

definition process_round :: "lib \<Rightarrow> round_input \<Rightarrow> 's daemon \<Rightarrow> 's daemon outcome res" where
  "process_round l i d =
     res_bind (evaluate_round l i d) (\<lambda>d1.
     res_bind (clean_round l d1) (\<lambda>d2.
     if sig_usr1_flag (flags d2) \<or> sig_int_flag (flags d2) then shutdown l d2
     else (case reread_conf l (i_file i) d2 of
         Terminated n d3 \<Rightarrow> Inr (Terminated n d3)
       | Running d3 \<Rightarrow> res_map Running (advertise_round l d3))))"

text \<open>The whole pass; a round that was not acknowledged is not evaluated.\<close>

definition daemon_round :: "lib \<Rightarrow> round_input \<Rightarrow> 's daemon \<Rightarrow> 's daemon outcome res" where
  "daemon_round l i d =
     res_bind (refresh_dsts l i d) (\<lambda>d1.
     res_bind (start_senders d1) (\<lambda>_.
     res_bind (receive l (i_packets i) (measured d1)) (\<lambda>s.
     let d2 = d1\<lparr>measured := s, flags := fold sig_usr (i_signals i) (flags d1)\<rparr>
     in res_map (\<lambda>o'. case o' of
            Terminated n d' \<Rightarrow> Terminated n d'
          | Running d' \<Rightarrow> Running (d'\<lparr>probe_no := probe_no d' + 1\<rparr>))
          (if i_ack i then process_round l i d2 else Inr (Running d2)))))"


text \<open>The loop, for the passes whose inputs are given.\<close>

fun daemon_loop :: "lib \<Rightarrow> round_input list \<Rightarrow> 's daemon \<Rightarrow> 's daemon outcome res" where
  "daemon_loop l [] d = Inr (Running d)"
| "daemon_loop l (i # inputs) d =
     res_bind (daemon_round l i d) (\<lambda>o'. case o' of
         Terminated n d' \<Rightarrow> Inr (Terminated n d')
       | Running d' \<Rightarrow> daemon_loop l inputs d')"


section \<open>Facts\<close>

lemma receive_total:
  "\<exists>s'. receive l packets s = Inr s' \<and> samples_grow s s'"
  unfolding receive_def
proof (rule fold_res_total)
  show "samples_grow s s" by (rule samples_grow_refl)
next
  fix x :: "u8 list \<times> int \<times> timeval" and u assume "samples_grow s u"
  moreover obtain buf len tv where "x = (buf, len, tv)" by (cases x)
  moreover obtain v where "proc_v4 False (l_pid l) buf len tv u = Inr v" "samples_grow u v"
    using proc_v4_grows by blast
  ultimately show "\<exists>v. (case x of (buf, len, tv) \<Rightarrow> proc_v4 False (l_pid l) buf len tv) u = Inr v
      \<and> samples_grow s v"
    using samples_grow_trans by auto
qed


lemma stream_int_to_string:
  assumes "0 \<le> n" and "n < 2 ^ 31"
  shows "stream_int (to_string n @ [CHR 0x0A]) = n"
proof -
  have "strtol10 (nat_to_string (nat n) @ [CHR 0x0A]) = Some (int (nat n))"
    by (rule strtol10_nat) (simp add: is_digit_def)
  then show ?thesis using assms by (simp add: stream_int_def to_string_def)
qed

text \<open>
  The pid file excludes a second daemon: after one process has claimed it, and as long as that
  process lives, every later claim ends in \<open>exit(1)\<close>, whoever makes it.
\<close>

lemma claim_pid_excludes:
  assumes "claim_pid writable alive getpid pid_path fs = Inr fs'" and "0 < getpid" and "getpid < 2 ^ 31"
    and "alive' getpid"
  shows "claim_pid writable' alive' getpid' pid_path fs' = Inl (Exit 1)"
proof -
  have "fs' pid_path = Some (to_string getpid @ [CHR 0x0A])"
    using assms(1) by (auto simp: claim_pid_def print_pid_to_file_def Let_def split: if_splits prod.splits)
  then show ?thesis
    using assms(2-4) stream_int_to_string [of getpid]
    by (simp add: claim_pid_def file_exists_def read_pid_from_file_def)
qed


definition example_lib :: lib where
  "example_lib = \<lparr>l_split = (\<lambda>_ s. [s]), l_aton = (\<lambda>_. None), l_popen = (\<lambda>_. Some []), l_pid = 4711\<rparr>"

definition example_input :: round_input where
  "example_input = \<lparr>i_prefix_rows = (\<lambda>_. None), i_dst_rows = None,
     i_shm = \<lparr>ftok_ok = True, sem_opened = True, shmget_ok = True, shm = None\<rparr>,
     i_packets = [], i_ack = True, i_signals = [SIGINT], i_perf = sm_empty, i_file = None\<rparr>"

definition example_daemon :: "unit daemon" where
  "example_daemon = \<lparr>conf_map = sm_empty, conf = initial_config,
     measured = initial_rdata\<lparr>
       route := set_route ''10.0.0.1'' 1 (Some (rt_parm_new 0 (Fin 12) 1 (Fin 12))) sm_empty,
       route_log1 := set_log ''10.0.0.1'' 1
         (tlog_new 1 (Fin 12) (Fin 12) None None None None 0 0) sm_empty\<rparr>,
     routers = example_routers, probe_no = 1, dsts = [], flags = sig_usr SIGINT no_signals, t_ct = 2\<rparr>"

lemma example_daemon_evaluated:
  "evaluate_round example_lib example_input example_daemon = Inr example_daemon"
proof -
  have "initial_config\<lparr>c_min_rtt := c_min_rtt initial_config\<rparr> = initial_config" by simp
  then show ?thesis
    by (simp add: evaluate_round_def example_daemon_def initial_rdata_def pfr_route_update_def
        pfr_calc_avg_rtt_def pfr_calc_stddev_rtt_def pfr_route_scan_def)
qed

lemma example_daemon_cleaned: "clean_round example_lib example_daemon = Inr example_daemon"
  by (simp add: clean_round_def example_daemon_def pfr_route_free_def pfr_delete_def initial_config_def)


text \<open>
  C5. The evaluation of a round, from the answers to the routes: in every round after the first, if all
  destinations are still listed, their entries are answers to probes of peers with telemetry, and
  none has a null route from the round before, \<open>main\<close>'s evaluation returns; the scan has worked on
  correct summaries of every peer's answers, no router has been called, and the running minimum is
  back at 50000.
\<close>

theorem evaluate_round_returns:
  assumes "0 < probe_no d" and "round_answered (i_perf i) (probe_no d) (measured d)"
    and "\<forall>e. sm_find (r (measured d)) e \<noteq> None \<longrightarrow> e \<in> set (map d_ipv4 (dsts d))
      \<and> route_at (route (measured d)) e (probe_no d - 1) \<noteq> Some None"
    and "r (measured d) \<noteq> sm_empty"
  shows "\<exists>s2 s3. measured_round (c_pfr_ping_req (conf d)) (probe_no d) (measured d) s2
    \<and> pfr_route_scan (conf d) (probe_no d) (s2, c_min_rtt (conf d)) = Inr (s3, Fin 50000)
    \<and> evaluate_round l i d = Inr (d\<lparr>measured := s3, conf := (conf d)\<lparr>c_min_rtt := Fin 50000\<rparr>\<rparr>)"
proof -
  obtain s1 s2 out where p: "pfr_calc_avg_rtt (conf d) (i_perf i) (probe_no d) (measured d) = Inr s1"
    "pfr_calc_stddev_rtt (probe_no d) s1 = Inr s2"
    "measured_round (c_pfr_ping_req (conf d)) (probe_no d) (measured d) s2"
    "pfr_route_scan (conf d) (probe_no d) (s2, c_min_rtt (conf d)) = Inr out"
    using evaluation_passes [OF assms(1,2)] assms(3) by blast
  obtain s3 m where out: "out = (s3, m)" by (cases out)
  have "sm_keys (r s2) \<noteq> []"
  proof -
    obtain e where "sm_find (r (measured d)) e \<noteq> None"
      using assms(4) sm_eqI [of "r (measured d)" sm_empty] by fastforce
    then have "sm_find (r s2) e \<noteq> None" using p(3) unfolding measured_round_def by blast
    then have "e \<in> set (sm_keys (r s2))" by (simp add: sm_in_keys)
    then show ?thesis by auto
  qed
  then have m: "m = Fin 50000"
    using scan_leaves_bound [OF assms(1)] p(4) by (auto simp: out pfr_route_scan_def)
  have "pfr_route_update (l_popen l) (conf d) (probe_no d) (map d_ipv4 (dsts d)) (measured d, routers d)
      = Inr (measured d, routers d)"
    by (rule route_update_listed) (use assms(3) in blast)
  then have "evaluate_round l i d = Inr (d\<lparr>measured := s3, routers := routers d, conf := (conf d)\<lparr>c_min_rtt := m\<rparr>\<rparr>)"
    by (simp add: evaluate_round_def p(1,2,4) [unfolded out])
  then show ?thesis using p(3,4) by (auto simp: out m)
qed

definition example_round_daemon :: "unit daemon" where
  "example_round_daemon = \<lparr>conf_map = sm_empty, conf = initial_config, measured = example_round,
     routers = example_routers, probe_no = 1, dsts = [pfr_dst_new 0 ''10.0.0.1'' [] []],
     flags = no_signals, t_ct = 2\<rparr>"

theorem evaluate_round_returns_witness:
  "\<exists>s2 s3. measured_round (c_pfr_ping_req (conf example_round_daemon)) (probe_no example_round_daemon)
      (measured example_round_daemon) s2
    \<and> pfr_route_scan (conf example_round_daemon) (probe_no example_round_daemon)
        (s2, c_min_rtt (conf example_round_daemon)) = Inr (s3, Fin 50000)
    \<and> evaluate_round example_lib example_input example_round_daemon
      = Inr (example_round_daemon\<lparr>measured := s3, conf := (conf example_round_daemon)\<lparr>c_min_rtt := Fin 50000\<rparr>\<rparr>)"
proof (rule evaluate_round_returns)
  have "sm_find (r example_round) ''10.0.0.1'' \<noteq> None" by (simp add: example_round_def set_peers_def)
  then show "r (measured example_round_daemon) \<noteq> sm_empty" by (auto simp: example_round_daemon_def)
  show "round_answered (i_perf example_input) (probe_no example_round_daemon) (measured example_round_daemon)"
    using round_answered_example by (simp add: example_round_daemon_def example_input_def)
qed (simp_all add: example_round_daemon_def example_round_def initial_rdata_def set_peers_def route_at_def pfr_dst_new_def
    split: if_splits)


section \<open>Peer 0\<close>

lemma create_set_grows:
  assumes "pfr_create_set_jrouter_rt popen c probe_id prev k e s = Inr s'" and "0 < probe_id"
  shows "sm_find (mm s') k \<noteq> None \<and> (\<forall>j. sm_find (mm s) j \<noteq> None \<longrightarrow> sm_find (mm s') j \<noteq> None)"
proof -
  have w: "mm s2 = mm s1" if "with_calls f s1 = Inr s2" for f and s1 s2 :: "'a rtr_state"
    using that by (auto simp: with_calls_def res_map_Inr_iff)
  have t: "sm_find (mm (touch_peer j u)) j' \<noteq> None \<longleftrightarrow> j' = j \<or> sm_find (mm u) j' \<noteq> None"
    for j j' and u :: "'a rtr_state"
    by (simp add: touch_peer_def)
  obtain s2 s3 where s2: "(if probe_id > 1 \<and> prev \<noteq> 0 then withdraw_previous popen c prev e (touch_peer k s)
      else Inr (touch_peer k s)) = Inr s2" "rib_add popen c e (peer_at k s) s2 = Inr s3" "s' = touch_asbr k s3"
    using assms by (auto simp: pfr_create_set_jrouter_rt_def Let_def res_map_Inr_iff elim!: res_bind_InrE)
  have "mm s' = mm s2" using w [OF s2(2) [unfolded rib_add_def]] s2(3) by simp
  moreover have "mm s2 = mm (touch_peer k s) \<or> mm s2 = mm (touch_peer prev (touch_peer k s))"
    using s2(1) w [of _ _ s2] by (auto simp: withdraw_previous_def rib_del_def Let_def split: if_splits)
  ultimately show ?thesis using t by metis
qed

text \<open>
  C35. Advertising peer 0 breaks the daemon: if the advertisement of a round returns and covers a
  destination whose peer is 0, the peer table has grown beyond the size that \<open>thrds\<close> was made for, and
  the start of the next round's senders writes outside of it.
\<close>

theorem peer_zero_overflows:
  assumes "0 < probe_no d" and "c_enable_advertise (conf d)" and "advertise_round l d = Inr d'"
    and "sm_find (mm (routers d)) 0 = None" and "size (mm (routers d)) = t_ct d"
    and "e \<in> set (sm_keys (route (measured d)))"
    and "sm_at None (sm_at sm_empty (route (measured d)) e) (probe_no d) = Some rt" and "curr_peer rt = 0"
    and "prev_peer rt \<noteq> 0 \<or> probe_no d = 1 \<or> c_enable_advertise_same (conf d)"
  shows "start_senders d' = Inl (Undefined_Behaviour ''array index'')"
proof -
  let ?rt = "route (measured d)" and ?f = "routes_man_step (l_popen l) (conf d) (probe_no d)"
  obtain rr w where w: "fold_res ?f (sm_keys ?rt) (?rt, routers d) = Inr (rr, w)"
    and d': "routers d' = w" "t_ct d' = t_ct d"
    using assms(2,3) by (auto simp: advertise_round_def pfr_routes_man_def res_map_Inr_iff)
  let ?le = "\<lambda>u v. \<forall>j. sm_find (mm u) j \<noteq> None \<longrightarrow> sm_find (mm v) j \<noteq> None"
  have step: "rr' = rr1 \<and> ?le u v" if "?f x (rr1, u) = Inr (rr', v)" for x rr1 rr' u v
    using that create_set_grows [OF _ assms(1)]
    by (auto simp: routes_man_step_def res_map_Inr_iff split: option.splits if_splits) blast+
  have mono: "rr' = rr1 \<and> ?le u v" if "fold_res ?f xs (rr1, u) = Inr (rr', v)" for xs rr1 rr' u v
    using fold_res_invariant [OF that, of "\<lambda>(a, b). a = rr1 \<and> ?le u b"] step by fastforce
  obtain xs ys where ks: "sm_keys ?rt = xs @ e # ys" using assms(6) by (meson split_list)
  obtain a where a: "fold_res ?f xs (?rt, routers d) = Inr a" "fold_res ?f (e # ys) a = Inr (rr, w)"
    using w unfolding ks fold_res_append by (auto elim: res_bind_InrE)
  obtain u where u: "a = (?rt, u)" "?le (routers d) u" using mono [of xs ?rt "routers d"] a(1) by (cases a) auto
  obtain b where b: "?f e (?rt, u) = Inr b" "fold_res ?f ys b = Inr (rr, w)"
    using a(2) u(1) by (auto elim: res_bind_InrE)
  obtain v where v: "b = (?rt, v)" "?le u v" using step [of e ?rt u] b(1) by (cases b) auto
  have "sm_find (mm v) 0 \<noteq> None"
    using b(1) v(1) assms(1,7-9) create_set_grows [OF _ assms(1), of "l_popen l" "conf d" "prev_peer rt" 0 e u v]
    by (auto simp: routes_man_step_def res_map_Inr_iff split: if_splits)
  moreover have "?le v w" using mono [of ys ?rt v] b(2) v(1) by blast
  ultimately have "{j. sm_find (mm (routers d)) j \<noteq> None} \<subset> {j. sm_find (mm w) j \<noteq> None}"
    using u(2) v(2) assms(4) by blast
  moreover have "finite {j. sm_find (mm w) j \<noteq> None}" using set_sm_keys [of "mm w"] by (metis List.finite_set)
  ultimately have "size (mm (routers d)) < size (mm w)" unfolding size_eq_card by (rule psubset_card_mono [rotated])
  then show ?thesis using assms(5) d' by (simp add: start_senders_def)
qed

definition example_zero_daemon :: "unit daemon" where
  "example_zero_daemon = \<lparr>conf_map = sm_empty, conf = initial_config,
     measured = initial_rdata\<lparr>route := sm_put ''10.0.0.1''
       (sm_put 1 (Some (rt_parm_new 0 (Fin 0) 0 (Fin 0))) sm_empty) sm_empty\<rparr>,
     routers = example_routers, probe_no = 1, dsts = [], flags = no_signals, t_ct = 2\<rparr>"

theorem peer_zero_overflows_witness:
  "\<exists>d'. advertise_round example_lib example_zero_daemon = Inr d'
    \<and> start_senders d' = Inl (Undefined_Behaviour ''array index'')"
proof -
  have "\<exists>d'. advertise_round example_lib example_zero_daemon = Inr d'"
    by (simp add: advertise_round_def example_zero_daemon_def initial_config_def initial_rdata_def
        pfr_routes_man_def sm_keys_def sm_put.rep_eq routes_man_step_def pfr_create_set_jrouter_rt_def
        rt_parm_new_def Let_def rib_add_def with_calls_def goexec_def example_lib_def)
  then obtain d' where d': "advertise_round example_lib example_zero_daemon = Inr d'" ..
  have sz: "size (mm (routers example_zero_daemon)) = t_ct example_zero_daemon"
    by (simp add: example_zero_daemon_def example_routers_def example_table_def size_std_map_def sm_put.rep_eq
        sm_empty.rep_eq)
  have "start_senders d' = Inl (Undefined_Behaviour ''array index'')"
    by (rule peer_zero_overflows [where e = "''10.0.0.1''" and rt = "rt_parm_new 0 (Fin 0) 0 (Fin 0)",
          OF _ _ d' _ sz])
      (simp_all add: example_zero_daemon_def initial_config_def initial_rdata_def example_routers_def
        example_table_def sm_in_keys rt_parm_new_def)
  then show ?thesis using d' by blast
qed

lemma router_threads_some:
  assumes "\<forall>(pe, g) \<in> set es. g \<noteq> sm_empty \<and> (\<forall>k p. sm_find g k = Some p \<longrightarrow> pp_node_id p \<noteq> None)"
  shows "\<exists>ts' a'. fold_res (router_threads c) es (ts, a) = Inr (ts', a')
    \<and> set (map fst ts') = set (map fst ts) \<union> fst ` set es"
  using assms
proof (induction es arbitrary: ts a)
  case (Cons e es)
  obtain pe g where e: "e = (pe, g)" by (cases e)
  obtain j p rest where g: "entries g = (j, p) # rest"
    using Cons.prems by (cases "entries g") (auto simp: e entries_Nil_iff)
  then have "sm_find g j = Some p" by (simp flip: entries_iff_find)
  then have "pp_node_id p \<noteq> None" using Cons.prems by (simp add: e del: not_None_eq)
  then obtain node where "pp_node_id p = Some node" by blast
  then obtain us b where f: "router_threads c e (ts, a) = Inr (us, b)" and us: "set (map fst us) = insert pe (set (map fst ts))"
    by (auto simp: e router_threads_def g)
  from Cons.IH [of us b] Cons.prems obtain ts' a' where "fold_res (router_threads c) es (us, b) = Inr (ts', a')"
    "set (map fst ts') = set (map fst us) \<union> fst ` set es" by auto
  then show ?case using f us by (auto simp: e)
qed simp

lemma router_threads_all:
  assumes "groups_of t ap" and "\<And>k p. sm_find t k = Some p \<Longrightarrow> pp_id p = Some k \<and> pp_node_id p \<noteq> None"
  shows "\<exists>ts' a'. fold_res (router_threads c) (entries ap) ([], a) = Inr (ts', a')
    \<and> set (map fst ts') = {pe. sm_find ap pe \<noteq> None}"
proof -
  have "\<forall>(pe, g) \<in> set (entries ap). g \<noteq> sm_empty \<and> (\<forall>k p. sm_find g k = Some p \<longrightarrow> pp_node_id p \<noteq> None)"
    using assms unfolding groups_of_def by (fastforce simp: entries_iff_find)
  from router_threads_some [OF this, of c "[]" a]
  have "\<exists>ts' a'. fold_res (router_threads c) (entries ap) ([], a) = Inr (ts', a') \<and> set (map fst ts') = fst ` set (entries ap)"
    by simp
  moreover have "fst ` set (entries ap) = {pe. sm_find ap pe \<noteq> None}" 
    by (auto simp: entries_iff_find image_iff Bex_def split_paired_Ex)
  ultimately show ?thesis by simp
qed

lemma pfr_asbrs_new_some:
  assumes "\<forall>k p. sm_find m k = Some p \<longrightarrow> pp_id p = Some k"
  shows "\<exists>a. pfr_asbrs_new c connect m = Inr a"
proof -
  have "\<exists>a. fold_res (asbrs_add c connect) (entries m) \<lparr>asbrs = sm_empty, asbrIdPeer = sm_empty\<rparr> = Inr a \<and> True"
    by (rule fold_res_total) (use assms in \<open>auto simp: asbrs_add_def entries_iff_find Let_def\<close>)
  then show ?thesis by (simp add: pfr_asbrs_new_def)
qed

definition start_row :: peer_row where
  "start_row = \<lparr>q_id = ''1'', q_peer_group_id = ''0'', q_pe_ip = ''10.1.0.1'', q_pe = ''PE1'',
     q_interface_id = ''3'', q_interface_name = ''ae0'', q_interface_unit = ''7'', q_address = ''10.1.0.2/31'',
     q_ipv4_peer_address = ''10.1.0.3'', q_ipv6_peer_address = [], q_sp_name = ''sp'', q_pfr_dst_id = ''0'',
     q_peer_community = ''100:1'', q_node_id = ''4'', q_snmp_idx = ''5'', q_intf_idx = ''6'', q_mgmt_ip = ''10.9.0.1''\<rparr>"

definition start_lib :: lib where
  "start_lib = \<lparr>l_split = split_runs, l_aton = aton_dotted, l_popen = (\<lambda>_. Some []), l_pid = 4711\<rparr>"

definition start_input :: round_input where
  "start_input = \<lparr>i_prefix_rows = (\<lambda>_. Some []), i_dst_rows = Some [],
     i_shm = \<lparr>ftok_ok = True, sem_opened = True, shmget_ok = True, shm = Some [NUL]\<rparr>,
     i_packets = [], i_ack = True, i_signals = [], i_perf = sm_empty,
     i_file = Some [''localnets = 10.0.0.0/8'', ''pid_path = /run/pfrd.pid'']\<rparr>"

end
