(* ===== verification/Pfr_Round.thy ===== *)
theory Pfr_Round
  imports Pfr_Main
begin

text \<open>
  One round of \<open>main\<close> from the answers to the routers: what the averages, the scan, the cleaning and the
  advertisement (\<open>Pfr_Rdata\<close>, \<open>Pfr_Scan\<close>, \<open>Pfr_Routes\<close>, \<open>Pfr_Rtr\<close>) do together.
\<close>


section \<open>From the answers to the choice\<close>

text \<open>
  A round that went well: every destination has peers, and every peer has answered between one and 99
  probes, each in less than 50 seconds.
\<close>

definition measurable :: "int \<Rightarrow> rdata \<Rightarrow> bool" where
  "measurable n s \<longleftrightarrow> (\<forall>e. sm_find (r s) e \<noteq> None \<longrightarrow> peers_of (r s) e n \<noteq> sm_empty
     \<and> (\<forall>k seqs. sm_find (peers_of (r s) e n) k = Some seqs \<longrightarrow> k \<noteq> 0 \<and> seqs \<noteq> sm_empty
          \<and> length (entries seqs) \<le> 99 \<and> (\<forall>x \<in> set (rtts (entries seqs)). between 0 49999 x)))"

lemma measured_peer:
  assumes "measured_round req n s s2" and "sm_find (r s) e \<noteq> None"
    and "sm_find (peers_of (r s2) e n) k = Some seqs2"
  obtains seqs tp where "sm_find (peers_of (r s) e n) k = Some seqs"
    and "seqs2 = sm_put 99 (Some tp) seqs"
    and "\<exists>tp0. sums_up req (rtts (entries seqs)) tp0 \<and> tp_avg_rtt tp = tp_avg_rtt tp0"
proof -
  have m: "case sm_find (peers_of (r s) e n) k of
      None \<Rightarrow> sm_find (peers_of (r s2) e n) k = None
    | Some seqs \<Rightarrow> (\<exists>tp tp'. sums_up req (rtts (entries seqs)) tp \<and> deviates (rtts (entries seqs)) tp tp'
        \<and> sm_find (peers_of (r s2) e n) k = Some (sm_put 99 (Some tp') seqs))"
    using assms(1,2) unfolding measured_round_def by blast
  then obtain seqs where seqs: "sm_find (peers_of (r s) e n) k = Some seqs"
    using assms(3) by (cases "sm_find (peers_of (r s) e n) k") auto
  then obtain tp tp' where "sums_up req (rtts (entries seqs)) tp" "deviates (rtts (entries seqs)) tp tp'"
    "seqs2 = sm_put 99 (Some tp') seqs"
    using m assms(3) by auto
  moreover from this(2) have "tp_avg_rtt tp' = tp_avg_rtt tp" by (auto simp: deviates_def)
  ultimately show thesis using that [OF seqs] by blast
qed

lemma measured_values:
  assumes "measurable n s" and "measured_round req n s s2" and "sm_find (r s) e \<noteq> None"
  shows "\<forall>(p, seqs) \<in> set (entries (peers_of (r s2) e n)). p \<noteq> 0
      \<and> (\<exists>v. seq_value ''metric0'' seqs = Some v \<and> dless v (Fin 50000))"
    and "peers_of (r s2) e n \<noteq> sm_empty"
    and "sm_find (peers_of (r s2) e n) k \<noteq> None \<Longrightarrow> sm_find (peers_of (r s) e n) k \<noteq> None"
proof -
  have "p \<noteq> 0 \<and> (\<exists>v. seq_value ''metric0'' seqs2 = Some v \<and> dless v (Fin 50000))"
    if "(p, seqs2) \<in> set (entries (peers_of (r s2) e n))" for p seqs2
  proof -
    have "sm_find (peers_of (r s2) e n) p = Some seqs2" using that by (simp add: entries_iff_find)
    then obtain seqs tp where seqs: "sm_find (peers_of (r s) e n) p = Some seqs" "seqs2 = sm_put 99 (Some tp) seqs"
      "\<exists>tp0. sums_up req (rtts (entries seqs)) tp0 \<and> tp_avg_rtt tp = tp_avg_rtt tp0"
      by (rule measured_peer [OF assms(2,3)])
    have ok: "p \<noteq> 0" "seqs \<noteq> sm_empty" "length (entries seqs) \<le> 99" "\<forall>x \<in> set (rtts (entries seqs)). between 0 49999 x"
      using assms(1,3) seqs(1) unfolding measurable_def by blast+
    have len: "length (rtts (entries seqs)) = length (entries seqs)" by (simp add: rtts_def)
    then have "rtts (entries seqs) \<noteq> []" using ok(2) by (metis entries_Nil_iff length_0_conv)
    then have "between 0 49999 (tp_avg_rtt tp)"
      using seqs(3) sums_up_between [OF _ ok(4)] ok(3) by (auto simp: len)
    then have "dless (tp_avg_rtt tp) (Fin 50000)" by (auto simp: between_def)
    then show ?thesis using ok(1) by (simp add: seqs(2) seq_value_def)
  qed
  then show "\<forall>(p, seqs) \<in> set (entries (peers_of (r s2) e n)). p \<noteq> 0
      \<and> (\<exists>v. seq_value ''metric0'' seqs = Some v \<and> dless v (Fin 50000))" by blast
  obtain k0 seqs0 where "sm_find (peers_of (r s) e n) k0 = Some seqs0"
  proof -
    have "peers_of (r s) e n \<noteq> sm_empty" using assms(1,3) unfolding measurable_def by blast
    then have "\<exists>k. sm_find (peers_of (r s) e n) k \<noteq> None" using sm_eqI [of "peers_of (r s) e n" sm_empty] by force
    then show thesis using that by blast
  qed
  moreover have "case sm_find (peers_of (r s) e n) k0 of
      None \<Rightarrow> sm_find (peers_of (r s2) e n) k0 = None
    | Some seqs \<Rightarrow> (\<exists>tp tp'. sums_up req (rtts (entries seqs)) tp \<and> deviates (rtts (entries seqs)) tp tp'
        \<and> sm_find (peers_of (r s2) e n) k0 = Some (sm_put 99 (Some tp') seqs))"
    using assms(2,3) unfolding measured_round_def by blast
  ultimately show "peers_of (r s2) e n \<noteq> sm_empty" by auto
  show "sm_find (peers_of (r s2) e n) k \<noteq> None \<Longrightarrow> sm_find (peers_of (r s) e n) k \<noteq> None"
    using measured_peer [OF assms(2,3), of k] by (metis option.exhaust option.distinct(1))
qed

section \<open>From the choice to the routers\<close>

lemma route_at_known: "route_at m e n = Some x \<Longrightarrow> sm_find m e \<noteq> None"
  by (cases "sm_find m e") (simp_all add: route_at_def sm_at_def)

lemma advertise_routes:
  assumes "0 < probe_no d" and "c_enable_advertise (conf d)"
    and "\<And>e. sm_find (route (measured d)) e \<noteq> None
      \<Longrightarrow> route_at (route (measured d)) e (probe_no d) = Some (Some (rt e))
        \<and> route_ready (l_popen l) (conf d) (mm (routers d)) (rt e)"
  shows "\<exists>w. advertise_round l d = Inr (d\<lparr>routers := w\<rparr>) \<and> mm w = mm (routers d) \<and> calls w = calls (routers d)
    @ concat (map (\<lambda>e. advert_calls (conf d) (probe_no d) (mm (routers d)) (e, rt e))
        (sm_keys (route (measured d))))"
proof -
  let ?m = "route (measured d)" and ?w = "routers d"
  have rt: "sm_at None (sm_at sm_empty ?m e) (probe_no d) = Some (rt e)
      \<and> route_ready (l_popen l) (conf d) (mm ?w) (rt e)" if "e \<in> set (sm_keys ?m)" for e
    using assms(3) [of e] that by (auto simp: sm_in_keys route_at_def sm_find_Some_at)
  obtain w where w: "pfr_routes_man (l_popen l) (conf d) (probe_no d) (?m, ?w) = Inr (?m, w)" "mm w = mm ?w"
    "calls w = calls ?w @ concat (map (\<lambda>e. advert_calls (conf d) (probe_no d) (mm ?w)
        (e, the (sm_at None (sm_at sm_empty ?m e) (probe_no d)))) (sm_keys ?m))"
    using routes_man_steps [OF assms(1), of "sm_keys ?m" ?m "l_popen l" "conf d" ?w] rt
    by (auto simp: pfr_routes_man_def)
  have eq: "map (\<lambda>e. advert_calls (conf d) (probe_no d) (mm ?w)
        (e, the (sm_at None (sm_at sm_empty ?m e) (probe_no d)))) (sm_keys ?m)
      = map (\<lambda>e. advert_calls (conf d) (probe_no d) (mm ?w) (e, rt e)) (sm_keys ?m)"
    using rt by simp
  then show ?thesis using w(1,2) w(3) [unfolded eq] assms(2)
    by (intro exI [of _ w]) (simp add: advertise_round_def)
qed


section \<open>A pass that goes well\<close>

text \<open>
  The state between two passes: no signal, the metric \<open>metric0\<close> with the bound that the scan leaves,
  routes of the last round only over peers that gobgp can be told about, the peer table within the
  arrays of \<open>main\<close>, and, over gRPC, gobgp last told of each route of the last round.
\<close>

definition call_prefix :: "rib_call \<Rightarrow> string option" where
  "call_prefix call = (case call of Exec _ \<Rightarrow> None | AddPath p \<Rightarrow> Some (nlri_prefix p)
     | DeletePath p \<Rightarrow> Some (nlri_prefix p))"

definition last_call :: "string \<Rightarrow> rib_call list \<Rightarrow> rib_call option" where
  "last_call e cs = find (\<lambda>call. call_prefix call = Some e) (rev cs)"

definition told :: "'s daemon \<Rightarrow> bool" where
  "told d \<longleftrightarrow> (\<forall>e rt. route_at (route (measured d)) e (probe_no d - 1) = Some (Some rt)
     \<longrightarrow> last_call e (calls (routers d)) = Some (AddPath (grpc_path e (peer_at (curr_peer rt) (routers d)))))"

definition good_conf :: "config \<Rightarrow> bool" where
  "good_conf c \<longleftrightarrow> c_path_metric c = ''metric0'' \<and> c_min_rtt c = Fin 50000 \<and> c_enable_advertise c
     \<and> 0 \<le> c_deep_delete c"

definition steady :: "lib \<Rightarrow> 's daemon \<Rightarrow> bool" where
  "steady l d \<longleftrightarrow> 0 \<le> probe_no d \<and> flags d = no_signals \<and> good_conf (conf d)
     \<and> size (mm (routers d)) \<le> t_ct d \<and> size (mm (routers d)) \<le> 999
     \<and> (\<forall>e. sm_find (route (measured d)) e \<noteq> None \<longrightarrow> sm_find (r (measured d)) e \<noteq> None)
     \<and> (\<forall>e x. route_at (route (measured d)) e (probe_no d - 1) = Some x
          \<longrightarrow> (\<exists>p. x = Some p \<and> peer_ready (l_popen l) (conf d) (mm (routers d)) (curr_peer p)))
     \<and> (c_enable_gobgp_grpc (conf d) \<and> 1 < probe_no d \<longrightarrow> told d)"

text \<open>
  The answers of such a pass: all known destinations are still listed, each has answered at least one
  peer, and the peers are ones that gobgp can be told about.
\<close>

definition answered_pass :: "lib \<Rightarrow> round_input \<Rightarrow> 's daemon \<Rightarrow> bool" where
  "answered_pass l i d \<longleftrightarrow> round_answered (i_perf i) (probe_no d) (measured d) \<and> measurable (probe_no d) (measured d)
     \<and> (\<forall>e. sm_find (r (measured d)) e \<noteq> None \<longrightarrow> e \<in> set (map d_ipv4 (dsts d)))
     \<and> (\<forall>e k. sm_find (peers_of (r (measured d)) e (probe_no d)) k \<noteq> None
          \<longrightarrow> peer_ready (l_popen l) (conf d) (mm (routers d)) k)"

text \<open>The evaluation: the best peer of every destination, and what the later steps need.\<close>

text \<open>What the scan of a measured round leaves of a destination: the chosen peer, the route and the log.\<close>

lemma scan_leaves_best:
  assumes n: "0 < n" and prev: "route_at (route s) e (n - 1) \<noteq> Some None"
    and c: "c_path_metric c = ''metric0''" and me: "measurable n s"
    and ms: "measured_round (c_pfr_ping_req c) n s s2"
    and scan: "pfr_route_scan c n (s2, Fin 50000) = Inr (s3, m)" and known: "sm_find (r s) e \<noteq> None"
  shows "\<exists>b. is_best (Fin 50000) (peer_values ''metric0'' (peers_of (r s2) e n)) b
      \<and> sm_find (peers_of (r s) e n) (snd b) \<noteq> None
      \<and> route_at (route s3) e n = Some (Some (chosen c (route_at (route s) e (n - 1)) b))
      \<and> (\<exists>l. log_at (route_log1 s3) e n = Some l \<and> tl_peer_id l \<noteq> 0)"
proof -
  have same: "route s2 = route s" "sm_find (r s2) e \<noteq> None"
    using ms known unfolding measured_round_def by blast+
  note one = scan_views(1) [OF n scan same(2), unfolded dst_view_def same]
  note vals = measured_values [OF me ms known]
  obtain v k where "is_best (Fin 50000) (peer_values ''metric0'' (peers_of (r s2) e n)) (v, k)"
    "sm_find (peers_of (r s2) e n) k \<noteq> None"
    "route_at (route s3) e n = Some (Some (chosen c (route_at (route s) e (n - 1)) (v, k)))"
    "\<exists>l. log_at (route_log1 s3) e n = Some l \<and> tl_peer_id l \<noteq> 0"
    using scan_one_chosen [OF one, unfolded c] n vals(1,2) prev by auto
  then show ?thesis using vals(3) [of k] by (intro exI [of _ "(v, k)"]) simp
qed

lemma evaluate_best:
  assumes n: "0 < probe_no d" and st: "steady l d" and an: "answered_pass l i d"
  obtains s2 s3 best where "measured_round (c_pfr_ping_req (conf d)) (probe_no d) (measured d) s2"
    "evaluate_round l i d = Inr (d\<lparr>measured := s3\<rparr>)"
    "\<And>e. sm_find (r s3) e \<noteq> None \<longleftrightarrow> sm_find (r (measured d)) e \<noteq> None"
    "\<And>e. sm_find (route s3) e \<noteq> None \<longleftrightarrow> sm_find (r (measured d)) e \<noteq> None"
    "\<And>e. sm_find (r (measured d)) e \<noteq> None \<Longrightarrow>
      is_best (Fin 50000) (peer_values ''metric0'' (peers_of (r s2) e (probe_no d))) (best e)
      \<and> sm_find (peers_of (r (measured d)) e (probe_no d)) (snd (best e)) \<noteq> None
      \<and> route_at (route s3) e (probe_no d)
        = Some (Some (chosen (conf d) (route_at (route (measured d)) e (probe_no d - 1)) (best e)))
      \<and> (\<exists>l. log_at (route_log1 s3) e (probe_no d) = Some l \<and> tl_peer_id l \<noteq> 0)"
proof -
  let ?n = "probe_no d" and ?s = "measured d" and ?c = "conf d"
  let ?prev = "\<lambda>e. route_at (route ?s) e (?n - 1)"
  have c: "c_path_metric ?c = ''metric0''" "c_min_rtt ?c = Fin 50000"
    and keys: "\<And>e. sm_find (route ?s) e \<noteq> None \<Longrightarrow> sm_find (r ?s) e \<noteq> None"
    and prev: "\<And>e. ?prev e \<noteq> Some None"
    using st unfolding steady_def good_conf_def by blast+
  have ra: "round_answered (i_perf i) ?n ?s" and me: "measurable ?n ?s"
    and listed: "\<forall>e. sm_find (r ?s) e \<noteq> None \<longrightarrow> e \<in> set (map d_ipv4 (dsts d))"
    using an unfolding answered_pass_def by blast+
  obtain s1 s2 s3 m where p: "pfr_calc_avg_rtt ?c (i_perf i) ?n ?s = Inr s1" "pfr_calc_stddev_rtt ?n s1 = Inr s2"
    "measured_round (c_pfr_ping_req ?c) ?n ?s s2" and scan: "pfr_route_scan ?c ?n (s2, Fin 50000) = Inr (s3, m)"
    using evaluation_passes [OF n ra] prev by (metis surj_pair)
  have same: "route s2 = route ?s" "sm_find (r s2) e \<noteq> None \<longleftrightarrow> sm_find (r ?s) e \<noteq> None" for e
    using p(3) unfolding measured_round_def by blast+
  have min: "?c\<lparr>c_min_rtt := m\<rparr> = ?c" using scan_views(3) [OF n scan] c(2) by simp
  have "pfr_route_update (l_popen l) ?c ?n (map d_ipv4 (dsts d)) (?s, routers d) = Inr (?s, routers d)"
    by (rule route_update_listed) (use listed in blast)
  then have ev: "evaluate_round l i d = Inr (d\<lparr>measured := s3\<rparr>)"
    using min by (simp add: evaluate_round_def p(1,2) c(2) scan)
  obtain best where best: "\<And>e. sm_find (r ?s) e \<noteq> None \<Longrightarrow>
      is_best (Fin 50000) (peer_values ''metric0'' (peers_of (r s2) e ?n)) (best e)
      \<and> sm_find (peers_of (r ?s) e ?n) (snd (best e)) \<noteq> None
      \<and> route_at (route s3) e ?n = Some (Some (chosen ?c (?prev e) (best e)))
      \<and> (\<exists>l. log_at (route_log1 s3) e ?n = Some l \<and> tl_peer_id l \<noteq> 0)"
    using scan_leaves_best [OF n prev c(1) me p(3) scan] by metis
  have "sm_find (r s3) e \<noteq> None \<longleftrightarrow> sm_find (r ?s) e \<noteq> None" for e
    using scan_keys(1) [OF n scan] same(2) by blast
  moreover have "sm_find (route s3) e \<noteq> None \<longleftrightarrow> sm_find (r ?s) e \<noteq> None" for e
    using scan_keys(2) [OF n scan, of e] same keys [of e] best [of e] route_at_known by metis
  ultimately show thesis using that [OF p(3) ev] best by blast
qed

text \<open>The whole of steps 3 to 8.\<close>

lemma chosen_ready:
  assumes "steady l d" and "answered_pass l i d"
    and "sm_find (peers_of (r (measured d)) e (probe_no d)) (snd b) \<noteq> None"
  shows "route_ready (l_popen l) (conf d) (mm (routers d))
    (chosen (conf d) (route_at (route (measured d)) e (probe_no d - 1)) b)"
proof -
  have "peer_ready (l_popen l) (conf d) (mm (routers d)) (snd b)"
    using assms(2,3) unfolding answered_pass_def by blast
  moreover have "peer_ready (l_popen l) (conf d) (mm (routers d)) (curr_peer p)"
    if "route_at (route (measured d)) e (probe_no d - 1) = Some (Some p)" for p
    using assms(1) that unfolding steady_def good_conf_def by blast
  ultimately show ?thesis
    by (auto simp: route_ready_def chosen_def rt_parm_new_def split: prod.splits option.splits)
qed

text \<open>The clean-up after a round that every routed destination has answered frees old samples only.\<close>

lemma clean_answered:
  assumes st: "steady l d"
    and best: "\<And>e. sm_find (route s3) e \<noteq> None \<or> sm_find (r s3) e \<noteq> None
      \<Longrightarrow> \<exists>l. log_at (route_log1 s3) e (probe_no d) = Some l \<and> tl_peer_id l \<noteq> 0"
  shows "clean_round l (d\<lparr>measured := s3\<rparr>) = Inr (d\<lparr>measured := pfr_route_free (probe_no d) s3\<rparr>)"
proof -
  let ?n = "probe_no d" and ?s4 = "pfr_route_free (probe_no d) s3"
  have "pfr_delete (l_popen l) (conf d) ?n (?s4, routers d) = Inr (?s4, routers d)"
  proof (rule delete_nothing)
    fix e rt assume "routed (route ?s4) ?n e = Some rt"
    then have "sm_find (route ?s4) e \<noteq> None" by (auto simp: routed_def split: option.splits)
    then have "sm_find (route s3) e \<noteq> None \<or> sm_find (r s3) e \<noteq> None"
      using route_free_keeps(2-4) [where n = ?n and s = s3 and e = e] by blast
    then show "\<exists>l. log_at (route_log1 ?s4) e ?n = Some l \<and> tl_peer_id l \<noteq> 0"
      using best by (simp add: route_free_keeps(5))
  qed (use st in \<open>simp add: steady_def good_conf_def\<close>)
  then show ?thesis by (simp add: clean_round_def)
qed

lemma process_answered:
  assumes n: "0 < probe_no d" and st: "steady l d" and an: "answered_pass l i d"
  obtains s2 s4 w best where "measured_round (c_pfr_ping_req (conf d)) (probe_no d) (measured d) s2"
    "process_round l i d = Inr (Running (d\<lparr>measured := s4, routers := w\<rparr>))"
    "mm w = mm (routers d)"
    "calls w = calls (routers d) @ concat (map (\<lambda>e. advert_calls (conf d) (probe_no d) (mm (routers d))
        (e, chosen (conf d) (route_at (route (measured d)) e (probe_no d - 1)) (best e)))
        (sm_keys (r (measured d))))"
    "\<forall>e. sm_find (r s4) e \<noteq> None \<longleftrightarrow> sm_find (r (measured d)) e \<noteq> None"
    "\<forall>e. sm_find (route s4) e \<noteq> None \<longleftrightarrow> sm_find (r (measured d)) e \<noteq> None"
    "\<forall>e. sm_find (r (measured d)) e \<noteq> None \<longrightarrow>
      is_best (Fin 50000) (peer_values ''metric0'' (peers_of (r s2) e (probe_no d))) (best e)
      \<and> sm_find (peers_of (r (measured d)) e (probe_no d)) (snd (best e)) \<noteq> None
      \<and> route_at (route s4) e (probe_no d)
        = Some (Some (chosen (conf d) (route_at (route (measured d)) e (probe_no d - 1)) (best e)))"
proof -
  let ?n = "probe_no d" and ?s = "measured d" and ?c = "conf d"
  let ?prev = "\<lambda>e. route_at (route ?s) e (?n - 1)"
  obtain s2 s3 best where e: "measured_round (c_pfr_ping_req ?c) ?n ?s s2"
    "evaluate_round l i d = Inr (d\<lparr>measured := s3\<rparr>)"
    and keys: "\<And>e. sm_find (r s3) e \<noteq> None \<longleftrightarrow> sm_find (r ?s) e \<noteq> None"
      "\<And>e. sm_find (route s3) e \<noteq> None \<longleftrightarrow> sm_find (r ?s) e \<noteq> None"
    and best: "\<And>e. sm_find (r ?s) e \<noteq> None \<Longrightarrow>
      is_best (Fin 50000) (peer_values ''metric0'' (peers_of (r s2) e ?n)) (best e)
      \<and> sm_find (peers_of (r ?s) e ?n) (snd (best e)) \<noteq> None
      \<and> route_at (route s3) e ?n = Some (Some (chosen ?c (?prev e) (best e)))
      \<and> (\<exists>l. log_at (route_log1 s3) e ?n = Some l \<and> tl_peer_id l \<noteq> 0)"
    using evaluate_best [OF n st an] by blast
  let ?s4 = "pfr_route_free ?n s3" and ?rt = "\<lambda>e. chosen ?c (?prev e) (best e)"
  have keys4: "sm_find (r ?s4) e \<noteq> None \<longleftrightarrow> sm_find (r ?s) e \<noteq> None"
    "sm_find (route ?s4) e \<noteq> None \<longleftrightarrow> sm_find (r ?s) e \<noteq> None" for e
    using route_free_keeps(2-4) [where n = ?n and s = s3 and e = e] keys [of e] by blast+
  have clean: "clean_round l (d\<lparr>measured := s3\<rparr>) = Inr (d\<lparr>measured := ?s4\<rparr>)"
    by (rule clean_answered [OF st]) (use keys best in blast)
  have "\<exists>w. advertise_round l (d\<lparr>measured := ?s4\<rparr>) = Inr (d\<lparr>measured := ?s4\<rparr>\<lparr>routers := w\<rparr>)
      \<and> mm w = mm (routers (d\<lparr>measured := ?s4\<rparr>)) \<and> calls w = calls (routers (d\<lparr>measured := ?s4\<rparr>))
      @ concat (map (\<lambda>e. advert_calls (conf (d\<lparr>measured := ?s4\<rparr>)) (probe_no (d\<lparr>measured := ?s4\<rparr>))
          (mm (routers (d\<lparr>measured := ?s4\<rparr>))) (e, ?rt e)) (sm_keys (route (measured (d\<lparr>measured := ?s4\<rparr>)))))"
  proof (rule advertise_routes)
    fix e assume "sm_find (route (measured (d\<lparr>measured := ?s4\<rparr>))) e \<noteq> None"
    then have known: "sm_find (r ?s) e \<noteq> None" using keys4(2) by simp
    then have "route_ready (l_popen l) ?c (mm (routers d)) (?rt e)"
      using best [OF known] chosen_ready [OF st an] by blast
    then show "route_at (route (measured (d\<lparr>measured := ?s4\<rparr>))) e (probe_no (d\<lparr>measured := ?s4\<rparr>)) = Some (Some (?rt e))
        \<and> route_ready (l_popen l) (conf (d\<lparr>measured := ?s4\<rparr>)) (mm (routers (d\<lparr>measured := ?s4\<rparr>))) (?rt e)"
      using best [OF known] by (simp add: route_free_keeps(1))
  qed (use n st in \<open>simp_all add: steady_def good_conf_def\<close>)
  then obtain w where w: "advertise_round l (d\<lparr>measured := ?s4\<rparr>) = Inr (d\<lparr>measured := ?s4, routers := w\<rparr>)"
    "mm w = mm (routers d)"
    "calls w = calls (routers d) @ concat (map (\<lambda>e. advert_calls ?c ?n (mm (routers d)) (e, ?rt e)) (sm_keys (r ?s)))"
    by (auto simp: sm_keys_eqI [OF keys4(2)])
  have "flags d = no_signals" using st by (simp add: steady_def good_conf_def)
  then have "process_round l i d = Inr (Running (d\<lparr>measured := ?s4, routers := w\<rparr>))"
    by (simp add: process_round_def e(2) clean reread_conf_def no_signals_def w(1))
  then show thesis using that [OF e(1) _ w(2,3)] keys4 best by (simp add: route_free_keeps(1))
qed


section \<open>An example\<close>

definition example_conf :: config where
  "example_conf = initial_config\<lparr>c_localnets := ''10.0.0.0/8''\<rparr>"

definition example_pass_daemon :: "unit daemon" where
  "example_pass_daemon = example_round_daemon\<lparr>conf := example_conf\<rparr>"

lemma example_daemon_simps:
  "probe_no example_pass_daemon = 1" "conf example_pass_daemon = example_conf"
  "measured example_pass_daemon = example_round" "routers example_pass_daemon = example_routers"
  "flags example_pass_daemon = no_signals" "t_ct example_pass_daemon = 2"
  "dsts example_pass_daemon = [pfr_dst_new 0 ''10.0.0.1'' [] []]"
  by (simp_all add: example_pass_daemon_def example_round_daemon_def)

end
