(* ===== verification/Pfr_Loop.thy ===== *)
theory Pfr_Loop
  imports Pfr_Round
begin

text \<open>
  Pass after pass of \<open>main\<close>'s loop: the start leaves a steady state, and passes with good inputs, the
  first and all later ones, keep it (\<open>Pfr_Round\<close> describes a single pass after the first).
\<close>


section \<open>What gobgp was told last\<close>

text \<open>What a sequence of calls says last about a destination.\<close>

lemma last_call_append:
  "last_call e (cs @ cs') = (case last_call e cs' of None \<Rightarrow> last_call e cs | Some x \<Rightarrow> Some x)"
  by (simp add: last_call_def find_append split: option.split)

lemma last_call_concat:
  assumes "\<And>k. k \<noteq> e \<Longrightarrow> last_call e (f k) = None"
  shows "last_call e (cs @ concat (map f ks))
    = (if e \<in> set ks then case last_call e (f e) of None \<Rightarrow> last_call e cs | Some x \<Rightarrow> Some x else last_call e cs)"
proof (induction ks arbitrary: cs)
  case (Cons k ks)
  have "last_call e (cs @ concat (map f (k # ks))) = last_call e ((cs @ f k) @ concat (map f ks))" by simp
  then show ?case
    unfolding Cons.IH using assms [of k]
    by (cases "k = e") (simp_all add: last_call_append del: concat.simps map_append split: option.split)
qed simp

lemma last_advert:
  assumes "c_enable_gobgp_grpc c"
  shows "last_call e (advert_calls c n m (e', rt))
    = (if e' \<noteq> e \<or> \<not> c_enable_advertise_same c \<and> prev_peer rt = curr_peer rt \<and> n > 1 then None
       else Some (AddPath (grpc_path e (sm_at pfr_peer_default m (curr_peer rt)))))"
  using assms
  by (simp add: advert_calls_def last_call_def add_call_def del_call_def call_prefix_def grpc_path_def mk_path_def)

lemma last_told:
  assumes "c_enable_gobgp_grpc c" and "e \<in> set ks" and rt: "rt e = chosen c prev b"
    and "snd b \<noteq> 0" and "prev \<noteq> Some None"
    and before: "\<And>p. n > 1 \<Longrightarrow> prev = Some (Some p)
      \<Longrightarrow> last_call e cs = Some (AddPath (grpc_path e (sm_at pfr_peer_default m (curr_peer p))))"
  shows "last_call e (cs @ concat (map (\<lambda>e. advert_calls c n m (e, rt e)) ks))
    = Some (AddPath (grpc_path e (sm_at pfr_peer_default m (curr_peer (rt e)))))"
proof -
  let ?skip = "\<not> c_enable_advertise_same c \<and> prev_peer (rt e) = curr_peer (rt e) \<and> n > 1"
  have last: "last_call e (cs @ concat (map (\<lambda>e. advert_calls c n m (e, rt e)) ks))
    = (if ?skip then last_call e cs
       else Some (AddPath (grpc_path e (sm_at pfr_peer_default m (curr_peer (rt e))))))"
    using assms(1,2) by (subst last_call_concat) (simp_all add: last_advert)
  show ?thesis
  proof (cases ?skip)
    case True
    then obtain p where "prev = Some (Some p)" "curr_peer p = curr_peer (rt e)"
      using assms(4,5) by (cases b) (auto simp: rt chosen_def rt_parm_new_def split: option.splits if_splits)
    then show ?thesis unfolding last if_P [OF True] using before True by simp
  next
    case False
    show ?thesis unfolding last if_not_P [OF False] ..
  qed
qed

section \<open>A pass after the first\<close>

lemma measurable_peer:
  "measurable n s \<Longrightarrow> sm_find (peers_of (r s) e n) k \<noteq> None \<Longrightarrow> sm_find (r s) e \<noteq> None \<Longrightarrow> k \<noteq> 0"
  unfolding measurable_def by blast

text \<open>The next pass starts in a steady state again.\<close>

text \<open>What gobgp was told last, after the calls of a round.\<close>

lemma told_after:
  assumes n: "0 < probe_no d" and st: "steady l d" and grpc: "c_enable_gobgp_grpc (conf d)"
    and me: "measurable (probe_no d) (measured d)" and k: "sm_find (r (measured d)) e \<noteq> None"
    and peer: "sm_find (peers_of (r (measured d)) e (probe_no d)) (snd (best e)) \<noteq> None"
    and m: "mm w = mm (routers d)"
    and calls: "calls w = calls (routers d) @ concat (map (\<lambda>e. advert_calls (conf d) (probe_no d) (mm (routers d))
        (e, chosen (conf d) (route_at (route (measured d)) e (probe_no d - 1)) (best e))) (sm_keys (r (measured d))))"
  shows "last_call e (calls w) = Some (AddPath (grpc_path e (peer_at (curr_peer
    (chosen (conf d) (route_at (route (measured d)) e (probe_no d - 1)) (best e))) w)))"
proof -
  let ?n = "probe_no d" and ?prev = "\<lambda>e. route_at (route (measured d)) e (probe_no d - 1)"
  have "last_call e (calls w) = Some (AddPath (grpc_path e (sm_at pfr_peer_default (mm (routers d))
      (curr_peer (chosen (conf d) (?prev e) (best e))))))"
    unfolding calls
  proof (rule last_told [OF grpc])
    show "snd (best e) \<noteq> 0" using measurable_peer [of ?n "measured d" e] me peer k by blast
    show "?prev e \<noteq> Some None" using st unfolding steady_def good_conf_def by blast
    show "last_call e (calls (routers d)) = Some (AddPath (grpc_path e (sm_at pfr_peer_default (mm (routers d)) (curr_peer p))))"
      if "?n > 1" "?prev e = Some (Some p)" for p
      using st grpc that by (simp add: steady_def good_conf_def told_def peer_at_def)
  qed (use k in \<open>simp_all add: sm_in_keys\<close>)
  then show ?thesis by (simp add: peer_at_def m)
qed

lemma process_steady:
  assumes n: "0 < probe_no d" and st: "steady l d" and an: "answered_pass l i d"
  shows "\<exists>d'. process_round l i d = Inr (Running d') \<and> steady l (d'\<lparr>probe_no := probe_no d' + 1\<rparr>)
    \<and> probe_no d' = probe_no d \<and> conf d' = conf d
    \<and> (\<forall>e. sm_find (r (measured d')) e \<noteq> None \<longrightarrow> route_at (route (measured d')) e (probe_no d) \<noteq> None)"
proof -
  let ?n = "probe_no d" and ?s = "measured d" and ?c = "conf d"
  let ?prev = "\<lambda>e. route_at (route ?s) e (?n - 1)"
  obtain s2 s4 w best where "measured_round (c_pfr_ping_req ?c) ?n ?s s2"
    and p: "process_round l i d = Inr (Running (d\<lparr>measured := s4, routers := w\<rparr>))"
    "mm w = mm (routers d)"
    and calls: "calls w = calls (routers d) @ concat (map (\<lambda>e. advert_calls ?c ?n (mm (routers d))
        (e, chosen ?c (?prev e) (best e))) (sm_keys (r ?s)))"
    and keys': "\<forall>e. sm_find (r s4) e \<noteq> None \<longleftrightarrow> sm_find (r ?s) e \<noteq> None"
    "\<forall>e. sm_find (route s4) e \<noteq> None \<longleftrightarrow> sm_find (r ?s) e \<noteq> None"
    and best': "\<forall>e. sm_find (r ?s) e \<noteq> None \<longrightarrow>
      is_best (Fin 50000) (peer_values ''metric0'' (peers_of (r s2) e ?n)) (best e)
      \<and> sm_find (peers_of (r ?s) e ?n) (snd (best e)) \<noteq> None
      \<and> route_at (route s4) e ?n = Some (Some (chosen ?c (?prev e) (best e)))"
    by (rule process_answered [OF n st an]) (rule that; assumption)
  note keys = keys' [rule_format] and best = best' [rule_format]
  let ?d' = "d\<lparr>measured := s4, routers := w, probe_no := ?n + 1\<rparr>"
  have known: "sm_find (r ?s) e \<noteq> None" if "route_at (route s4) e ?n = Some x" for e x
    using route_at_known [OF that] keys(2) by blast
  have ready: "peer_ready (l_popen l) ?c (mm (routers d)) (curr_peer (chosen ?c (?prev e) (best e)))"
    if "sm_find (r ?s) e \<noteq> None" for e
    using best [OF that] chosen_ready [OF st an] unfolding route_ready_def by blast
  have me: "measurable ?n ?s" using an by (simp add: answered_pass_def)
  have "last_call e (calls w) = Some (AddPath (grpc_path e (peer_at (curr_peer rt) w)))"
    if "c_enable_gobgp_grpc ?c" "route_at (route s4) e ?n = Some (Some rt)" for e rt
    using told_after [OF n st that(1) me known [OF that(2)] _ p(2) calls] best [OF known [OF that(2)]] that(2) by simp
  then have "told ?d'" if "c_enable_gobgp_grpc ?c" using that by (simp add: told_def)
  moreover have "\<exists>p. x = Some p \<and> peer_ready (l_popen l) ?c (mm (routers d)) (curr_peer p)"
    if "route_at (route s4) e ?n = Some x" for e x
    using best [OF known [OF that]] ready [OF known [OF that]] that by auto
  moreover have "sm_find (r s4) e \<noteq> None" if "sm_find (route s4) e \<noteq> None" for e
    using that keys by blast
  ultimately have "steady l ?d'"
    using n st by (simp add: steady_def good_conf_def p(2))
  moreover have "route_at (route s4) e ?n \<noteq> None" if "sm_find (r s4) e \<noteq> None" for e
    using best [of e] keys(1) [of e] that by simp
  ultimately show ?thesis using p(1) by (intro exI [of _ "d\<lparr>measured := s4, routers := w\<rparr>"]) simp
qed


section \<open>The first pass\<close>

text \<open>
  In round 0 the scan takes the first peer that answered, whatever its value, and nothing is
  advertised: \<open>pfr_create_set_jrouter_rt\<close> returns at once.
\<close>

lemma first_scan_dst:
  assumes "summarised (peers_of (r s) e 0)" and "peers_of (r s) e 0 \<noteq> sm_empty"
  shows "\<exists>k m' x rs n. scan_dst c 0 e (s, m) = Inr (s\<lparr>r := set_peers e 0 x (r s),
      route := set_route e 0 (Some (rt_parm_new 0 m' k m')) (route s), scan_new_cnt := n, route_log1 := rs\<rparr>, Fin 50000)
    \<and> sm_find (peers_of (r s) e 0) k \<noteq> None"
proof -
  obtain k seqs es where es: "entries (peers_of (r s) e 0) = (k, seqs) # es"
    using assms(2) by (cases "entries (peers_of (r s) e 0)") (auto simp: entries_Nil_iff)
  then have f: "sm_find (peers_of (r s) e 0) k = Some seqs" by (simp flip: entries_iff_find)
  obtain tp where tp: "sm_find seqs 99 = Some (Some tp)" "tp_metric1 tp \<noteq> None"
    using assms(1) es unfolding summarised_def by auto
  have "\<exists>v. read_metric (c_path_metric c) m seqs = Inr v"
    using tp(2) by (auto simp: read_metric_def metric_of_def sm_find_Some_at [OF tp(1)])
  then obtain v where v: "read_metric (c_path_metric c) m seqs = Inr v" by blast
  have "\<exists>z. scan_result (c_path_metric c) (peers_of (r s) e 0) (v, k) = Inr z"
    using tp by (auto simp: scan_result_def metric_of_def sm_find_Some_at [OF f] sm_find_Some_at [OF tp(1)] res_map_def)
  then obtain z where "scan_result (c_path_metric c) (peers_of (r s) e 0) (v, k) = Inr z" by blast
  then have "scan_dst c 0 e (s, m) = Inr (s\<lparr>r := set_peers e 0 (touch99 0 (peers_of (r s) e 0)) (r s),
      route := set_route e 0 (Some (rt_parm_new 0 v k v)) (route s), scan_new_cnt := scan_new_cnt s + 1,
      route_log1 := set_log e 0 (tlog_of z) (route_log1 s)\<rparr>, Fin 50000)"
    using es v by (simp add: scan_dst_def Let_def scan_select_def)
  then show ?thesis using f by blast
qed

lemma first_scan:
  assumes "distinct es" and "\<forall>e \<in> set es. summarised (peers_of (r s) e 0) \<and> peers_of (r s) e 0 \<noteq> sm_empty"
    and "es = [] \<Longrightarrow> m = Fin 50000"
  shows "\<exists>s'. fold_res (scan_dst c 0) es (s, m) = Inr (s', Fin 50000)
    \<and> (\<forall>e. sm_find (r s') e \<noteq> None \<longleftrightarrow> e \<in> set es \<or> sm_find (r s) e \<noteq> None)
    \<and> (\<forall>e. sm_find (route s') e \<noteq> None \<longleftrightarrow> e \<in> set es \<or> sm_find (route s) e \<noteq> None)
    \<and> (\<forall>e. e \<notin> set es \<longrightarrow> route_at (route s') e 0 = route_at (route s) e 0)
    \<and> (\<forall>e \<in> set es. \<exists>rt. route_at (route s') e 0 = Some (Some rt)
         \<and> sm_find (peers_of (r s) e 0) (curr_peer rt) \<noteq> None)"
  using assms
proof (induction es arbitrary: s m)
  case (Cons d es)
  obtain k m' x rs n where one: "scan_dst c 0 d (s, m) = Inr (s\<lparr>r := set_peers d 0 x (r s),
      route := set_route d 0 (Some (rt_parm_new 0 m' k m')) (route s), scan_new_cnt := n, route_log1 := rs\<rparr>, Fin 50000)"
    and k: "sm_find (peers_of (r s) d 0) k \<noteq> None"
    using first_scan_dst [of s d c m] Cons.prems(2) by auto
  let ?s1 = "s\<lparr>r := set_peers d 0 x (r s),
      route := set_route d 0 (Some (rt_parm_new 0 m' k m')) (route s), scan_new_cnt := n, route_log1 := rs\<rparr>"
  have same: "peers_of (r ?s1) e 0 = peers_of (r s) e 0" if "e \<in> set es" for e
    using that Cons.prems(1) by auto
  obtain s' where s': "fold_res (scan_dst c 0) es (?s1, Fin 50000) = Inr (s', Fin 50000)"
    "\<forall>e. sm_find (r s') e \<noteq> None \<longleftrightarrow> e \<in> set es \<or> sm_find (r ?s1) e \<noteq> None"
    "\<forall>e. sm_find (route s') e \<noteq> None \<longleftrightarrow> e \<in> set es \<or> sm_find (route ?s1) e \<noteq> None"
    "\<forall>e. e \<notin> set es \<longrightarrow> route_at (route s') e 0 = route_at (route ?s1) e 0"
    "\<forall>e \<in> set es. \<exists>rt. route_at (route s') e 0 = Some (Some rt) \<and> sm_find (peers_of (r ?s1) e 0) (curr_peer rt) \<noteq> None"
    using Cons.IH [of ?s1 "Fin 50000"] Cons.prems same by auto
  have new: "sm_find (r ?s1) e \<noteq> None \<longleftrightarrow> e = d \<or> sm_find (r s) e \<noteq> None"
    "sm_find (route ?s1) e \<noteq> None \<longleftrightarrow> e = d \<or> sm_find (route s) e \<noteq> None"
    "route_at (route ?s1) e 0 = (if e = d then Some (Some (rt_parm_new 0 m' k m')) else route_at (route s) e 0)" for e
    by (auto simp: set_peers_def route_at_set_route) (auto simp: set_route_def split: if_splits)
  show ?case
  proof (intro exI [of _ s'] conjI)
    show "fold_res (scan_dst c 0) (d # es) (s, m) = Inr (s', Fin 50000)" using one s'(1) by simp
  qed (use s'(2-5) new same k Cons.prems(1) in \<open>auto simp: rt_parm_new_def simp del: not_None_eq\<close>)
qed simp

lemma routes_man_first:
  assumes "\<forall>e \<in> set es. \<exists>rt. sm_at None (sm_at sm_empty m e) 0 = Some rt"
  shows "fold_res (routes_man_step popen c 0) es (m, w) = Inr (m, w)"
  using assms by (induction es) (auto simp: routes_man_step_def pfr_create_set_jrouter_rt_def)

text \<open>The evaluation of the first round: every destination gets a route over one of its peers.\<close>

lemma evaluate_first:
  assumes z: "probe_no d = 0" and st: "steady l d" and an: "answered_pass l i d"
  obtains s3 where "evaluate_round l i d = Inr (d\<lparr>measured := s3\<rparr>)"
    and "\<forall>e. sm_find (route s3) e \<noteq> None \<longleftrightarrow> sm_find (r (measured d)) e \<noteq> None"
    and "\<forall>e. sm_find (r s3) e \<noteq> None \<longleftrightarrow> sm_find (r (measured d)) e \<noteq> None"
    and "\<forall>e. sm_find (r (measured d)) e \<noteq> None \<longrightarrow> (\<exists>rt. route_at (route s3) e 0 = Some (Some rt)
      \<and> peer_ready (l_popen l) (conf d) (mm (routers d)) (curr_peer rt))"
proof -
  let ?s = "measured d" and ?c = "conf d"
  have ra: "round_answered (i_perf i) 0 ?s" and me: "measurable 0 ?s"
    and listed: "\<forall>e. sm_find (r ?s) e \<noteq> None \<longrightarrow> e \<in> set (map d_ipv4 (dsts d))"
    and ready: "\<And>e k. sm_find (peers_of (r ?s) e 0) k \<noteq> None \<Longrightarrow> peer_ready (l_popen l) ?c (mm (routers d)) k"
    using an z unfolding answered_pass_def by auto
  obtain s1 s2 where p: "pfr_calc_avg_rtt ?c (i_perf i) 0 ?s = Inr s1" "pfr_calc_stddev_rtt 0 s1 = Inr s2"
    "measured_round (c_pfr_ping_req ?c) 0 ?s s2"
    using measure_passes [OF ra] by blast
  have same: "route s2 = route ?s" "sm_find (r s2) e \<noteq> None \<longleftrightarrow> sm_find (r ?s) e \<noteq> None" for e
    using p(3) unfolding measured_round_def by blast+
  have min: "c_min_rtt ?c = Fin 50000" using st by (simp add: steady_def good_conf_def)
  have known: "e \<in> set (sm_keys (r s2)) \<longleftrightarrow> sm_find (r ?s) e \<noteq> None" for e
    unfolding sm_in_keys same(2) ..
  have sums: "\<forall>e \<in> set (sm_keys (r s2)). summarised (peers_of (r s2) e 0) \<and> peers_of (r s2) e 0 \<noteq> sm_empty"
    using measured_summarised [OF p(3)] measured_values(2) [OF me p(3)] known by blast
  obtain s3 where scan: "pfr_route_scan ?c 0 (s2, Fin 50000) = Inr (s3, Fin 50000)"
    and r3: "\<forall>e. sm_find (r s3) e \<noteq> None \<longleftrightarrow> e \<in> set (sm_keys (r s2)) \<or> sm_find (r s2) e \<noteq> None"
    and rt3: "\<forall>e. sm_find (route s3) e \<noteq> None \<longleftrightarrow> e \<in> set (sm_keys (r s2)) \<or> sm_find (route s2) e \<noteq> None"
    and own: "\<forall>e \<in> set (sm_keys (r s2)). \<exists>rt. route_at (route s3) e 0 = Some (Some rt)
      \<and> sm_find (peers_of (r s2) e 0) (curr_peer rt) \<noteq> None"
    using first_scan [OF smap.distinct_keys sums, of "Fin 50000" ?c] unfolding pfr_route_scan_def case_prod_conv
    by blast
  have "\<forall>e. sm_find (route s3) e \<noteq> None \<longleftrightarrow> sm_find (r ?s) e \<noteq> None"
    "\<forall>e. sm_find (r s3) e \<noteq> None \<longleftrightarrow> sm_find (r ?s) e \<noteq> None"
    using r3 rt3 known same st unfolding steady_def good_conf_def by metis+
  moreover have "\<forall>e. sm_find (r ?s) e \<noteq> None \<longrightarrow> (\<exists>rt. route_at (route s3) e 0 = Some (Some rt)
      \<and> peer_ready (l_popen l) ?c (mm (routers d)) (curr_peer rt))"
    using own known ready measured_values(3) [OF me p(3)] by meson
  moreover have "pfr_route_update (l_popen l) ?c 0 (map d_ipv4 (dsts d)) (?s, routers d) = Inr (?s, routers d)"
    by (rule route_update_listed) (use listed in blast)
  then have "evaluate_round l i d = Inr (d\<lparr>measured := s3\<rparr>)"
    using min by (simp add: evaluate_round_def z p(1,2) scan)
  ultimately show thesis using that by blast
qed

lemma process_first:
  assumes z: "probe_no d = 0" and st: "steady l d" and an: "answered_pass l i d"
  shows "\<exists>d'. process_round l i d = Inr (Running d') \<and> steady l (d'\<lparr>probe_no := probe_no d' + 1\<rparr>)
    \<and> probe_no d' = probe_no d \<and> conf d' = conf d
    \<and> (\<forall>e. sm_find (r (measured d')) e \<noteq> None \<longrightarrow> route_at (route (measured d')) e (probe_no d) \<noteq> None)"
proof -
  let ?s = "measured d" and ?c = "conf d"
  obtain s3 where ev: "evaluate_round l i d = Inr (d\<lparr>measured := s3\<rparr>)"
    and route3: "\<forall>e. sm_find (route s3) e \<noteq> None \<longleftrightarrow> sm_find (r ?s) e \<noteq> None"
    and known3: "\<forall>e. sm_find (r s3) e \<noteq> None \<longleftrightarrow> sm_find (r ?s) e \<noteq> None"
    and rt3: "\<forall>e. sm_find (r ?s) e \<noteq> None \<longrightarrow> (\<exists>rt. route_at (route s3) e 0 = Some (Some rt)
      \<and> peer_ready (l_popen l) ?c (mm (routers d)) (curr_peer rt))"
    by (rule evaluate_first [OF assms])
  note rt = rt3 [rule_format]
  have clean: "clean_round l (d\<lparr>measured := s3\<rparr>) = Inr (d\<lparr>measured := s3\<rparr>)"
    using st by (simp add: clean_round_def z pfr_route_free_def pfr_delete_def steady_def good_conf_def)
  have "\<exists>rt. sm_at None (sm_at sm_empty (route s3) e) 0 = Some rt" if "e \<in> set (sm_keys (route s3))" for e
    using rt [of e] route3 that by (auto simp: sm_in_keys route_at_def sm_find_Some_at)
  then have "\<forall>e \<in> set (sm_keys (route s3)). \<exists>rt. sm_at None (sm_at sm_empty (route s3) e) 0 = Some rt" by blast
  from routes_man_first [OF this, of "l_popen l" ?c "routers d"]
  have adv: "advertise_round l (d\<lparr>measured := s3\<rparr>) = Inr (d\<lparr>measured := s3\<rparr>)"
    by (simp add: advertise_round_def pfr_routes_man_def z)
  have "process_round l i d = Inr (Running (d\<lparr>measured := s3\<rparr>))"
    using st by (simp add: process_round_def ev clean adv reread_conf_def steady_def good_conf_def no_signals_def)
  moreover have "steady l (d\<lparr>measured := s3, probe_no := 1\<rparr>)"
  proof -
    have "\<exists>q. x = Some q \<and> peer_ready (l_popen l) ?c (mm (routers d)) (curr_peer q)"
      if "route_at (route s3) e 0 = Some x" for e x
      using rt [of e] route3 route_at_known [OF that] that by auto
    moreover have "sm_find (r s3) e \<noteq> None" if "sm_find (route s3) e \<noteq> None" for e
      using that route3 known3 by blast
    ultimately show ?thesis using st by (simp add: steady_def good_conf_def)
  qed
  moreover have "route_at (route s3) e 0 \<noteq> None" if "sm_find (r s3) e \<noteq> None" for e
    using rt [of e] that known3 by auto
  ultimately show ?thesis by (intro exI [of _ "d\<lparr>measured := s3\<rparr>"]) (simp add: z)
qed

section \<open>Pass after pass\<close>

text \<open>An input that lets a pass go well: no signal, an acknowledgement, and answers as above.\<close>

definition good_input :: "lib \<Rightarrow> round_input \<Rightarrow> 's daemon \<Rightarrow> bool" where
  "good_input l i d \<longleftrightarrow> i_ack i \<and> i_signals i = []
     \<and> (\<exists>d1 s. refresh_dsts l i d = Inr d1 \<and> receive l (i_packets i) (measured d1) = Inr s
          \<and> answered_pass l i (d1\<lparr>measured := s\<rparr>))"

lemma steady_received:
  assumes "steady l d" and "samples_grow (measured d) s"
  shows "steady l (d\<lparr>dsts := ds, measured := s\<rparr>)"
proof -
  have "route s = route (measured d)" "\<And>e. sm_find (r (measured d)) e \<noteq> None \<Longrightarrow> sm_find (r s) e \<noteq> None"
    using assms(2) unfolding samples_grow_def by blast+
  then show ?thesis using assms(1) by (simp add: steady_def good_conf_def told_def)
qed

lemma process_any:
  assumes "steady l d" and "answered_pass l i d"
  shows "\<exists>d'. process_round l i d = Inr (Running d') \<and> steady l (d'\<lparr>probe_no := probe_no d' + 1\<rparr>)
    \<and> probe_no d' = probe_no d \<and> conf d' = conf d
    \<and> (\<forall>e. sm_find (r (measured d')) e \<noteq> None \<longrightarrow> route_at (route (measured d')) e (probe_no d) \<noteq> None)"
proof (cases "probe_no d = 0")
  case True
  then show ?thesis using process_first assms by blast
next
  case False
  then have "0 < probe_no d" using assms(1) by (simp add: steady_def good_conf_def)
  then show ?thesis using process_steady assms by blast
qed

lemma pass_steady:
  assumes st: "steady l d" and good: "good_input l i d"
  shows "\<exists>d'. daemon_round l i d = Inr (Running d') \<and> steady l d' \<and> probe_no d' = probe_no d + 1
    \<and> (\<forall>e. sm_find (r (measured d')) e \<noteq> None \<longrightarrow> route_at (route (measured d')) e (probe_no d' - 1) \<noteq> None)"
proof -
  obtain d1 s where d1: "refresh_dsts l i d = Inr d1" "receive l (i_packets i) (measured d1) = Inr s"
    and an: "answered_pass l i (d1\<lparr>measured := s\<rparr>)" and ack: "i_ack i" "i_signals i = []"
    using good unfolding good_input_def by blast
  have "\<exists>ds. d1 = d\<lparr>dsts := ds\<rparr>"
  proof (cases "0 < probe_no d")
    case True
    then show ?thesis using d1(1) by (auto simp: refresh_dsts_def res_map_Inr_iff elim!: res_bind_InrE)
  next
    case False
    then have "d1 = d\<lparr>dsts := dsts d\<rparr>" using d1(1) by (simp add: refresh_dsts_def)
    then show ?thesis by blast
  qed
  then obtain ds where ds: "d1 = d\<lparr>dsts := ds\<rparr>" by blast
  have "samples_grow (measured d) s" using receive_total [of l "i_packets i" "measured d1"] d1(2) ds by auto
  from steady_received [OF st this] have st2: "steady l (d1\<lparr>measured := s\<rparr>)" by (simp add: ds)
  obtain d' where d': "process_round l i (d1\<lparr>measured := s\<rparr>) = Inr (Running d')"
    "steady l (d'\<lparr>probe_no := probe_no d' + 1\<rparr>)" "probe_no d' = probe_no d"
    "\<forall>e. sm_find (r (measured d')) e \<noteq> None \<longrightarrow> route_at (route (measured d')) e (probe_no d) \<noteq> None"
    using process_any [OF st2 an] by (auto simp: ds)
  have "start_senders d1 = Inr (sm_keys (mm (routers d1)))"
    using st2 by (simp add: start_senders_def steady_def good_conf_def)
  moreover have "flags d1 = no_signals" using st2 by (simp add: steady_def good_conf_def)
  ultimately have "daemon_round l i d = Inr (Running (d'\<lparr>probe_no := probe_no d' + 1\<rparr>))"
    using d'(1) by (simp add: daemon_round_def d1 ack Let_def)
  then show ?thesis using d'(2-4) by (intro exI [of _ "d'\<lparr>probe_no := probe_no d' + 1\<rparr>"]) simp
qed

text \<open>
  The daemon keeps running and gobgp keeps up with it: from a steady state, through any number of
  passes with good inputs, the loop neither ends nor fails, each pass raises \<open>probe_id\<close> by one and
  leaves a steady state; and after the last one every destination has a route of that round, over a
  peer of the table, and over gRPC (from the second pass on) the last request made for the destination
  is the announcement of exactly this route.
\<close>

lemma loop_steady:
  assumes "steady l d"
    and "\<And>n d'. n < length inputs \<Longrightarrow> daemon_loop l (take n inputs) d = Inr (Running d')
      \<Longrightarrow> good_input l (inputs ! n) d'"
  shows "\<exists>d'. daemon_loop l inputs d = Inr (Running d') \<and> steady l d'
    \<and> probe_no d' = probe_no d + int (length inputs)
    \<and> (\<forall>e. inputs \<noteq> [] \<and> sm_find (r (measured d')) e \<noteq> None \<longrightarrow>
        (\<exists>rt. route_at (route (measured d')) e (probe_no d' - 1) = Some (Some rt)
          \<and> peer_ready (l_popen l) (conf d') (mm (routers d')) (curr_peer rt)
          \<and> (c_enable_gobgp_grpc (conf d') \<and> 1 < probe_no d' \<longrightarrow> last_call e (calls (routers d'))
              = Some (AddPath (grpc_path e (peer_at (curr_peer rt) (routers d')))))))"
proof -
  have "\<exists>d'. daemon_loop l inputs d = Inr (Running d') \<and> steady l d'
    \<and> probe_no d' = probe_no d + int (length inputs)
    \<and> (\<forall>e. inputs \<noteq> [] \<and> sm_find (r (measured d')) e \<noteq> None \<longrightarrow> route_at (route (measured d')) e (probe_no d' - 1) \<noteq> None)"
    using assms
  proof (induction inputs arbitrary: d)
    case (Cons i inputs)
    have "good_input l i d" using Cons.prems(2) [of 0 d] by simp
    from pass_steady [OF Cons.prems(1) this] obtain d1
      where d1: "daemon_round l i d = Inr (Running d1)" "steady l d1" "probe_no d1 = probe_no d + 1"
      "\<forall>e. sm_find (r (measured d1)) e \<noteq> None \<longrightarrow> route_at (route (measured d1)) e (probe_no d1 - 1) \<noteq> None"
      by blast
    have "good_input l (inputs ! n) d'"
      if "n < length inputs" "daemon_loop l (take n inputs) d1 = Inr (Running d')" for n d'
      using Cons.prems(2) [of "Suc n" d'] that d1(1) by simp
    from Cons.IH [OF d1(2) this] show ?case using d1 by (cases inputs) auto
  qed simp
  then obtain d' where d': "daemon_loop l inputs d = Inr (Running d')" "steady l d'"
    "probe_no d' = probe_no d + int (length inputs)"
    "\<forall>e. inputs \<noteq> [] \<and> sm_find (r (measured d')) e \<noteq> None \<longrightarrow> route_at (route (measured d')) e (probe_no d' - 1) \<noteq> None"
    by blast
  have "\<exists>p. x = Some p \<and> peer_ready (l_popen l) (conf d') (mm (routers d')) (curr_peer p)"
    if "route_at (route (measured d')) e (probe_no d' - 1) = Some x" for e x
    using d'(2) that unfolding steady_def good_conf_def by blast
  moreover have "1 < probe_no d' \<Longrightarrow> c_enable_gobgp_grpc (conf d') \<Longrightarrow> told d'"
    using d'(2) unfolding steady_def good_conf_def by blast
  ultimately show ?thesis
    using d' unfolding told_def by (metis option.exhaust)
qed


section \<open>The start\<close>

lemma start_facts:
  fixes connect :: "string \<Rightarrow> 's pfr_asbr_parm"
  assumes "daemon_start l connect rows i writable alive getpid fs db_up = Inr (d, fs', ts)"
  shows "(\<forall>k p. sm_find (mm (routers d)) k = Some p \<longrightarrow> pp_id p = Some k)
    \<and> t_ct d = size (mm (routers d))
    \<and> (size (mm (routers d)) \<le> 999 \<longrightarrow> start_senders d = Inr (sm_keys (mm (routers d))))
    \<and> (size (mm (routers d)) \<le> 999 \<and> good_conf (conf d) \<longrightarrow> steady l d)
    \<and> set (map fst ts) = peer_router_ip (conf d) ` {p. \<exists>k. sm_find (mm (routers d)) k = Some p}
    \<and> fs' (c_pid_path (conf d)) = Some (to_string getpid @ [CHR 0x0A])"
proof -
  obtain pp m where pm: "pfr_peers rows sm_empty = Inr (pp, m)" using assms by (auto simp: daemon_start_def elim!: res_bind_InrE)
  note ids = pfr_peers_ids [OF pm]
  obtain ok cm c where load: "load_configuration_file (l_split l) (i_file i) (sm_empty, initial_config) = (ok, cm, c)"
    by (metis prod.exhaust)
  let ?ap = "pfr_asbr_peers c pp sm_empty"
  obtain a a' :: "'s pfr_asbrs" where d:
    "claim_pid writable alive getpid (c_pid_path c) fs = Inr fs'"
    "start_telemetry c ?ap a = Inr (ts, a')" "conf d = c" "mm (routers d) = m" "t_ct d = size pp"
    "probe_no d = 0" "flags d = no_signals" "measured d = initial_rdata"
    using assms by (auto simp: daemon_start_def pm load res_map_Inr_iff elim!: res_bind_InrE split: if_splits)
  have fs': "fs' (c_pid_path c) = Some (to_string getpid @ [CHR 0x0A])"
    using d(1) by (auto simp: claim_pid_def print_pid_to_file_def Let_def split: prod.splits if_splits)
  have g: "groups_of pp ?ap" "{pe. sm_find ?ap pe \<noteq> None} = peer_router_ip c ` {p. \<exists>k. sm_find pp k = Some p}"
    by (rule asbr_peers_groups [OF refl])+
  have "set (map fst ts) = {pe. sm_find ?ap pe \<noteq> None}"
    using router_threads_all [OF g(1) ids(2), of c a] d(2) by (auto simp: start_telemetry_def split: if_splits)
  then have "set (map fst ts) = peer_router_ip c ` {p. \<exists>k. sm_find pp k = Some p}" using g(2) by simp
  moreover have "good_conf (conf d) \<Longrightarrow> size (mm (routers d)) \<le> 999 \<Longrightarrow> steady l d"
    using d ids(1) by (simp add: steady_def initial_rdata_def route_at_def)
  ultimately show ?thesis using ids d fs' by (auto simp: start_senders_def)
qed

lemma returned_pair:
  assumes "case x of Inl _ \<Rightarrow> False | Inr _ \<Rightarrow> True"
  obtains y z where "x = Inr (y, z)"
  using assms by (cases x) auto

text \<open>A start that succeeds, whatever its list of destinations.\<close>

lemma start_example:
  assumes ds: "pfr_dst_list_first \<lparr>e_split = split_runs, e_aton = aton_dotted, e_localnets = ''10.0.0.0/8'',
      e_rows = i_dst_rows i, e_cust = pfr_customer_default\<rparr> (i_shm i) = Inr (ds, sh)"
    and in_: "i_prefix_rows i = i_prefix_rows start_input" "i_file i = i_file start_input"
  obtains d fs' ts pp m cm c where
    "daemon_start start_lib (\<lambda>_. pfr_asbr_parm_default :: unit pfr_asbr_parm) [start_row] i
      (\<lambda>_. True) (\<lambda>_. False) 4711 (\<lambda>_. None) True = Inr (d, fs', ts)"
    "pfr_peers [start_row] sm_empty = Inr (pp, m)"
    "load_configuration_file split_runs (i_file start_input) (sm_empty, initial_config) = (True, cm, c)"
    "conf d = c" "mm (routers d) = m" "dsts d = ds"
proof -
  have "case pfr_peers [start_row] sm_empty of Inr (pp, m) \<Rightarrow> size pp = 1 | Inl _ \<Rightarrow> False" by code_simp
  then obtain pp m where pm: "pfr_peers [start_row] sm_empty = Inr (pp, m)" "size pp = 1" by (auto split: sum.splits)
  note ids = pfr_peers_ids [OF pm(1)]
  have "case load_configuration_file split_runs (i_file start_input) (sm_empty, initial_config) of
      (ok, cm, c) \<Rightarrow> ok \<and> c_localnets c = ''10.0.0.0/8''" by code_simp
  then obtain cm c where load: "load_configuration_file split_runs (i_file start_input) (sm_empty, initial_config) = (True, cm, c)"
    "c_localnets c = ''10.0.0.0/8''" by (auto split: prod.splits)
  have cust: "pfr_customer_new aton_dotted (i_prefix_rows start_input) (c_customer_id c) = Inr pfr_customer_default"
    by (simp add: in_ start_input_def pfr_customer_new_def pfr_customer_default_def)
  have log: "\<exists>x. pfr_sql_log_new True (c_enable_sql_log c) = Inr x" by (simp add: pfr_sql_log_new_def)
  obtain a where a: "pfr_asbrs_new c (\<lambda>_. pfr_asbr_parm_default :: unit pfr_asbr_parm) m = Inr a"
    using pfr_asbrs_new_some [of m] ids by blast
  let ?ap = "pfr_asbr_peers c pp sm_empty"
  have "size ?ap \<le> 999"
  proof -
    have k: "{pe. sm_find ?ap pe \<noteq> None} = peer_router_ip c ` {p. \<exists>k. sm_find pp k = Some p}"
      by (rule asbr_peers_groups(2) [OF refl])
    have "{p. \<exists>k. sm_find pp k = Some p} = snd ` set (entries pp)"
      by (auto simp: entries_iff_find image_iff Bex_def split_paired_Ex)
    moreover have "length (entries pp) = 1" using pm(2) by (simp add: size_std_map_def)
    ultimately have "card (peer_router_ip c ` {p. \<exists>k. sm_find pp k = Some p}) \<le> 1"
      by (metis card_image_le card_length finite_imageI finite_set le_trans length_map set_map)
    then show ?thesis by (simp only: size_eq_card k)
  qed
  moreover obtain ts b where "fold_res (router_threads c) (entries ?ap) ([], a) = Inr (ts, b)"
    using router_threads_all [OF asbr_peers_groups(1) [OF refl]] ids(2) by blast
  ultimately have tel: "start_telemetry c ?ap a = Inr (ts, b)" by (simp add: start_telemetry_def)
  have pid: "claim_pid (\<lambda>_. True) (\<lambda>_. False) 4711 (c_pid_path c) (\<lambda>_. None)
      = Inr ((\<lambda>_. None)(c_pid_path c \<mapsto> to_string 4711 @ [CHR 0x0A]))"
    by (simp add: claim_pid_def file_exists_def print_pid_to_file_def)
  have lib: "l_split start_lib = split_runs" "l_aton start_lib = aton_dotted" by (simp_all add: start_lib_def)
  obtain d fs' where st: "daemon_start start_lib (\<lambda>_. pfr_asbr_parm_default :: unit pfr_asbr_parm) [start_row] i
      (\<lambda>_. True) (\<lambda>_. False) 4711 (\<lambda>_. None) True = Inr (d, fs', ts)" "conf d = c" "mm (routers d) = m" "dsts d = ds"
    using log by (auto simp: daemon_start_def pm(1) load in_ lib cust pid ds a tel)
  show thesis by (rule that [OF st(1) pm(1) load(1) st(2-4)])
qed

text \<open>
  C26. What a successful start leaves behind: every entry of the peer table has its key as id, \<open>thrds\<close> has
  the size of the table, so that up to 999 peers the senders of the first round can be started, and the
  state is steady (with the metric and the settings that asks for); the
  routers with telemetry threads are exactly those of the peers; and the pid file names this process.
\<close>

theorem start_ready:
  fixes connect :: "string \<Rightarrow> 's pfr_asbr_parm"
  assumes "daemon_start l connect rows i writable alive getpid fs db_up = Inr (d, fs', ts)"
  shows "(\<forall>k p. sm_find (mm (routers d)) k = Some p \<longrightarrow> pp_id p = Some k)
    \<and> t_ct d = size (mm (routers d))
    \<and> (size (mm (routers d)) \<le> 999 \<longrightarrow> start_senders d = Inr (sm_keys (mm (routers d))))
    \<and> (size (mm (routers d)) \<le> 999 \<and> good_conf (conf d) \<longrightarrow> steady l d)
    \<and> set (map fst ts) = peer_router_ip (conf d) ` {p. \<exists>k. sm_find (mm (routers d)) k = Some p}
    \<and> fs' (c_pid_path (conf d)) = Some (to_string getpid @ [CHR 0x0A])"
  by (rule start_facts [OF assms])

theorem start_ready_witness:
  "\<exists>d fs' ts. daemon_start start_lib (\<lambda>_. pfr_asbr_parm_default :: unit pfr_asbr_parm) [start_row] start_input
      (\<lambda>_. True) (\<lambda>_. False) 4711 (\<lambda>_. None) True = Inr (d, fs', ts)
    \<and> t_ct d = size (mm (routers d)) \<and> fs' (c_pid_path (conf d)) = Some (to_string 4711 @ [CHR 0x0A])"
proof -
  have "case pfr_dst_list_first \<lparr>e_split = split_runs, e_aton = aton_dotted, e_localnets = ''10.0.0.0/8'',
      e_rows = i_dst_rows start_input, e_cust = pfr_customer_default\<rparr> (i_shm start_input) of Inl _ \<Rightarrow> False | Inr _ \<Rightarrow> True"
    by code_simp
  then obtain ds sh where ds: "pfr_dst_list_first \<lparr>e_split = split_runs, e_aton = aton_dotted, e_localnets = ''10.0.0.0/8'',
      e_rows = i_dst_rows start_input, e_cust = pfr_customer_default\<rparr> (i_shm start_input) = Inr (ds, sh)"
    by (rule returned_pair)
  obtain d fs' ts where
    st: "daemon_start start_lib (\<lambda>_. pfr_asbr_parm_default :: unit pfr_asbr_parm) [start_row] start_input
      (\<lambda>_. True) (\<lambda>_. False) 4711 (\<lambda>_. None) True = Inr (d, fs', ts)" by (rule start_example [OF ds refl refl])
  from start_ready [OF st] show ?thesis using st by blast
qed


section \<open>An example\<close>

lemma refresh_example:
  "refresh_dsts start_lib (start_input\<lparr>i_packets := ps\<rparr>) (example_pass_daemon\<lparr>measured := s\<rparr>)
    = Inr (example_pass_daemon\<lparr>measured := s\<rparr>)"
proof -
  let ?e = "\<lparr>e_split = split_runs, e_aton = aton_dotted, e_localnets = ''10.0.0.0/8'', e_rows = Some [],
      e_cust = pfr_customer_default\<rparr>" and ?ds = "[pfr_dst_new 0 ''10.0.0.1'' [] []]"
  have "case pfr_dst_list_next ?e (i_shm start_input) ?ds of Inr (ds, _) \<Rightarrow> ds = ?ds | Inl _ \<Rightarrow> False"
    by code_simp
  then obtain sh where sh: "pfr_dst_list_next ?e (i_shm start_input) ?ds = Inr (?ds, sh)"
    by (auto split: sum.splits prod.splits)
  have cust: "pfr_customer_new aton_dotted (i_prefix_rows start_input) 7 = Inr pfr_customer_default"
    by (simp add: start_input_def pfr_customer_new_def pfr_customer_default_def)
  have lib: "l_split start_lib = split_runs" "l_aton start_lib = aton_dotted" "i_dst_rows start_input = Some []"
    "c_localnets example_conf = ''10.0.0.0/8''"
    by (simp_all add: start_lib_def start_input_def example_conf_def initial_config_def)
  have "example_pass_daemon\<lparr>measured := s, dsts := ?ds\<rparr> = example_pass_daemon\<lparr>measured := s\<rparr>"
    by (simp add: example_pass_daemon_def example_round_daemon_def)
  then show ?thesis by (simp add: refresh_dsts_def example_daemon_simps lib cust sh)
qed

end
