(* ===== verification/Pfr_Answers.thy ===== *)
theory Pfr_Answers
  imports Pfr_Loop
begin

text \<open>
  A pass of the loop from the bytes that arrive to the requests that gobgp gets: \<open>readloop\<close>'s packets
  are replies to probes, and the round that \<open>main\<close> evaluates is what they make of the globals.  The
  definitions are those of the components; this theory joins their properties.
\<close>


section \<open>Replies\<close>

text \<open>A reply: the address of the host, the probe it answers, and the time of arrival.\<close>

record reply =
  rp_src :: "u8 list"
  rp_probe :: probe
  rp_at :: timeval

definition src_of :: "reply \<Rightarrow> string" where
  "src_of a = inet_ntop4 (rp_src a)"

definition sample_of :: "reply \<Rightarrow> tparm" where
  "sample_of a = tparm_new (rtt_of (tv_sub (rp_at a) (pr_tv (rp_probe a)))) (Fin 0) 0 (uint (pr_time (rp_probe a)))"

definition store_reply :: "reply \<Rightarrow> rdata \<Rightarrow> rdata" where
  "store_reply a = store_sample (src_of a) (pr_probe_id (rp_probe a)) (pr_peer_id (rp_probe a)) (pr_seq (rp_probe a)) (sample_of a)"

text \<open>
  The packet of a reply: an IP header of the host, the probe as \<open>send_v4\<close> wrote it into its buffer with
  the type of a reply, and whatever the receiving buffer held before.
\<close>

definition reply_packet :: "int \<Rightarrow> reply \<Rightarrow> u8 list \<times> int \<times> timeval \<Rightarrow> bool" where
  "reply_packet pid a = (\<lambda>(buf, len, tv). \<exists>heap max_load sendbuf sb h pkt old.
     fill_sendbuf heap max_load (rp_probe a) sendbuf = Inr sb \<and> has_header pid sendbuf
     \<and> probe_ok pid (rp_probe a) \<and> ip_header_from (rp_src a) h
     \<and> echo_reply_of (take (packet_len max_load) sb) pkt
     \<and> buf = h @ pkt @ old \<and> len = 20 + int (packet_len max_load) \<and> tv = rp_at a)"

lemma reply_packetI:
  assumes "fill_sendbuf heap max_load (rp_probe a) buf = Inr sb" and "has_header pid buf"
    and "probe_ok pid (rp_probe a)" and "ip_header_from (rp_src a) h" and "echo_reply_of (take (packet_len max_load) sb) pkt"
  shows "reply_packet pid a (h @ pkt @ old, 20 + int (packet_len max_load), rp_at a)"
  using assms unfolding reply_packet_def by blast

lemma reply_packet_stored:
  assumes "reply_packet pid a (buf, len, tv)"
  shows "proc_v4 verbose pid buf len tv s = Inr (store_reply a s)"
proof -
  obtain heap max_load sendbuf sb h pkt old where
    "fill_sendbuf heap max_load (rp_probe a) sendbuf = Inr sb" "has_header pid sendbuf"
    "probe_ok pid (rp_probe a)" "ip_header_from (rp_src a) h" "echo_reply_of (take (packet_len max_load) sb) pkt"
    and eq: "buf = h @ pkt @ old" "len = 20 + int (packet_len max_load)" "tv = rp_at a"
    using assms unfolding reply_packet_def by blast
  from proc_v4_reply [OF this(1-5)] show ?thesis unfolding eq by (simp add: store_reply_def src_of_def sample_of_def)
qed

lemma receive_replies:
  assumes "list_all2 (reply_packet (l_pid l)) replies packets"
  shows "receive l packets s = Inr (fold store_reply replies s)"
  using assms
proof (induction replies packets arbitrary: s rule: list_all2_induct)
  case (Cons a replies packet packets)
  obtain buf len tv where p: "packet = (buf, len, tv)" by (cases packet)
  show ?case using reply_packet_stored [OF Cons(1) [unfolded p]] Cons(3)
    by (simp add: receive_def p)
qed (simp add: receive_def)


section \<open>The round trip times\<close>

lemma rtt_of_between:
  assumes "0 \<le> tv_sec t" "tv_sec t \<le> 48" "0 \<le> tv_usec t" "tv_usec t < 1000000"
  shows "between 0 49999 (rtt_of t)"
proof -
  have s: "d_of_int (tv_sec t) = Fin (of_int (tv_sec t))" "d_of_int (tv_usec t) = Fin (of_int (tv_usec t))"
    using assms by (auto intro!: d_of_int_exact)
  have u: "(of_int (tv_usec t) :: rat) \<le> 1000000" "(of_int (tv_sec t) :: rat) \<le> 48"
    using assms by (metis of_int_le_iff of_int_numeral less_imp_le)+
  have nn: "0 \<le> (of_int (tv_usec t) :: rat)" "0 \<le> (of_int (tv_sec t) :: rat)" using assms by simp_all
  obtain x where x: "dround (of_int (tv_sec t) * 1000) = Fin x" "of_int 0 \<le> x" "x \<le> of_int 48000"
    by (rule dround_between [of 0 "of_int (tv_sec t) * 1000" 48000]) (use u nn in simp_all)
  obtain y where y: "dround (of_int (tv_usec t) / 1000) = Fin y" "of_int 0 \<le> y" "y \<le> of_int 1000"
    by (rule dround_between [of 0 "of_int (tv_usec t) / 1000" 1000]) (use u nn in simp_all)
  obtain z where z: "dround (x + y) = Fin z" "of_int 0 \<le> z" "z \<le> of_int 49999"
    by (rule dround_between [of 0 "x + y" 49999]) (use x y in simp_all)
  then show ?thesis using x y s by (simp add: rtt_of_def between_def)
qed

text \<open>The time between sending and arrival, in microseconds.\<close>

definition delay_of :: "reply \<Rightarrow> int" where
  "delay_of a = usecs (rp_at a) - usecs (pr_tv (rp_probe a))"

lemma sample_between:
  assumes "timeval_ok (rp_at a)" and "timeval_ok (pr_tv (rp_probe a))" and "0 \<le> delay_of a" and "delay_of a < 49000000"
  shows "between 0 49999 (tp_rtt (sample_of a))"
proof -
  let ?t = "tv_sub (rp_at a) (pr_tv (rp_probe a))"
  have n: "0 \<le> tv_usec ?t \<and> tv_usec ?t < 1000000" using tv_sub_normal assms(1,2) unfolding timeval_ok_def by blast
  have "usecs ?t = delay_of a" by (simp add: usecs_tv_sub delay_of_def)
  then have "tv_sec ?t * 1000000 + tv_usec ?t = delay_of a" by (simp add: usecs_def)
  then have "0 \<le> tv_sec ?t" "tv_sec ?t \<le> 48" using n assms(3,4) by linarith+
  then show ?thesis using n rtt_of_between [of ?t] by (simp add: sample_of_def tparm_new_def)
qed


section \<open>What the replies make of the samples\<close>

definition is_reply :: "reply list \<Rightarrow> string \<Rightarrow> int \<Rightarrow> int \<Rightarrow> reply \<Rightarrow> bool" where
  "is_reply replies e p k a \<longleftrightarrow> a \<in> set replies \<and> src_of a = e
     \<and> pr_probe_id (rp_probe a) = p \<and> pr_peer_id (rp_probe a) = k"

definition sampled :: "rdata \<Rightarrow> reply list \<Rightarrow> rdata \<Rightarrow> bool" where
  "sampled s replies s' \<longleftrightarrow>
     (\<forall>e. sm_find (r s') e \<noteq> None \<longleftrightarrow> sm_find (r s) e \<noteq> None \<or> (\<exists>a \<in> set replies. src_of a = e))
     \<and> (\<forall>e p k. sm_find (peers_of (r s') e p) k \<noteq> None
          \<longleftrightarrow> sm_find (peers_of (r s) e p) k \<noteq> None \<or> (\<exists>a. is_reply replies e p k a))
     \<and> (\<forall>e p k q x. sm_find (seqs_of (r s') e p k) q = Some x
          \<longrightarrow> sm_find (seqs_of (r s) e p k) q = Some x
            \<or> (\<exists>a. is_reply replies e p k a \<and> pr_seq (rp_probe a) = q \<and> x = Some (sample_of a)))
     \<and> (\<forall>e p k. (\<exists>a. is_reply replies e p k a) \<longrightarrow> seqs_of (r s') e p k \<noteq> sm_empty)"

lemma peers_of_store_sample:
  "sm_find (peers_of (r (store_sample src p k q tp s)) e p') k' \<noteq> None
    \<longleftrightarrow> sm_find (peers_of (r s) e p') k' \<noteq> None \<or> (e = src \<and> p' = p \<and> k' = k)"
proof (cases "sm_at None (seqs_of (r s) src p k) q")
  case (Some tp')
  then have "sm_find (peers_of (r s) src p) k \<noteq> None"
    by (auto simp: seqs_of_def sm_at_def split: option.splits)
  then show ?thesis using Some by (auto simp: store_sample_def)
qed (auto simp: store_sample_def peers_of_def)

lemma seqs_of_store_nonempty:
  "seqs_of (r (store_sample src p k q tp s)) e p' k' \<noteq> sm_empty
    \<longleftrightarrow> seqs_of (r s) e p' k' \<noteq> sm_empty \<or> (e = src \<and> p' = p \<and> k' = k)"
proof -
  have put: "sm_put q v m \<noteq> sm_empty" for v and m :: seq_map
    by (metis option.distinct(1) sm_find_empty sm_find_put)
  have "sm_at None m q \<noteq> None \<Longrightarrow> m \<noteq> sm_empty" for m :: seq_map by auto
  then show ?thesis using put by (auto simp: seqs_of_store_sample Let_def)
qed

text \<open>One more reply.\<close>

lemma store_reply_keys: "sm_find (r (store_reply a s)) e \<noteq> None \<longleftrightarrow> sm_find (r s) e \<noteq> None \<or> src_of a = e"
proof -
  have "sm_at None (seqs_of (r s) d p k) q \<noteq> None \<Longrightarrow> sm_find (r s) d \<noteq> None" for d p k q
    by (cases "sm_find (r s) d") (simp_all add: seqs_of_def peers_of_def sm_find_None_at)
  then show ?thesis by (auto simp: store_reply_def store_sample_def split: option.splits)
qed

lemma store_reply_peers:
  "sm_find (peers_of (r (store_reply a s)) e p) k \<noteq> None
    \<longleftrightarrow> sm_find (peers_of (r s) e p) k \<noteq> None \<or> is_reply [a] e p k a"
  unfolding store_reply_def peers_of_store_sample by (auto simp: is_reply_def)

lemma store_reply_seqs:
  assumes "sm_find (seqs_of (r (store_reply a s)) e p k) q = Some x"
  shows "sm_find (seqs_of (r s) e p k) q = Some x
    \<or> is_reply [a] e p k a \<and> pr_seq (rp_probe a) = q \<and> x = Some (sample_of a)"
  using assms by (auto simp: store_reply_def seqs_of_store_sample is_reply_def Let_def split: if_splits)

lemma store_reply_nonempty:
  "seqs_of (r (store_reply a s)) e p k \<noteq> sm_empty \<longleftrightarrow> seqs_of (r s) e p k \<noteq> sm_empty \<or> is_reply [a] e p k a"
  unfolding store_reply_def seqs_of_store_nonempty by (auto simp: is_reply_def)

lemma is_reply_snoc: "is_reply (replies @ [a]) e p k b \<longleftrightarrow> is_reply replies e p k b \<or> b = a \<and> is_reply [a] e p k a"
  by (auto simp: is_reply_def)

lemma sampled_fold: "sampled s replies (fold store_reply replies s)"
proof (induction replies rule: rev_induct)
  case (snoc a replies)
  let ?s = "fold store_reply replies s"
  have ex: "(\<exists>b. is_reply (replies @ [a]) e p k b) \<longleftrightarrow> (\<exists>b. is_reply replies e p k b) \<or> is_reply [a] e p k a" for e p k
    unfolding is_reply_snoc by blast
  note ih = snoc.IH [unfolded sampled_def]
  have "\<forall>e. sm_find (r (store_reply a ?s)) e \<noteq> None
      \<longleftrightarrow> sm_find (r s) e \<noteq> None \<or> (\<exists>b \<in> set (replies @ [a]). src_of b = e)"
    unfolding store_reply_keys using conjunct1 [OF ih] by auto
  moreover have "\<forall>e p k. sm_find (peers_of (r (store_reply a ?s)) e p) k \<noteq> None
      \<longleftrightarrow> sm_find (peers_of (r s) e p) k \<noteq> None \<or> (\<exists>b. is_reply (replies @ [a]) e p k b)"
    unfolding store_reply_peers ex using conjunct1 [OF conjunct2 [OF ih]] by blast
  moreover have "sm_find (seqs_of (r s) e p k) q = Some x
        \<or> (\<exists>b. is_reply (replies @ [a]) e p k b \<and> pr_seq (rp_probe b) = q \<and> x = Some (sample_of b))"
    if found: "sm_find (seqs_of (r (store_reply a ?s)) e p k) q = Some x" for e p k q x
    using store_reply_seqs [OF found]
  proof
    assume "sm_find (seqs_of (r ?s) e p k) q = Some x"
    then show ?thesis using conjunct1 [OF conjunct2 [OF conjunct2 [OF ih]]] unfolding is_reply_snoc by meson
  qed (auto simp: is_reply_snoc)
  moreover have "\<forall>e p k. (\<exists>b. is_reply (replies @ [a]) e p k b) \<longrightarrow> seqs_of (r (store_reply a ?s)) e p k \<noteq> sm_empty"
    unfolding store_reply_nonempty ex using conjunct2 [OF conjunct2 [OF conjunct2 [OF ih]]] by blast
  ultimately show ?case unfolding sampled_def fold_append o_apply fold.simps id_apply by blast
qed (simp add: sampled_def is_reply_def)


section \<open>The pass\<close>

text \<open>
  Replies that make a good round: those to probes of the round are to sequence numbers below 99, took
  less than 49 seconds and came over peers that gobgp can be told about; every host that answers or is
  known is a listed destination and has answered at least one probe of the round.
\<close>

definition good_reply :: "lib \<Rightarrow> round_input \<Rightarrow> 's daemon \<Rightarrow> reply \<Rightarrow> bool" where
  "good_reply l i d a \<longleftrightarrow> timeval_ok (rp_at a) \<and> timeval_ok (pr_tv (rp_probe a))
     \<and> 0 \<le> delay_of a \<and> delay_of a < 49000000 \<and> 0 \<le> pr_seq (rp_probe a) \<and> pr_seq (rp_probe a) < 99
     \<and> pr_peer_id (rp_probe a) \<noteq> 0 \<and> peer_ready (l_popen l) (conf d) (mm (routers d)) (pr_peer_id (rp_probe a))
     \<and> (\<exists>tf. perf_get (pr_peer_id (rp_probe a)) (i_perf i) = Inr tf)"

definition good_replies :: "lib \<Rightarrow> round_input \<Rightarrow> 's daemon \<Rightarrow> reply list \<Rightarrow> bool" where
  "good_replies l i d replies \<longleftrightarrow>
     (\<forall>a \<in> set replies. pr_probe_id (rp_probe a) = probe_no d \<longrightarrow> good_reply l i d a)
     \<and> (\<forall>e. sm_find (r (measured d)) e \<noteq> None \<or> (\<exists>a \<in> set replies. src_of a = e)
          \<longrightarrow> e \<in> set (map d_ipv4 (dsts d)) \<and> (\<exists>k a. is_reply replies e (probe_no d) k a))"

definition fresh :: "'s daemon \<Rightarrow> bool" where
  "fresh d \<longleftrightarrow> (\<forall>e. peers_of (r (measured d)) e (probe_no d) = sm_empty)"

lemma distinct_below_99:
  assumes "distinct ks" and "\<forall>q \<in> set ks. 0 \<le> q \<and> q < (99 :: int)"
  shows "length ks \<le> 99"
proof -
  have "card (set ks) \<le> card {0 ..< (99 :: int)}" using assms(2) by (intro card_mono) auto
  then show ?thesis using distinct_card [OF assms(1)] by simp
qed

text \<open>A peer of the round holds samples of replies only.\<close>

lemma round_samples:
  assumes "sampled s replies s'" and "peers_of (r s) e n = sm_empty"
    and "sm_find (peers_of (r s') e n) k = Some seqs"
  obtains a where "is_reply replies e n k a"
    and "\<forall>(q, x) \<in> set (entries seqs). \<exists>a. is_reply replies e n k a \<and> pr_seq (rp_probe a) = q \<and> x = Some (sample_of a)"
    and "seqs \<noteq> sm_empty"
proof -
  have old: "sm_find (peers_of (r s) e n) k = None" "seqs_of (r s) e n k = sm_empty" by (simp_all add: assms(2) seqs_of_def)
  have seqs: "seqs_of (r s') e n k = seqs" using assms(3) by (simp add: seqs_of_def sm_find_Some_at)
  have "sm_find (peers_of (r s') e n) k \<noteq> None" using assms(3) by simp
  then obtain a where a: "is_reply replies e n k a" using assms(1) old(1) unfolding sampled_def by blast
  moreover have "seqs \<noteq> sm_empty" using a assms(1) seqs unfolding sampled_def by blast
  moreover have "\<exists>a. is_reply replies e n k a \<and> pr_seq (rp_probe a) = q \<and> x = Some (sample_of a)"
    if "(q, x) \<in> set (entries seqs)" for q x
  proof -
    have "sm_find (seqs_of (r s') e n k) q = Some x" using that seqs by (simp add: entries_iff_find)
    moreover have "sm_find (seqs_of (r s) e n k) q \<noteq> Some x" by (simp add: old(2))
    ultimately show ?thesis using assms(1) unfolding sampled_def by blast
  qed
  ultimately show thesis using that by blast
qed

text \<open>The samples of a peer in the round, when the replies to its probes are good ones.\<close>

lemma good_samples:
  assumes sm: "sampled s replies s'" and none: "peers_of (r s) e n = sm_empty"
    and ok: "\<forall>a. is_reply replies e n k a \<longrightarrow> good_reply l i d a \<and> pr_peer_id (rp_probe a) = k"
    and found: "sm_find (peers_of (r s') e n) k = Some seqs"
  shows "k \<noteq> 0 \<and> seqs \<noteq> sm_empty \<and> length (entries seqs) \<le> 99 \<and> (\<forall>x \<in> set (rtts (entries seqs)). between 0 49999 x)
    \<and> answered seqs \<and> sm_find seqs 99 = None \<and> (\<exists>tf. perf_get k (i_perf i) = Inr tf)
    \<and> peer_ready (l_popen l) (conf d) (mm (routers d)) k"
proof -
  obtain a where a: "is_reply replies e n k a" and ne: "seqs \<noteq> sm_empty"
    and all: "\<forall>(q, x) \<in> set (entries seqs). \<exists>a. is_reply replies e n k a \<and> pr_seq (rp_probe a) = q \<and> x = Some (sample_of a)"
    by (rule round_samples [OF sm none found])
  have each: "0 \<le> q \<and> q < 99 \<and> (\<exists>tp. x = Some tp \<and> between 0 49999 (tp_rtt tp))" if "(q, x) \<in> set (entries seqs)" for q x
  proof -
    obtain b where "is_reply replies e n k b" "pr_seq (rp_probe b) = q" "x = Some (sample_of b)" using all \<open>(q, x) \<in> _\<close> by blast
    then show ?thesis using ok sample_between [of b] unfolding good_reply_def by blast
  qed
  have "\<forall>q \<in> set (sm_keys seqs). 0 \<le> q \<and> q < 99" using each unfolding sm_keys_def by auto
  from distinct_below_99 [OF smap.distinct_keys this] have "length (entries seqs) \<le> 99" by (simp add: sm_keys_def)
  moreover have "\<forall>x \<in> set (rtts (entries seqs)). between 0 49999 x" using each unfolding rtts_def by fastforce
  moreover have "answered seqs" using each unfolding answered_def by blast
  moreover have "sm_find seqs 99 = None"
  proof (rule ccontr)
    assume "sm_find seqs 99 \<noteq> None"
    then obtain x where "(99, x) \<in> set (entries seqs)" by (auto simp: entries_iff_find)
    from each [OF this] show False by simp
  qed
  ultimately show ?thesis using ok a ne unfolding good_reply_def by blast
qed

lemma replies_answer:
  assumes good: "good_replies l i d replies" and fresh: "fresh d"
  shows "answered_pass l i (d\<lparr>measured := fold store_reply replies (measured d)\<rparr>)"
proof -
  let ?s = "measured d" and ?n = "probe_no d" and ?s' = "fold store_reply replies (measured d)"
  have sm: "sampled ?s replies ?s'" by (rule sampled_fold)
  have none: "peers_of (r ?s) e ?n = sm_empty" for e using fresh by (simp add: fresh_def)
  have ok: "\<forall>a. is_reply replies e ?n k a \<longrightarrow> good_reply l i d a \<and> pr_peer_id (rp_probe a) = k" for e k
    using good unfolding good_replies_def is_reply_def by blast
  note entry = good_samples [OF sm none ok]
  have known: "e \<in> set (map d_ipv4 (dsts d)) \<and> (\<exists>k a. is_reply replies e ?n k a)" if "sm_find (r ?s') e \<noteq> None" for e
  proof -
    have "sm_find (r ?s) e \<noteq> None \<or> (\<exists>a \<in> set replies. src_of a = e)"
      using that conjunct1 [OF sm [unfolded sampled_def]] by blast
    then show ?thesis using conjunct2 [OF good [unfolded good_replies_def]] by blast
  qed
  have peers: "peers_of (r ?s') e ?n \<noteq> sm_empty" if there: "sm_find (r ?s') e \<noteq> None" for e
  proof -
    obtain k a where "is_reply replies e ?n k a" using known [OF there] by blast
    then have "sm_find (peers_of (r ?s') e ?n) k \<noteq> None" using sm unfolding sampled_def by blast
    then show ?thesis by auto
  qed
  have "NaN \<notin> set (rtts (entries seqs))" if "sm_find (peers_of (r ?s') e ?n) k = Some seqs" for e k seqs
    using entry [OF that] by (auto simp: between_def)
  then have "round_answered (i_perf i) ?n ?s'" using entry unfolding round_answered_def by blast
  moreover have "measurable ?n ?s'" using entry peers unfolding measurable_def by blast
  moreover have "peer_ready (l_popen l) (conf d) (mm (routers d)) k" if "sm_find (peers_of (r ?s') e ?n) k \<noteq> None" for e k
    using that entry by blast
  ultimately show ?thesis using known by (simp add: answered_pass_def)
qed


section \<open>The samples of later rounds\<close>

text \<open>What a pass does to the samples of rounds after its own: nothing, but for whole destinations.\<close>

definition later_rounds :: "int \<Rightarrow> rdata \<Rightarrow> rdata \<Rightarrow> bool" where
  "later_rounds n s s' \<longleftrightarrow> (\<forall>e p. n < p
     \<longrightarrow> peers_of (r s') e p = peers_of (r s) e p \<or> peers_of (r s') e p = sm_empty)"

lemma later_rounds_refl: "later_rounds n s s"
  by (simp add: later_rounds_def)

lemma later_rounds_trans: "later_rounds n s t \<Longrightarrow> later_rounds n t u \<Longrightarrow> later_rounds n s u"
  unfolding later_rounds_def by metis

lemma later_rounds_same: "r s' = r s \<Longrightarrow> later_rounds n s s'"
  by (simp add: later_rounds_def)

lemma later_rounds_set: "r s' = set_peers d n ps (r s) \<Longrightarrow> later_rounds n s s'"
  by (simp add: later_rounds_def)

lemma later_rounds_erase: "r s' = sm_erase d (r s) \<Longrightarrow> later_rounds n s s'"
  by (auto simp: later_rounds_def peers_of_def)

lemma route_update_same:
  assumes "pfr_route_update popen c n ds (s, w) = Inr (s', w')"
  shows "s' = s \<and> w' = w"
proof -
  have "route_update_loop popen c ds ks st = Inr st' \<Longrightarrow> st' = st" for ks st st'
    by (induction ks) (auto elim!: res_bind_InrE split: if_splits)
  then show ?thesis using assms by (fastforce simp: pfr_route_update_def res_map_Inr_iff)
qed

lemma scan_dst_later:
  assumes "scan_dst c n d (s, m) = Inr (s', m')"
  shows "later_rounds n s s'"
proof -
  have "r s' = set_peers d n (touch99 n (peers_of (r s) d n)) (r s)"
    using assms by (auto simp: scan_dst_def Let_def elim!: res_bind_InrE split: if_splits list.splits)
  then show ?thesis by (rule later_rounds_set)
qed

lemma delete_later:
  assumes "delete_if_routed popen c n d (s, w) = Inr (s', w')"
  shows "later_rounds n s s'"
  using assms by (auto simp: delete_if_routed_def pfr_delete_r_route_def res_map_Inr_iff
      intro: later_rounds_refl later_rounds_erase split: option.splits)

lemma evaluate_later:
  assumes "evaluate_round l i d = Inr d'"
  shows "later_rounds (probe_no d) (measured d) (measured d') \<and> probe_no d' = probe_no d"
proof -
  let ?n = "probe_no d"
  obtain s1 w1 s2 s3 s4 m where up: "pfr_route_update (l_popen l) (conf d) ?n (map d_ipv4 (dsts d))
      (measured d, routers d) = Inr (s1, w1)"
    and avg: "pfr_calc_avg_rtt (conf d) (i_perf i) ?n s1 = Inr s2"
    and dev: "pfr_calc_stddev_rtt ?n s2 = Inr s3"
    and scan: "pfr_route_scan (conf d) ?n (s3, c_min_rtt (conf d)) = Inr (s4, m)"
    and d': "d' = d\<lparr>measured := s4, routers := w1, conf := (conf d)\<lparr>c_min_rtt := m\<rparr>\<rparr>"
    using assms by (auto simp: evaluate_round_def res_map_Inr_iff elim!: res_bind_InrE)
  have "s1 = measured d" using route_update_same [OF up] by simp
  moreover have "later_rounds ?n s1 s2"
    using dst_pass_local(5) [OF calc_avg_dst_pass avg [unfolded pfr_calc_avg_rtt_def]] by (simp add: later_rounds_def)
  moreover have "later_rounds ?n s2 s3"
    using dst_pass_local(5) [OF calc_stddev_dst_pass' dev [unfolded pfr_calc_stddev_rtt_def]] by (simp add: later_rounds_def)
  moreover have "later_rounds ?n s3 (fst (s4, m))"
  proof (rule fold_res_invariant [OF scan [unfolded pfr_route_scan_def case_prod_conv], where P = "\<lambda>st. later_rounds ?n s3 (fst st)"])
    fix x u v assume "later_rounds ?n s3 (fst u)" "scan_dst (conf d) ?n x u = Inr v"
    then show "later_rounds ?n s3 (fst v)"
      using scan_dst_later later_rounds_trans by (cases u; cases v) auto
  qed (simp add: later_rounds_refl)
  ultimately have "later_rounds ?n (measured d) s4" using later_rounds_trans by simp
  then show ?thesis by (simp add: d')
qed

lemma delete_step_later:
  assumes "later_rounds n s (fst u)"
    and "(case u of (s, w) \<Rightarrow> if no_answer (route_log1 s) e n k then delete_if_routed popen c n e (s, w) else Inr (s, w)) = Inr v"
  shows "later_rounds n s (fst v)"
proof -
  obtain a w b w' where uv: "u = (a, w)" "v = (b, w')" by (cases u; cases v)
  show ?thesis
  proof (cases "no_answer (route_log1 a) e n k")
    case True
    then have "delete_if_routed popen c n e (a, w) = Inr (b, w')" using assms(2) uv by simp
    from later_rounds_trans [OF _ delete_later [OF this]] show ?thesis using assms(1) uv by simp
  next
    case False
    then show ?thesis using assms uv by simp
  qed
qed

lemma clean_later:
  assumes "clean_round l d = Inr d'"
  shows "later_rounds (probe_no d) (measured d) (measured d') \<and> probe_no d' = probe_no d"
proof -
  let ?n = "probe_no d" and ?s = "pfr_route_free (probe_no d) (measured d)"
  obtain s w where del: "pfr_delete (l_popen l) (conf d) ?n (?s, routers d) = Inr (s, w)"
    and d': "d' = d\<lparr>measured := s, routers := w\<rparr>"
    using assms by (auto simp: clean_round_def res_map_Inr_iff)
  have free: "later_rounds ?n u (free_dst (?n - 2) e u)" for e u
    by (auto simp: later_rounds_def free_dst_def)
  have "later_rounds ?n (measured d) (fold (free_dst (?n - 2)) (sm_keys (r (measured d))) (measured d))"
    by (rule fold_invariant_on [where P = "later_rounds ?n (measured d)"])
      (use free later_rounds_refl later_rounds_trans in blast)+
  then have "later_rounds ?n (measured d) ?s" by (simp add: pfr_route_free_def later_rounds_refl)
  moreover have "later_rounds ?n ?s s"
  proof (cases "?n \<le> c_deep_delete (conf d)")
    case True
    then show ?thesis using del by (simp add: pfr_delete_def later_rounds_refl)
  next
    case False
    have "later_rounds ?n ?s (fst (s, w))"
    proof (rule fold_res_invariant [where P = "\<lambda>st. later_rounds ?n ?s (fst st)"])
      show "fold_res (\<lambda>dst_ip (s, w). if no_answer (route_log1 s) dst_ip ?n (c_deep_delete (conf d))
          then delete_if_routed (l_popen l) (conf d) ?n dst_ip (s, w) else Inr (s, w))
        (sm_keys (route_log1 ?s)) (?s, routers d) = Inr (s, w)"
        using del False by (simp add: pfr_delete_def)
    qed (simp add: later_rounds_refl, rule delete_step_later)
    then show ?thesis by simp
  qed
  ultimately show ?thesis using later_rounds_trans d' by auto
qed

lemma process_later:
  assumes "process_round l i d = Inr (Running d')"
  shows "later_rounds (probe_no d) (measured d) (measured d') \<and> probe_no d' = probe_no d"
proof -
  obtain d1 d2 where d1: "evaluate_round l i d = Inr d1" and d2: "clean_round l d1 = Inr d2"
    and no: "\<not> (sig_usr1_flag (flags d2) \<or> sig_int_flag (flags d2))"
    and more: "(case reread_conf l (i_file i) d2 of Terminated n d3 \<Rightarrow> Inr (Terminated n d3)
      | Running d3 \<Rightarrow> res_map Running (advertise_round l d3)) = Inr (Running d')"
    using assms by (auto simp: process_round_def shutdown_def res_map_Inr_iff elim!: res_bind_InrE split: if_splits)
  obtain d3 where d3: "reread_conf l (i_file i) d2 = Running d3" "advertise_round l d3 = Inr d'"
    using more by (auto simp: res_map_Inr_iff split: outcome.splits)
  have "measured d3 = measured d2 \<and> probe_no d3 = probe_no d2"
    using d3(1) by (auto simp: reread_conf_def Let_def split: if_splits prod.splits)
  moreover have "r (measured d') = r (measured d3) \<and> probe_no d' = probe_no d3"
    using d3(2) by (auto simp: advertise_round_def res_map_Inr_iff split: if_splits)
  ultimately show ?thesis
    using evaluate_later [OF d1] clean_later [OF d2] later_rounds_trans later_rounds_same by metis
qed


section \<open>Pass after pass\<close>

text \<open>
  A pass in which the packets are replies to probes of this round or of earlier ones, and good ones; and
  the state before it, in which no round from this one on has samples.
\<close>

definition replied :: "lib \<Rightarrow> round_input \<Rightarrow> reply list \<Rightarrow> 's daemon \<Rightarrow> bool" where
  "replied l i replies d \<longleftrightarrow> i_ack i \<and> i_signals i = [] \<and> list_all2 (reply_packet (l_pid l)) replies (i_packets i)
     \<and> (\<forall>a \<in> set replies. pr_probe_id (rp_probe a) \<le> probe_no d)
     \<and> (\<exists>d1. refresh_dsts l i d = Inr d1 \<and> good_replies l i d1 replies)"

definition no_later :: "'s daemon \<Rightarrow> bool" where
  "no_later d \<longleftrightarrow> (\<forall>e p. probe_no d \<le> p \<longrightarrow> peers_of (r (measured d)) e p = sm_empty)"

lemma refresh_keeps:
  assumes "refresh_dsts l i d = Inr d1"
  obtains ds where "d1 = d\<lparr>dsts := ds\<rparr>"
proof (cases "0 < probe_no d")
  case True
  then show thesis using assms that by (auto simp: refresh_dsts_def res_map_Inr_iff elim!: res_bind_InrE)
next
  case False
  then have "d1 = d\<lparr>dsts := dsts d\<rparr>" using assms by (simp add: refresh_dsts_def)
  then show thesis by (rule that)
qed

lemma replied_good:
  assumes "no_later d" and "replied l i replies d"
  shows "good_input l i d"
proof -
  obtain d1 where d1: "refresh_dsts l i d = Inr d1" "good_replies l i d1 replies"
    and in_: "i_ack i" "i_signals i = []" "list_all2 (reply_packet (l_pid l)) replies (i_packets i)"
    using assms(2) unfolding replied_def by blast
  obtain ds where ds: "d1 = d\<lparr>dsts := ds\<rparr>" by (rule refresh_keeps [OF d1(1)])
  have "fresh d1" using assms(1) by (simp add: fresh_def no_later_def ds)
  from replies_answer [OF d1(2) this] receive_replies [OF in_(3)] show ?thesis
    using d1(1) in_(1,2) unfolding good_input_def by blast
qed

lemma no_later_next:
  assumes before: "no_later d" and rep: "replied l i replies d" and run: "daemon_round l i d = Inr (Running d')"
  shows "no_later d'"
proof -
  let ?n = "probe_no d" and ?s = "fold store_reply replies (measured d)"
  obtain d1 where d1: "refresh_dsts l i d = Inr d1" using rep unfolding replied_def by blast
  obtain ds where ds: "d1 = d\<lparr>dsts := ds\<rparr>" by (rule refresh_keeps [OF d1])
  have in_: "i_ack i" "list_all2 (reply_packet (l_pid l)) replies (i_packets i)"
    and old: "\<forall>a \<in> set replies. pr_probe_id (rp_probe a) \<le> ?n" using rep unfolding replied_def by blast+
  have rec: "receive l (i_packets i) (measured d1) = Inr ?s" using receive_replies [OF in_(2)] by (simp add: ds)
  obtain o' where o': "process_round l i (d1\<lparr>measured := ?s, flags := fold sig_usr (i_signals i) (flags d1)\<rparr>) = Inr o'"
    "Running d' = (case o' of Terminated n d' \<Rightarrow> Terminated n d' | Running d' \<Rightarrow> Running (d'\<lparr>probe_no := probe_no d' + 1\<rparr>))"
    using run by (auto simp: daemon_round_def d1 rec in_(1) Let_def res_map_Inr_iff elim!: res_bind_InrE)
  then obtain d2 where d2: "process_round l i (d1\<lparr>measured := ?s, flags := fold sig_usr (i_signals i) (flags d1)\<rparr>) = Inr (Running d2)"
    and d': "d' = d2\<lparr>probe_no := probe_no d2 + 1\<rparr>"
    by (cases o') auto
  have p: "later_rounds ?n ?s (measured d2)" "probe_no d2 = ?n" using process_later [OF d2] by (simp_all add: ds)
  have "peers_of (r ?s) e q = sm_empty" if q: "?n < q" for e q
  proof (rule sm_eqI)
    fix k
    have "\<not> is_reply replies e q k a" for a using old q unfolding is_reply_def by force
    moreover have "peers_of (r (measured d)) e q = sm_empty" using before q by (simp add: no_later_def)
    ultimately have "sm_find (peers_of (r ?s) e q) k = None"
      using conjunct1 [OF conjunct2 [OF sampled_fold [of "measured d" replies, unfolded sampled_def]]] by (metis sm_find_empty)
    then show "sm_find (peers_of (r ?s) e q) k = sm_find sm_empty k" by simp
  qed
  then show ?thesis using p unfolding no_later_def later_rounds_def d' by simp
qed

lemma replied_loop:
  assumes "no_later d" and "steady l d"
    and "\<And>n d'. n < length inputs \<Longrightarrow> daemon_loop l (take n inputs) d = Inr (Running d')
      \<Longrightarrow> \<exists>replies. replied l (inputs ! n) replies d'"
    and "n \<le> length inputs" and "daemon_loop l (take n inputs) d = Inr (Running d')"
  shows "no_later d'"
  using assms
proof (induction inputs arbitrary: d n)
  case (Cons i inputs)
  show ?case
  proof (cases n)
    case (Suc m)
    obtain replies where rep: "replied l i replies d" using Cons.prems(3) [of 0 d] by auto
    obtain d1 where d1: "daemon_round l i d = Inr (Running d1)" "steady l d1"
      using pass_steady [OF Cons.prems(2) replied_good [OF Cons.prems(1) rep]] by blast
    have "\<exists>replies. replied l (inputs ! k) replies d''"
      if "k < length inputs" "daemon_loop l (take k inputs) d1 = Inr (Running d'')" for k d''
      using Cons.prems(3) [of "Suc k" d''] that d1(1) by simp
    from Cons.IH [OF no_later_next [OF Cons.prems(1) rep d1(1)] d1(2) this] show ?thesis
      using Cons.prems(4,5) Suc d1(1) by simp
  qed (use Cons.prems in simp)
qed simp


section \<open>Properties\<close>

text \<open>
  C1. A pass from the wire to gobgp: in a steady state after the first pass, if the packets that arrive
  are good replies to this round's probes (or late ones to earlier probes), from every known
  destination at least one, then the whole pass of \<open>main\<close>'s loop returns; its measurements are those of
  the stored replies; the requests to gobgp announce, destination by destination, the route through
  the first peer with the least average, by the rules of \<open>rtt_least_move\<close>, and nothing else; and the
  state is steady again.
\<close>

theorem packets_to_routes:
  assumes "0 < probe_no d" and "steady l d" and "no_later d" and "replied l i replies d"
  shows "\<exists>s2 best d'. let s = fold store_reply replies (measured d) in
    measured_round (c_pfr_ping_req (conf d)) (probe_no d) s s2
    \<and> (\<forall>e. sm_find (r s) e \<noteq> None
        \<longrightarrow> is_best (Fin 50000) (peer_values ''metric0'' (peers_of (r s2) e (probe_no d))) (best e))
    \<and> daemon_round l i d = Inr (Running d')
    \<and> calls (routers d') = calls (routers d) @ concat (map (\<lambda>e. advert_calls (conf d) (probe_no d) (mm (routers d))
        (e, chosen (conf d) (route_at (route (measured d)) e (probe_no d - 1)) (best e))) (sm_keys (r s)))
    \<and> steady l d' \<and> no_later d' \<and> probe_no d' = probe_no d + 1"
proof -
  let ?s = "fold store_reply replies (measured d)"
  obtain d1 where d1: "refresh_dsts l i d = Inr d1" "good_replies l i d1 replies"
    and in_: "i_ack i" "i_signals i = []" "list_all2 (reply_packet (l_pid l)) replies (i_packets i)"
    using assms(4) unfolding replied_def by blast
  obtain ds where ds: "d1 = d\<lparr>dsts := ds\<rparr>" by (rule refresh_keeps [OF d1(1)])
  have rec: "receive l (i_packets i) (measured d1) = Inr ?s" using receive_replies [OF in_(3)] by (simp add: ds)
  have grow: "samples_grow (measured d) ?s" using receive_total [of l "i_packets i" "measured d1"] rec by (simp add: ds)
  have st: "steady l (d1\<lparr>measured := ?s\<rparr>)" using steady_received [OF assms(2) grow] by (simp add: ds)
  have "fresh d1" using assms(3) by (simp add: fresh_def no_later_def ds)
  from replies_answer [OF d1(2) this] have an: "answered_pass l i (d1\<lparr>measured := ?s\<rparr>)" by (simp add: ds)
  have "0 < probe_no (d1\<lparr>measured := ?s\<rparr>)" using assms(1) by (simp add: ds)
  note one = process_answered [OF this st an]
  have eqs: "probe_no (d1\<lparr>measured := ?s\<rparr>) = probe_no d" "conf (d1\<lparr>measured := ?s\<rparr>) = conf d"
    "routers (d1\<lparr>measured := ?s\<rparr>) = routers d" "measured (d1\<lparr>measured := ?s\<rparr>) = ?s" by (simp_all add: ds)
  obtain d' where d': "daemon_round l i d = Inr (Running d')" "steady l d'" "probe_no d' = probe_no d + 1"
    using pass_steady [OF assms(2) replied_good [OF assms(3,4)]] by blast
  have go: "start_senders d1 = Inr (sm_keys (mm (routers d1)))" "flags d1 = no_signals"
    using st by (simp_all add: start_senders_def steady_def good_conf_def)
  have same: "route ?s = route (measured d)" using grow unfolding samples_grow_def by blast
  show ?thesis
  proof (rule one, goal_cases)
    case (1 s2 s4 w best)
    note f = 1 [unfolded eqs same]
    have "daemon_round l i d = Inr (Running (d1\<lparr>measured := s4, routers := w, probe_no := probe_no d + 1\<rparr>))"
      using f(2) go receive_replies [OF in_(3), of "measured d"] by (simp add: daemon_round_def d1(1) in_ Let_def ds)
    then have "routers d' = w" using d'(1) by simp
    then show ?case unfolding Let_def
      using f(1,4,7) d' no_later_next [OF assms(3,4) d'(1)]
      by (intro exI [of _ s2] exI [of _ best] exI [of _ d'] conjI) simp_all
  qed
qed

text \<open>
  C2. The daemon from its start on: after a start with at most 999 peers and the default rules, through
  any number of passes each of which brings good replies to its probes, the loop neither ends nor
  fails; and after the last one every known destination has a route of that round over a peer of the
  table, and over gRPC, from the second pass on, the last request made for it is the announcement of
  exactly this route.
\<close>

theorem daemon_from_start:
  fixes connect :: "string \<Rightarrow> 's pfr_asbr_parm"
  assumes start: "daemon_start l connect rows i0 writable alive getpid fs db_up = Inr (d, fs', ts)"
    and "size (mm (routers d)) \<le> 999" and "good_conf (conf d)"
    and "\<And>n d'. n < length inputs \<Longrightarrow> daemon_loop l (take n inputs) d = Inr (Running d')
      \<Longrightarrow> \<exists>replies. replied l (inputs ! n) replies d'"
  shows "\<exists>d'. daemon_loop l inputs d = Inr (Running d') \<and> steady l d' \<and> probe_no d' = int (length inputs)
    \<and> (\<forall>e. inputs \<noteq> [] \<and> sm_find (r (measured d')) e \<noteq> None \<longrightarrow>
        (\<exists>rt. route_at (route (measured d')) e (probe_no d' - 1) = Some (Some rt)
          \<and> peer_ready (l_popen l) (conf d') (mm (routers d')) (curr_peer rt)
          \<and> (c_enable_gobgp_grpc (conf d') \<and> 1 < probe_no d' \<longrightarrow> last_call e (calls (routers d'))
              = Some (AddPath (grpc_path e (peer_at (curr_peer rt) (routers d')))))))"
proof -
  have st: "steady l d" using start_facts [OF start] assms(2,3) by blast
  have zero: "probe_no d = 0" "measured d = initial_rdata"
    using start by (auto simp: daemon_start_def res_map_Inr_iff elim!: res_bind_InrE split: if_splits prod.splits)
  then have new: "no_later d" by (simp add: no_later_def initial_rdata_def peers_of_def)
  have "good_input l (inputs ! n) d'"
    if n: "n < length inputs" and run: "daemon_loop l (take n inputs) d = Inr (Running d')" for n d'
  proof -
    have "no_later d'" using replied_loop [OF new st assms(4) _ run] n by simp
    then show ?thesis using replied_good assms(4) [OF n run] by blast
  qed
  from loop_steady [OF st this] show ?thesis using zero by simp
qed


section \<open>Examples\<close>

text \<open>A reply of 10.0.0.1 after 12 milliseconds, in a round of its own, and its packet.\<close>

definition example_reply :: "int \<Rightarrow> reply" where
  "example_reply n = \<lparr>rp_src = [10, 0, 0, 1],
     rp_probe = \<lparr>pr_seq = 2, pr_peer_id = 1, pr_probe_id = n, pr_thread_id = 99,
       pr_tv = \<lparr>tv_sec = 1700000000, tv_usec = 0\<rparr>, pr_time = 1700000000\<rparr>,
     rp_at = \<lparr>tv_sec = 1700000000, tv_usec = 12000\<rparr>\<rparr>"

lemma example_src: "src_of (example_reply n) = ''10.0.0.1''"
  by (simp add: src_of_def example_reply_def inet_ntop4_def, code_simp)

lemma example_packet:
  assumes "0 \<le> n" and "n < 2 ^ 31"
  shows "\<exists>packet. reply_packet 4711 (example_reply n) packet"
proof -
  let ?h = "[0x45, 0, 0, 0, 0, 0, 0, 0, 64, 1, 0, 0, 10, 0, 0, 1, 10, 229, 4, 1] :: u8 list"
  obtain sb where sb: "fill_sendbuf (\<lambda>_. 0) 0 (rp_probe (example_reply n)) (write_header 4711 (replicate BUFSIZE 0)) = Inr sb"
    by (simp add: fill_sendbuf_def load_ok_def)
  moreover have "has_header 4711 (write_header 4711 (replicate BUFSIZE 0))" by (rule has_header_write) simp
  moreover have "probe_ok 4711 (rp_probe (example_reply n))"
    using assms by (simp add: probe_ok_def example_reply_def timeval_ok_def)
  moreover have "ip_header_from (rp_src (example_reply n)) ?h"
    by (simp add: ip_header_from_def example_reply_def field_def)
  moreover have "echo_reply_of (take (packet_len 0) sb) (poke 0 [0, 0, 0xAB, 0xCD] (take (packet_len 0) sb))"
    by (auto simp: echo_reply_of_def)
  ultimately show ?thesis using reply_packetI by metis
qed

lemma example_good_reply:
  assumes "i_perf i = sm_empty" and "peer_ready (l_popen l) (conf d) (mm (routers d)) 1"
  shows "good_reply l i d (example_reply n)"
  using assms by (simp add: good_reply_def example_reply_def timeval_ok_def delay_of_def usecs_def perf_get_def)

definition wire_daemon :: "unit daemon" where
  "wire_daemon = example_pass_daemon\<lparr>measured := initial_rdata\<rparr>"

lemma wire_steady: "steady start_lib wire_daemon"
proof -
  have "size example_table = 2" by (simp add: size_std_map_def example_table_def sm_put.rep_eq)
  then show ?thesis
    by (simp add: steady_def good_conf_def wire_daemon_def example_daemon_simps example_routers_def example_conf_def
        initial_config_def initial_rdata_def route_at_def)
qed

lemma wire_replied:
  assumes "reply_packet 4711 (example_reply 1) packet"
  shows "replied start_lib (start_input\<lparr>i_packets := [packet]\<rparr>) [example_reply 1] wire_daemon"
proof -
  let ?i = "start_input\<lparr>i_packets := [packet]\<rparr>"
  have simps: "probe_no wire_daemon = 1" "measured wire_daemon = initial_rdata" "conf wire_daemon = example_conf"
    "mm (routers wire_daemon) = example_table" "map d_ipv4 (dsts wire_daemon) = [''10.0.0.1'']"
    by (simp_all add: wire_daemon_def example_daemon_simps example_routers_def pfr_dst_new_def)
  have "peer_ready (l_popen start_lib) example_conf example_table 1"
    by (simp add: peer_ready_def example_table_def usable_def example_conf_def initial_config_def start_lib_def)
  then have "good_reply start_lib ?i wire_daemon (example_reply 1)"
    by (intro example_good_reply) (simp_all add: simps start_input_def)
  moreover have "is_reply [example_reply 1] ''10.0.0.1'' 1 1 (example_reply 1)"
    unfolding is_reply_def example_src by (simp add: example_reply_def)
  ultimately have "good_replies start_lib ?i wire_daemon [example_reply 1]"
    by (auto simp: good_replies_def simps example_src initial_rdata_def)
  moreover have "refresh_dsts start_lib ?i wire_daemon = Inr wire_daemon"
    unfolding wire_daemon_def by (rule refresh_example)
  moreover have "list_all2 (reply_packet (l_pid start_lib)) [example_reply 1] (i_packets ?i)"
    using assms by (simp add: start_lib_def)
  ultimately show ?thesis unfolding replied_def
    by (simp add: simps start_input_def) (simp add: example_reply_def)
qed

theorem packets_to_routes_witness:
  "\<exists>packet s2 best d'. let s = fold store_reply [example_reply 1] (measured wire_daemon) in
    reply_packet 4711 (example_reply 1) packet
    \<and> measured_round (c_pfr_ping_req (conf wire_daemon)) (probe_no wire_daemon) s s2
    \<and> is_best (Fin 50000) (peer_values ''metric0'' (peers_of (r s2) ''10.0.0.1'' (probe_no wire_daemon))) (best ''10.0.0.1'')
    \<and> daemon_round start_lib (start_input\<lparr>i_packets := [packet]\<rparr>) wire_daemon = Inr (Running d')
    \<and> steady start_lib d' \<and> probe_no d' = probe_no wire_daemon + 1"
proof -
  obtain packet where packet: "reply_packet 4711 (example_reply 1) packet" using example_packet [of 1] by auto
  have "0 < probe_no wire_daemon" by (simp add: wire_daemon_def example_daemon_simps)
  moreover have "no_later wire_daemon"
    by (simp add: no_later_def wire_daemon_def initial_rdata_def peers_of_def)
  moreover have "sm_find (r (fold store_reply [example_reply 1] (measured wire_daemon))) ''10.0.0.1'' \<noteq> None"
    using conjunct1 [OF sampled_fold [of "measured wire_daemon" "[example_reply 1]", unfolded sampled_def]]
    by (simp add: example_src)
  ultimately show ?thesis
    using packets_to_routes [OF _ wire_steady _ wire_replied [OF packet]] packet unfolding Let_def by blast
qed

definition wire_input :: "(u8 list \<times> int \<times> timeval) list \<Rightarrow> round_input" where
  "wire_input ps = start_input\<lparr>i_dst_rows := Some [(''1'', ''10.0.0.1'', [], [])], i_packets := ps\<rparr>"

text \<open>The daemon of the example right after its start.\<close>

lemma wire_start:
  obtains d fs' ts where
    "daemon_start start_lib (\<lambda>_. pfr_asbr_parm_default :: unit pfr_asbr_parm) [start_row] (wire_input ps)
      (\<lambda>_. True) (\<lambda>_. False) 4711 (\<lambda>_. None) True = Inr (d, fs', ts)"
    "map d_ipv4 (dsts d) = [''10.0.0.1'']" "size (mm (routers d)) \<le> 999" "good_conf (conf d)"
    "peer_ready (l_popen start_lib) (conf d) (mm (routers d)) 1"
proof -
  let ?e = "\<lparr>e_split = split_runs, e_aton = aton_dotted, e_localnets = ''10.0.0.0/8'',
      e_rows = i_dst_rows (wire_input ps), e_cust = pfr_customer_default\<rparr>"
  have "case pfr_dst_list_first \<lparr>e_split = split_runs, e_aton = aton_dotted, e_localnets = ''10.0.0.0/8'',
      e_rows = Some [(''1'', ''10.0.0.1'', [], [])], e_cust = pfr_customer_default\<rparr> (i_shm start_input) of
      Inl _ \<Rightarrow> False | Inr (ds, _) \<Rightarrow> map d_ipv4 ds = [''10.0.0.1'']" by code_simp
  then have "case pfr_dst_list_first ?e (i_shm (wire_input ps)) of
      Inl _ \<Rightarrow> False | Inr (ds, _) \<Rightarrow> map d_ipv4 ds = [''10.0.0.1'']" by (simp add: wire_input_def)
  then obtain ds sh where ds: "pfr_dst_list_first ?e (i_shm (wire_input ps)) = Inr (ds, sh)"
    "map d_ipv4 ds = [''10.0.0.1'']" by (cases "pfr_dst_list_first ?e (i_shm (wire_input ps))") auto
  have in_: "i_prefix_rows (wire_input ps) = i_prefix_rows start_input" "i_file (wire_input ps) = i_file start_input"
    by (simp_all add: wire_input_def)
  obtain d fs' ts pp m cm c where st:
    "daemon_start start_lib (\<lambda>_. pfr_asbr_parm_default :: unit pfr_asbr_parm) [start_row] (wire_input ps)
      (\<lambda>_. True) (\<lambda>_. False) 4711 (\<lambda>_. None) True = Inr (d, fs', ts)"
    "pfr_peers [start_row] sm_empty = Inr (pp, m)"
    "load_configuration_file split_runs (i_file start_input) (sm_empty, initial_config) = (True, cm, c)"
    "conf d = c" "mm (routers d) = m" "dsts d = ds"
    by (rule start_example [OF ds(1) in_])
  have "case pfr_peers [start_row] sm_empty of Inl _ \<Rightarrow> False
      | Inr (pp, m) \<Rightarrow> size m \<le> 999 \<and> sm_find m 1 \<noteq> None" by code_simp
  then have m: "size m \<le> 999" "sm_find m 1 \<noteq> None" using st(2) by simp_all
  have "case load_configuration_file split_runs (i_file start_input) (sm_empty, initial_config) of
      (ok, cm, c) \<Rightarrow> \<not> c_enable_gobgp_grpc c \<and> c_path_metric c = ''metric0'' \<and> c_min_rtt c = Fin 50000
        \<and> c_enable_advertise c \<and> 0 \<le> c_deep_delete c" by code_simp
  then have "good_conf c" "\<not> c_enable_gobgp_grpc c" using st(3) by (simp_all add: good_conf_def)
  moreover from this(2) have "peer_ready (l_popen start_lib) c m 1"
    using m(2) by (auto simp: peer_ready_def usable_def start_lib_def)
  ultimately show thesis using that [OF st(1)] st(4-6) ds(2) m(1) by simp
qed

theorem daemon_from_start_witness:
  "\<exists>packet d fs' ts d'. reply_packet 4711 (example_reply 0) packet
    \<and> daemon_start start_lib (\<lambda>_. pfr_asbr_parm_default :: unit pfr_asbr_parm) [start_row] (wire_input [packet])
      (\<lambda>_. True) (\<lambda>_. False) 4711 (\<lambda>_. None) True = Inr (d, fs', ts)
    \<and> daemon_loop start_lib [wire_input [packet]] d = Inr (Running d') \<and> probe_no d' = 1"
proof -
  obtain packet where packet: "reply_packet 4711 (example_reply 0) packet" using example_packet [of 0] by auto
  let ?i = "wire_input [packet]"
  obtain d fs' ts where
    st: "daemon_start start_lib (\<lambda>_. pfr_asbr_parm_default :: unit pfr_asbr_parm) [start_row] ?i
      (\<lambda>_. True) (\<lambda>_. False) 4711 (\<lambda>_. None) True = Inr (d, fs', ts)"
    and d: "map d_ipv4 (dsts d) = [''10.0.0.1'']" "size (mm (routers d)) \<le> 999" "good_conf (conf d)"
    "peer_ready (l_popen start_lib) (conf d) (mm (routers d)) 1"
    by (rule wire_start)
  have zero: "probe_no d = 0" "measured d = initial_rdata"
    using st by (auto simp: daemon_start_def res_map_Inr_iff elim!: res_bind_InrE split: if_splits prod.splits)
  have "good_reply start_lib ?i d (example_reply 0)"
    by (rule example_good_reply) (use d(4) in \<open>simp_all add: wire_input_def start_input_def\<close>)
  moreover have "is_reply [example_reply 0] ''10.0.0.1'' 0 1 (example_reply 0)"
    unfolding is_reply_def example_src by (simp add: example_reply_def)
  ultimately have "good_replies start_lib ?i d [example_reply 0]"
    using d(1) by (auto simp: good_replies_def zero example_src initial_rdata_def)
  then have "replied start_lib ?i [example_reply 0] d"
    using packet unfolding replied_def
    by (simp add: zero refresh_dsts_def start_lib_def wire_input_def start_input_def) (simp add: example_reply_def)
  then have "\<exists>replies. replied start_lib ([?i] ! n) replies d'"
    if "n < length [?i]" "daemon_loop start_lib (take n [?i]) d = Inr (Running d')" for n d'
    using that by auto
  from daemon_from_start [OF st d(2,3) this] obtain d' where
    run: "daemon_loop start_lib [?i] d = Inr (Running d')" and no: "probe_no d' = int (length [?i])" by blast
  have "probe_no d' = 1" using no by simp
  then show ?thesis using packet st run by blast
qed

end
