(* ===== verification/Pfr_Start.thy ===== *)
theory Pfr_Start
  imports Pfr_Main
begin

text \<open>
  The program around the loop (\<open>main\<close> and \<open>do_fork\<close> of \<open>src/src/pfrd.cpp\<close>): the options of the command
  line, the processes of the daemonized mode, the level of the log, and the time that a pass of the
  loop takes.  \<open>boost::program_options\<close> and the results of the system calls are parameters.
\<close>


section \<open>Options\<close>

record start_opts =
  daemonize :: bool
  global_config_path :: string

definition pfrd_version :: string where
  "pfrd_version = ''0.1''"

definition initial_config_path :: string where
  "initial_config_path = ''/etc/pfrd.conf''"

text \<open>
  \<open>parse argv\<close> is the map of the options that are present, or the text of a \<open>po::error\<close>; \<open>desc\<close> is the
  help text.  The result has the lines that are printed.
\<close>

definition read_options ::
  "string \<Rightarrow> (string list \<Rightarrow> string + (string \<Rightarrow> string option)) \<Rightarrow> string list \<Rightarrow> string list \<times> start_opts res" where
  "read_options desc parse argv =
     (case parse argv of
        Inl what \<Rightarrow> ([''ERROR: '' @ what, []], Inl (Exit 1))
      | Inr vm \<Rightarrow>
          (if vm ''help'' \<noteq> None then ([desc], Inl (Exit 0))
           else if vm ''version'' \<noteq> None then ([''Version: '' @ pfrd_version], Inl (Exit 0))
           else (case vm ''configuration_file'' of
               None \<Rightarrow> ([], Inr \<lparr>daemonize = vm ''daemonize'' \<noteq> None, global_config_path = initial_config_path\<rparr>)
             | Some path \<Rightarrow> ([''We will use custom path to configuration file: '' @ path],
                 Inr \<lparr>daemonize = vm ''daemonize'' \<noteq> None, global_config_path = path\<rparr>))))"


section \<open>The processes of the daemonized mode\<close>

text \<open>
  \<open>pr_session\<close> says that the process is in a session of its own making, \<open>pr_leader\<close> that it leads its
  session.  \<open>fork\<close> that succeeds leaves two processes, so the steps of the daemonized mode yield the
  list of all processes that came about and how each of them goes on: a parent ends with \<open>_exit(0)\<close>.
\<close>

record process =
  pr_pid :: int
  pr_session :: bool
  pr_leader :: bool
  pr_umask :: int
  pr_cwd :: string

definition do_fork :: "int option \<Rightarrow> process \<Rightarrow> (int \<times> process) res list" where
  "do_fork fork p =
     (case fork of
        None \<Rightarrow> [Inr (- 1, p)]
      | Some pid \<Rightarrow> [Inl (Exit 0), Inr (0, p\<lparr>pr_pid := pid, pr_leader := False\<rparr>)])"

definition set_session :: "process \<Rightarrow> process" where
  "set_session p = p\<lparr>pr_session := True, pr_leader := True\<rparr>"

definition bind_processes :: "(int \<times> process) res list \<Rightarrow> (int \<Rightarrow> process \<Rightarrow> process res list) \<Rightarrow> process res list" where
  "bind_processes ps f = concat (map (\<lambda>x. case x of Inl e \<Rightarrow> [Inl e] | Inr (status, p) \<Rightarrow> f status p) ps)"

text \<open>\<open>status\<close> is not looked at afterwards: every process that is left goes on.\<close>

definition detach :: "int option \<Rightarrow> int \<Rightarrow> int option \<Rightarrow> (string \<Rightarrow> bool) \<Rightarrow> process \<Rightarrow> process res list" where
  "detach fork1 setsid fork2 chdir p =
     bind_processes (do_fork fork1 p) (\<lambda>status p1.
       if status < 0 \<or> setsid < 0 then [Inr p1]
       else bind_processes (do_fork fork2 (set_session p1)) (\<lambda>status p2.
         if status < 0 then [Inr p2]
         else [Inr (p2\<lparr>pr_umask := 0, pr_cwd := (if chdir ''/'' then ''/'' else pr_cwd p2)\<rparr>)]))"


section \<open>The start as a whole\<close>

text \<open>
  The level of the log is set before the configuration is read.  A relative path of the configuration
  file is taken in the directory of the process that opens it.
\<close>

datatype log_level = Debug | Info

definition set_level :: "config \<Rightarrow> log_level" where
  "set_level c = (if c_log_level c = ''debug'' then Debug else Info)"

definition config_file :: "(string \<Rightarrow> string \<Rightarrow> string list option) \<Rightarrow> start_opts \<Rightarrow> process \<Rightarrow> string list option" where
  "config_file open_in opts p = open_in (pr_cwd p) (global_config_path opts)"

text \<open>
  \<open>main\<close> up to the loop, for every process that comes about.  The peers are read first: when that throws,
  nothing else happens.  (\<open>daemon_start\<close> takes the rows again.)
\<close>

record start_env =
  v_desc :: string
  v_parse :: "string list \<Rightarrow> string + (string \<Rightarrow> string option)"
  v_fork1 :: "int option"
  v_setsid :: int
  v_fork2 :: "int option"
  v_chdir :: "string \<Rightarrow> bool"
  v_open_in :: "string \<Rightarrow> string \<Rightarrow> string list option"

definition processes :: "start_env \<Rightarrow> start_opts \<Rightarrow> process \<Rightarrow> process res list" where
  "processes v opts p =
     (if daemonize opts then detach (v_fork1 v) (v_setsid v) (v_fork2 v) (v_chdir v) p else [Inr p])"

definition main_start ::
  "start_env \<Rightarrow> string list \<Rightarrow> process \<Rightarrow> lib \<Rightarrow> (string \<Rightarrow> 's pfr_asbr_parm) \<Rightarrow> peer_row list \<Rightarrow> round_input
    \<Rightarrow> (string \<Rightarrow> bool) \<Rightarrow> (int \<Rightarrow> bool) \<Rightarrow> files \<Rightarrow> bool
    \<Rightarrow> (log_level \<times> 's daemon \<times> files \<times> (string \<times> string) list) res list" where
  "main_start v argv p l connect rows i writable alive fs db_up =
     (case pfr_peers rows sm_empty of
        Inl e \<Rightarrow> [Inl e]
      | Inr _ \<Rightarrow>
          (case snd (read_options (v_desc v) (v_parse v) argv) of
             Inl e \<Rightarrow> [Inl e]
           | Inr opts \<Rightarrow>
               map (\<lambda>x. res_bind x (\<lambda>q. res_map (Pair (set_level initial_config))
                   (daemon_start l connect rows (i\<lparr>i_file := config_file (v_open_in v) opts q\<rparr>)
                     writable alive (pr_pid q) fs db_up)))
                 (processes v opts p)))"


section \<open>The time of a pass\<close>

text \<open>
  \<open>sleep\<close> takes an \<open>unsigned int\<close>.  \<open>gettimeofday\<close> is read at the start of the senders and at the end
  of the round; in whole seconds.
\<close>

definition sleep_secs :: "int \<Rightarrow> int" where
  "sleep_secs n = uint (word_of_int n :: 32 word)"

definition pace :: "config \<Rightarrow> int \<Rightarrow> int \<Rightarrow> int \<Rightarrow> int" where
  "pace c probe_id start_time_of_echo end_time_of_echo =
     (let diff_time_of_echo = end_time_of_echo - start_time_of_echo
      in (if c_max_time_of_echo c > diff_time_of_echo \<and> probe_id > 0
          then sleep_secs (c_max_time_of_echo c - diff_time_of_echo) else 0)
         + sleep_secs (c_sleep_before_next_loop c))"

text \<open>
  What takes time in a pass besides sleeping: reading the list of destinations, the senders, the
  evaluation of the round if it was acknowledged.  \<open>pt_step\<close> is by how much the clock is set during
  the pass.
\<close>

record pass_times =
  pt_refresh :: int
  pt_sending :: int
  pt_ack :: bool
  pt_evaluation :: int
  pt_step :: int

definition echo_time :: "config \<Rightarrow> pass_times \<Rightarrow> int" where
  "echo_time c t =
     pt_sending t + sleep_secs (c_sleep_after_join c)
       + (if pt_ack t then sleep_secs (c_sleep_after_update c) + pt_evaluation t else 0)"

definition pass_time :: "config \<Rightarrow> int \<Rightarrow> int \<Rightarrow> pass_times \<Rightarrow> int" where
  "pass_time c probe_id start_time_of_echo t =
     pt_refresh t + echo_time c t
       + pace c probe_id start_time_of_echo (start_time_of_echo + echo_time c t + pt_step t)"


section \<open>Facts\<close>

lemma bind_processes_simps [simp]:
  "bind_processes [] f = []"
  "bind_processes (Inl e # ps) f = Inl e # bind_processes ps f"
  "bind_processes (Inr (n, q) # ps) f = f n q @ bind_processes ps f"
  by (simp_all add: bind_processes_def)

lemma read_options_exit:
  "snd (read_options desc parse argv) = Inl e
    \<longleftrightarrow> (case parse argv of Inl _ \<Rightarrow> e = Exit 1
      | Inr vm \<Rightarrow> (vm ''help'' \<noteq> None \<or> vm ''version'' \<noteq> None) \<and> e = Exit 0)"
  by (auto simp: read_options_def split: sum.splits option.splits)

lemma detach_cases:
  "detach fork1 setsid fork2 chdir p =
    (case fork1 of None \<Rightarrow> [Inr p]
     | Some a \<Rightarrow> Inl (Exit 0) # (let p1 = p\<lparr>pr_pid := a, pr_leader := False\<rparr> in
         if setsid < 0 then [Inr p1]
         else (case fork2 of None \<Rightarrow> [Inr (set_session p1)]
           | Some b \<Rightarrow> [Inl (Exit 0), Inr (p1\<lparr>pr_pid := b, pr_session := True, pr_leader := False, pr_umask := 0,
               pr_cwd := (if chdir ''/'' then ''/'' else pr_cwd p)\<rparr>)])))"
  by (simp add: detach_def do_fork_def set_session_def Let_def split: option.split)

lemma sleep_secs_id: "0 \<le> n \<Longrightarrow> n < 2 ^ 32 \<Longrightarrow> sleep_secs n = n"
  by (simp add: sleep_secs_def take_bit_int_eq_self uint_word_of_int_eq)

text \<open>
  C29. The daemonized mode: whatever of \<open>fork\<close>, \<open>setsid\<close> and the second \<open>fork\<close> fails, exactly one of the
  processes goes on and all others end with code 0.  If none of the three failed, the one that goes on
  is the last child, in a session of its own that it does not lead, with umask 0 and, if that change
  succeeds, in \<open>/\<close>.  Otherwise it keeps its umask and its directory and leads its new session, if it has
  one; and if the first \<open>fork\<close> failed, it goes on as if nothing had been asked for.
\<close>

theorem detach_one_process:
  "(\<exists>q n. n \<le> 2 \<and> detach fork1 setsid fork2 chdir p = replicate n (Inl (Exit 0)) @ [Inr q]
      \<and> (if fork1 \<noteq> None \<and> 0 \<le> setsid \<and> fork2 \<noteq> None
         then n = 2 \<and> Some (pr_pid q) = fork2 \<and> pr_session q \<and> \<not> pr_leader q \<and> pr_umask q = 0
           \<and> pr_cwd q = (if chdir ''/'' then ''/'' else pr_cwd p)
         else pr_umask q = pr_umask p \<and> pr_cwd q = pr_cwd p \<and> (fork1 = None \<longrightarrow> q = p)
           \<and> (pr_session q \<and> \<not> pr_session p \<longrightarrow> pr_leader q)))"
proof (cases fork1)
  case None
  then show ?thesis by (intro exI [of _ p] exI [of _ 0]) (simp add: detach_cases)
next
  case (Some a)
  show ?thesis
  proof (cases "setsid < 0")
    case True
    then show ?thesis using Some
      by (intro exI [of _ "p\<lparr>pr_pid := a, pr_leader := False\<rparr>"] exI [of _ 1]) (simp add: detach_cases Let_def)
  next
    case False
    let ?p1 = "p\<lparr>pr_pid := a, pr_leader := False\<rparr>"
    show ?thesis
    proof (cases fork2)
      case None
      then show ?thesis using Some False
        by (intro exI [of _ "set_session ?p1"] exI [of _ 1]) (simp add: detach_cases set_session_def)
    next
      case (Some b)
      let ?q = "?p1\<lparr>pr_pid := b, pr_session := True, pr_leader := False, pr_umask := 0,
        pr_cwd := (if chdir ''/'' then ''/'' else pr_cwd p)\<rparr>"
      show ?thesis using Some False \<open>fork1 = Some a\<close>
        by (intro exI [of _ ?q] exI [of _ 2]) (simp add: detach_cases numeral_2_eq_2)
    qed
  qed
qed


definition daemonized_env :: start_env where
  "daemonized_env = \<lparr>v_desc = ''Allowed options'', v_parse = (\<lambda>_. Inr [''daemonize'' \<mapsto> []]),
     v_fork1 = Some 5001, v_setsid = 5001, v_fork2 = Some 5002, v_chdir = (\<lambda>_. True),
     v_open_in = (\<lambda>_ _. Some [''pid_path = /run/pfrd.pid''])\<rparr>"

definition example_process :: process where
  "example_process = \<lparr>pr_pid = 5000, pr_session = False, pr_leader = False, pr_umask = 18, pr_cwd = ''/root''\<rparr>"

theorem detach_one_process_witness:
  "\<exists>q n. n \<le> 2 \<and> detach (Some 5001) 5001 (Some 5002) (\<lambda>_. True) example_process = replicate n (Inl (Exit 0)) @ [Inr q]
    \<and> n = 2 \<and> pr_pid q = 5002 \<and> pr_session q \<and> \<not> pr_leader q \<and> pr_umask q = 0 \<and> pr_cwd q = ''/''"
  using detach_one_process [of "Some 5001" 5001 "Some 5002" "\<lambda>_. True" example_process] by auto




end
