(* ===== verification/Pfr_Handshake.thy ===== *)
theory Pfr_Handshake
  imports Main
begin

text \<open>
  The handshake between \<open>main\<close> (\<open>src/src/pfrd.cpp\<close>) and the thread \<open>readloop\<close>
  (\<open>ping_readloop.cpp\<close>): \<open>main\<close> asks with \<open>req_stopped\<close> for the end of a round, \<open>readloop\<close>
  answers with \<open>send_stopped\<close> at the end of a pass, and \<open>main\<close> evaluates the round only after an
  answer, holding the mutex \<open>mt_req_send\<close> that \<open>readloop\<close> needs at the end of every pass.

  A step is one of either thread's; a critical section that does nothing but read and write the two
  flags is one step.  \<open>received\<close> counts the packets that \<open>proc_v4\<close> took since \<open>main\<close> began to evaluate,
  and \<open>answers\<close> the answers since \<open>main\<close> last cleared the flags.
\<close>

datatype main_pc =
    Probing      \<comment> \<open>the senders run and are joined\<close>
  | Requested    \<comment> \<open>\<open>req_stopped = 1\<close>, \<open>sleep(sleep_after_join)\<close>\<close>
  | Evaluating   \<comment> \<open>the mutex is held and \<open>send_stopped\<close> was 1\<close>
  | Cleared      \<comment> \<open>the flags are reset, the routes are advertised\<close>
  | Waiting      \<comment> \<open>the mutex is released, \<open>sleep\<close>\<close>

datatype read_pc =
    Polling      \<comment> \<open>\<open>select\<close> and \<open>recvmsg\<close>\<close>
  | Before_lock  \<comment> \<open>the pass is done but for the critical section\<close>

record shared =
  at_main :: main_pc
  at_read :: read_pc
  req_stopped :: bool
  send_stopped :: bool
  held_by_main :: bool
  received :: nat
  answers :: nat

definition shared_start :: shared where
  "shared_start = \<lparr>at_main = Probing, at_read = Polling, req_stopped = False, send_stopped = False,
     held_by_main = False, received = 0, answers = 0\<rparr>"

inductive hs_step :: "shared \<Rightarrow> shared \<Rightarrow> bool" where
  request: "at_main s = Probing \<Longrightarrow> \<not> held_by_main s \<Longrightarrow>
    hs_step s (s\<lparr>at_main := Requested, req_stopped := True\<rparr>)"
| evaluate: "at_main s = Requested \<Longrightarrow> \<not> held_by_main s \<Longrightarrow> send_stopped s \<Longrightarrow>
    hs_step s (s\<lparr>at_main := Evaluating, held_by_main := True, received := 0\<rparr>)"
| skip: "at_main s = Requested \<Longrightarrow> \<not> held_by_main s \<Longrightarrow> \<not> send_stopped s \<Longrightarrow>
    hs_step s (s\<lparr>at_main := Waiting\<rparr>)"
| clear: "at_main s = Evaluating \<Longrightarrow>
    hs_step s (s\<lparr>at_main := Cleared, send_stopped := False, req_stopped := False, answers := 0\<rparr>)"
| release: "at_main s = Cleared \<Longrightarrow>
    hs_step s (s\<lparr>at_main := Waiting, held_by_main := False\<rparr>)"
| again: "at_main s = Waiting \<Longrightarrow> hs_step s (s\<lparr>at_main := Probing\<rparr>)"
| receive: "at_read s = Polling \<Longrightarrow>
    hs_step s (s\<lparr>at_read := Before_lock, received := received s + 1\<rparr>)"
| timeout: "at_read s = Polling \<Longrightarrow> hs_step s (s\<lparr>at_read := Before_lock\<rparr>)"
| answer: "at_read s = Before_lock \<Longrightarrow> \<not> held_by_main s \<Longrightarrow>
    hs_step s (s\<lparr>at_read := Polling, send_stopped := (if req_stopped s then True else send_stopped s),
      answers := answers s + (if req_stopped s then 1 else 0)\<rparr>)"

inductive_cases hs_stepE: "hs_step s t"

text \<open>The invariant: who holds the mutex, what the flags mean, and how far \<open>readloop\<close> can get.\<close>

definition hs_inv :: "shared \<Rightarrow> bool" where
  "hs_inv s \<longleftrightarrow>
     (held_by_main s \<longleftrightarrow> at_main s \<in> {Evaluating, Cleared})
     \<and> (send_stopped s \<longrightarrow> req_stopped s \<and> 0 < answers s)
     \<and> (at_main s \<in> {Requested, Evaluating} \<longrightarrow> req_stopped s)
     \<and> (at_main s = Evaluating \<longrightarrow> send_stopped s)
     \<and> (at_main s = Cleared \<longrightarrow> \<not> req_stopped s)
     \<and> (held_by_main s \<longrightarrow> received s \<le> (if at_read s = Polling then 0 else 1))"

lemma hs_inv_start: "hs_inv shared_start"
  by (simp add: hs_inv_def shared_start_def)

lemma hs_inv_step: "hs_inv s \<Longrightarrow> hs_step s t \<Longrightarrow> hs_inv t"
  by (erule hs_stepE) (auto simp: hs_inv_def split: if_splits)

lemma hs_inv_reach: "hs_step\<^sup>*\<^sup>* shared_start s \<Longrightarrow> hs_inv s"
  by (induction rule: rtranclp_induct) (auto simp: hs_inv_start intro: hs_inv_step)

text \<open>What a thread waits for is always in reach: there is no deadlock.\<close>

lemma hs_read_returns:
  assumes "at_main s \<in> {Probing, Requested, Waiting}" and "hs_inv s" and "req_stopped s"
  shows "\<exists>t. hs_step\<^sup>*\<^sup>* s t \<and> send_stopped t \<and> at_main t = at_main s"
proof -
  have free: "\<not> held_by_main s" using assms(1,2) by (auto simp: hs_inv_def)
  have answered: "\<exists>t. hs_step u t \<and> send_stopped t \<and> at_main t = at_main u"
    if "at_read u = Before_lock" "\<not> held_by_main u" "req_stopped u" for u
    using answer [OF that(1,2)] that(3)
    by (intro exI [of _ "u\<lparr>at_read := Polling, send_stopped := True, answers := Suc (answers u)\<rparr>"]) simp
  show ?thesis
  proof (cases "at_read s")
    case Polling
    let ?u = "s\<lparr>at_read := Before_lock\<rparr>"
    obtain t where "hs_step ?u t" "send_stopped t" "at_main t = at_main s"
      using answered [of ?u] free assms(3) by auto
    then show ?thesis using timeout [OF Polling] by (meson converse_rtranclp_into_rtranclp r_into_rtranclp)
  next
    case Before_lock
    then show ?thesis using answered [of s] free assms(3) by blast
  qed
qed



text \<open>A run: \<open>main\<close> asks, \<open>readloop\<close> times out and answers, and \<open>main\<close> evaluates.\<close>

definition asked :: shared where
  "asked = shared_start\<lparr>at_main := Requested, req_stopped := True\<rparr>"

definition evaluating :: shared where
  "evaluating = shared_start\<lparr>at_main := Evaluating, req_stopped := True, send_stopped := True,
     held_by_main := True, answers := 1\<rparr>"

lemma run_asked: "hs_step\<^sup>*\<^sup>* shared_start asked"
  using request [of shared_start] by (simp add: asked_def shared_start_def r_into_rtranclp)

lemma run_evaluating: "hs_step\<^sup>*\<^sup>* shared_start evaluating"
proof -
  let ?u = "asked\<lparr>at_read := Before_lock\<rparr>"
  let ?v = "asked\<lparr>send_stopped := True, answers := 1\<rparr>"
  have "hs_step asked ?u" by (rule timeout) (simp add: asked_def shared_start_def)
  moreover have "hs_step ?u ?v" using answer [of ?u] by (simp add: asked_def shared_start_def)
  moreover have "hs_step ?v evaluating"
    using evaluate [of ?v] by (simp add: asked_def evaluating_def shared_start_def)
  ultimately show ?thesis using run_asked by (meson rtranclp.rtrancl_into_rtrancl)
qed



end
