(* ===== verification/Ping_Race.thy ===== *)
theory Ping_Race
  imports Ping_Send
begin

text \<open>
  All senders at once (\<open>src/src/pfrd.cpp\<close> starts a thread \<open>send_req\<close> per peer, each of which runs
  \<open>send_v4\<close>): they share the global \<open>sendbuf\<close> (\<open>src/src/ping0.h\<close>, \<open>ping_send_v4.cpp\<close>) without a lock.

  A sender is the list of what it does to the buffer; a step of the program is the next one of any of
  them.  The grain is that of the source's statements, coarser than the machine's: what can go wrong
  here can go wrong there.  \<open>send_v4\<close> alone does the same as its list.
\<close>


section \<open>What a sender does\<close>

datatype 'a micro =
    Header int
  | Seq int
  | Payload "u8 list"
  | Cksum
  | Sendto 'a

type_synonym 'a wire = "u8 list \<times> ('a \<times> u8 list) list"

fun exec_micro :: "int \<Rightarrow> 'a micro \<Rightarrow> 'a wire \<Rightarrow> 'a wire" where
  "exec_micro max_load (Header pid) (buf, out) = (write_header pid buf, out)"
| "exec_micro max_load (Seq seq) (buf, out) = (write_seq seq buf, out)"
| "exec_micro max_load (Payload block) (buf, out) = (poke 8 block buf, out)"
| "exec_micro max_load Cksum (buf, out) = (write_cksum max_load buf, out)"
| "exec_micro max_load (Sendto ai) (buf, out) = (buf, out @ [(ai, take (packet_len max_load) buf)])"

definition probe_micros :: "config \<Rightarrow> outside \<Rightarrow> sender \<Rightarrow> 'a \<Rightarrow> int \<Rightarrow> nat \<Rightarrow> 'a micro list" where
  "probe_micros c w sd ai seq k =
     [Seq seq, Payload (payload_block (o_heap w k) (c_max_load c) (probe_payload (probe_of w sd seq k))),
      Cksum, Sendto ai]"

fun train_micros :: "config \<Rightarrow> outside \<Rightarrow> sender \<Rightarrow> 'a \<Rightarrow> int list \<Rightarrow> nat \<Rightarrow> 'a micro list" where
  "train_micros c w sd ai [] k = []"
| "train_micros c w sd ai (q # qs) k = probe_micros c w sd ai q k @ train_micros c w sd ai qs (k + 1)"

definition dst_micros :: "config \<Rightarrow> outside \<Rightarrow> sender \<Rightarrow> 'a \<Rightarrow> nat \<Rightarrow> 'a micro list" where
  "dst_micros c w sd ai k = Header (sd_pid sd) # train_micros c w sd ai [0..c_pfr_ping_req c - 1] k"

fun sender_micros :: "config \<Rightarrow> outside \<Rightarrow> sender \<Rightarrow> 'a list \<Rightarrow> nat \<Rightarrow> 'a micro list" where
  "sender_micros c w sd [] k = []"
| "sender_micros c w sd (ai # ais) k =
     dst_micros c w sd ai k @ sender_micros c w sd ais (k + nat (c_pfr_ping_req c))"


section \<open>The steps of the program\<close>

inductive sender_step ::
  "int \<Rightarrow> 'a micro list list \<times> 'a wire \<Rightarrow> 'a micro list list \<times> 'a wire \<Rightarrow> bool" for max_load where
  turn: "i < length ths \<Longrightarrow> ths ! i = m # ms \<Longrightarrow>
    sender_step max_load (ths, w) (ths[i := ms], exec_micro max_load m w)"

inductive_cases sender_stepE: "sender_step max_load s t"

definition senders_reach ::
  "int \<Rightarrow> 'a micro list list \<times> 'a wire \<Rightarrow> 'a micro list list \<times> 'a wire \<Rightarrow> bool" where
  "senders_reach max_load = (sender_step max_load)\<^sup>*\<^sup>*"


section \<open>One sender\<close>

lemma probe_micros_run:
  assumes "load_ok (c_max_load c)"
  shows "send_probe c w sd ai seq s = Inr (s\<lparr>
      sendbuf := fst (fold (exec_micro (c_max_load c)) (probe_micros c w sd ai seq (probes_made s)) (sendbuf s, sent s)),
      probes_made := probes_made s + 1,
      sent := snd (fold (exec_micro (c_max_load c)) (probe_micros c w sd ai seq (probes_made s)) (sendbuf s, sent s))\<rparr>)"
  using assms
  by (simp add: send_probe_def Let_def fill_sendbuf_def probe_micros_def write_payload_def probe_of_def)

lemma train_micros_run:
  assumes "load_ok (c_max_load c)"
  shows "fold_res (send_probe c w sd ai) qs s = Inr (s\<lparr>
      sendbuf := fst (fold (exec_micro (c_max_load c)) (train_micros c w sd ai qs (probes_made s)) (sendbuf s, sent s)),
      probes_made := probes_made s + length qs,
      sent := snd (fold (exec_micro (c_max_load c)) (train_micros c w sd ai qs (probes_made s)) (sendbuf s, sent s))\<rparr>)"
  by (induction qs arbitrary: s) (simp_all add: probe_micros_run [OF assms])

lemma senders_alone:
  "senders_reach max_load ([ms @ rest], w) ([rest], fold (exec_micro max_load) ms w)"
proof (induction ms arbitrary: w)
  case (Cons m ms)
  have "sender_step max_load ([m # ms @ rest], w) ([ms @ rest], exec_micro max_load m w)"
    using turn [of 0 "[m # ms @ rest]" m "ms @ rest" max_load w] by simp
  then show ?case
    using Cons.IH [of "exec_micro max_load m w"] by (simp add: senders_reach_def)
qed (simp add: senders_reach_def)


section \<open>An invariant of all interleavings\<close>

text \<open>
  A sender has written its header before it sends, and all of them write the same one: whatever the
  interleaving, a packet is an echo request of this process.
\<close>

definition micro_ok :: "int \<Rightarrow> 'a micro \<Rightarrow> bool" where
  "micro_ok pid m = (case m of Header p \<Rightarrow> p = pid | Payload b \<Rightarrow> 8 + length b \<le> BUFSIZE | _ \<Rightarrow> True)"

definition starts_with_header :: "'a micro list \<Rightarrow> bool" where
  "starts_with_header ms \<longleftrightarrow> ms = [] \<or> (\<exists>p. hd ms = Header p)"

definition race_inv :: "int \<Rightarrow> 'a micro list list \<times> 'a wire \<Rightarrow> bool" where
  "race_inv pid = (\<lambda>(ths, buf, out).
     length buf = BUFSIZE
     \<and> (\<forall>ms \<in> set ths. \<forall>m \<in> set ms. micro_ok pid m)
     \<and> ((\<forall>ms \<in> set ths. starts_with_header ms) \<or> has_header pid buf)
     \<and> (\<forall>(ai, pkt) \<in> set out. field 0 2 pkt = [8, 0]
           \<and> field 4 2 pkt = le_bytes 2 (word_of_int pid :: u16)))"

lemma exec_micro_length:
  assumes "length buf = BUFSIZE" and "micro_ok pid m" and "exec_micro max_load m (buf, out) = (buf', out')"
  shows "length buf' = BUFSIZE"
  using assms
  by (cases m) (auto simp: micro_ok_def write_header_def write_seq_def write_cksum_def Let_def BUFSIZE_def)

lemma exec_micro_header:
  assumes "has_header pid buf" and "micro_ok pid m" and "exec_micro max_load m (buf, out) = (buf', out')"
  shows "has_header pid buf'"
  using assms
  by (cases m) (auto simp: micro_ok_def has_header_def write_header_def write_seq_def write_cksum_def
      Let_def BUFSIZE_def field_poke_other field_poke_same)

lemma race_inv_step:
  assumes "race_inv pid s" and "sender_step max_load s t" and "load_ok max_load"
  shows "race_inv pid t"
  using assms(2)
proof (cases rule: sender_step.cases)
  case (turn i ths m ms w)
  obtain buf out where w: "w = (buf, out)" by (cases w)
  obtain buf' out' where w': "exec_micro max_load m (buf, out) = (buf', out')"
    by (cases "exec_micro max_load m (buf, out)")
  have inv: "length buf = BUFSIZE" "\<forall>ms \<in> set ths. \<forall>m \<in> set ms. micro_ok pid m"
    "(\<forall>ms \<in> set ths. starts_with_header ms) \<or> has_header pid buf"
    "\<forall>(ai, pkt) \<in> set out. field 0 2 pkt = [8, 0] \<and> field 4 2 pkt = le_bytes 2 (word_of_int pid :: u16)"
    using assms(1) turn(1) by (auto simp: race_inv_def w)
  have mem: "m # ms \<in> set ths" using turn(3,4) by (metis nth_mem)
  then have ok: "micro_ok pid m" "\<forall>m \<in> set ms. micro_ok pid m" using inv(2) by auto
  have hdr: "has_header pid buf'"
  proof (cases "has_header pid buf")
    case True
    then show ?thesis using exec_micro_header ok(1) w' by blast
  next
    case False
    then obtain p where "m = Header p" using inv(3) mem by (force simp: starts_with_header_def)
    then show ?thesis using ok(1) w' has_header_write [OF inv(1)] by (auto simp: micro_ok_def)
  qed
  have "\<forall>(ai, pkt) \<in> set out'. field 0 2 pkt = [8, 0] \<and> field 4 2 pkt = le_bytes 2 (word_of_int pid :: u16)"
  proof (cases m)
    case (Sendto ai)
    then have "has_header pid buf" using hdr w' by simp
    then show ?thesis
      using inv(4) Sendto w' load_bounds [OF assms(3)] by (auto simp: has_header_def field_take)
  qed (use inv(4) w' in auto)
  moreover have "\<forall>ms' \<in> set (ths[i := ms]). \<forall>m \<in> set ms'. micro_ok pid m"
    using ok(2) inv(2) by (metis insertE set_update_subset_insert subsetD)
  moreover have "length buf' = BUFSIZE" using exec_micro_length [OF inv(1) ok(1) w'] .
  ultimately show ?thesis using hdr by (simp add: turn(2) w w' race_inv_def)
qed

lemma race_inv_reach:
  assumes "senders_reach max_load s t" and "race_inv pid s" and "load_ok max_load"
  shows "race_inv pid t"
  using assms(1) unfolding senders_reach_def
  by (induction rule: rtranclp_induct) (use assms(2,3) race_inv_step in blast)+

lemma micros_ok:
  assumes "load_ok (c_max_load c)"
  shows "m \<in> set (sender_micros c w sd ais k) \<Longrightarrow> micro_ok (sd_pid sd) m"
proof (induction ais arbitrary: k)
  case (Cons ai ais)
  have "\<forall>m \<in> set (train_micros c w sd ai qs k). micro_ok (sd_pid sd) m" for qs
    using load_bounds [OF assms] assms
    by (induction qs arbitrary: k) (auto simp: probe_micros_def micro_ok_def BUFSIZE_def)
  then show ?case using Cons by (auto simp: dst_micros_def micro_ok_def)
qed simp

lemma sender_micros_start: "starts_with_header (sender_micros c w sd ais k)"
  by (cases ais) (simp_all add: starts_with_header_def dst_micros_def)

text \<open>
  C25. Whatever the interleaving of any number of senders of one process, every packet handed to the
  network is an echo request with the identifier of the process.
\<close>

theorem race_echo_requests:
  assumes "senders_reach (c_max_load c) (map (\<lambda>(w, sd, ais). sender_micros c w sd ais 0) ts, buf, [])
      (ths, buf', out)"
    and "load_ok (c_max_load c)" and "length buf = BUFSIZE" and "\<forall>(w, sd, ais) \<in> set ts. sd_pid sd = pid"
    and "(ai, pkt) \<in> set out"
  shows "field 0 2 pkt = [8, 0] \<and> field 4 2 pkt = le_bytes 2 (word_of_int pid :: u16)"
proof -
  have "race_inv pid (map (\<lambda>(w, sd, ais). sender_micros c w sd ais 0) ts, buf, [])"
    using assms(3,4) micros_ok [OF assms(2)] sender_micros_start by (fastforce simp: race_inv_def)
  then have "race_inv pid (ths, buf', out)" using race_inv_reach [OF assms(1)] assms(2) by blast
  then show ?thesis using assms(5) by (auto simp: race_inv_def)
qed


section \<open>A schedule that mixes up two senders\<close>

text \<open>A run in which the threads take their turns in the order of a list.\<close>

fun run_schedule :: "int \<Rightarrow> nat list \<Rightarrow> 'a micro list list \<times> 'a wire \<Rightarrow> 'a micro list list \<times> 'a wire" where
  "run_schedule max_load [] s = s"
| "run_schedule max_load (i # is) (ths, w) =
     (if i < length ths \<and> ths ! i \<noteq> []
      then run_schedule max_load is (ths[i := tl (ths ! i)], exec_micro max_load (hd (ths ! i)) w)
      else run_schedule max_load is (ths, w))"

lemma run_schedule_reach: "senders_reach max_load s (run_schedule max_load is s)"
proof (induction max_load "is" s rule: run_schedule.induct)
  case (2 max_load i "is" ths w)
  show ?case
  proof (cases "i < length ths \<and> ths ! i \<noteq> []")
    case True
    then have "sender_step max_load (ths, w) (ths[i := tl (ths ! i)], exec_micro max_load (hd (ths ! i)) w)"
      by (intro turn) auto
    then show ?thesis using 2(1) [OF True] True by (simp add: senders_reach_def)
  next
    case False
    then have "run_schedule max_load (i # is) (ths, w) = run_schedule max_load is (ths, w)"
      by (simp only: run_schedule.simps if_False)
    then show ?thesis using 2(2) [OF False] by (simp only:)
  qed
qed (simp add: senders_reach_def)

lemma first_probes_swapped:
  assumes "load_ok (c_max_load c)" and "0 < c_pfr_ping_req c" and "length buf = BUFSIZE"
  shows "\<exists>ths buf' pkt. senders_reach (c_max_load c)
      ([sender_micros c w1 sd1 [ai1] 0, sender_micros c w2 sd2 [ai2] 0], buf, []) (ths, buf', [(ai1, pkt)])
    \<and> ths ! 0 = train_micros c w1 sd1 ai1 [1..c_pfr_ping_req c - 1] 1
    \<and> probe_packet sd2 0 pkt"
proof -
  let ?ml = "c_max_load c"
  let ?block = "\<lambda>w sd. payload_block (o_heap w 0) ?ml (probe_payload (probe_of w sd 0 0))"
  let ?rest = "\<lambda>w sd ai. train_micros c w sd ai [1..c_pfr_ping_req c - 1] 1"
  have ms: "sender_micros c w sd [ai] 0
      = Header (sd_pid sd) # Seq 0 # Payload (?block w sd) # Cksum # Sendto ai # ?rest w sd ai" for w sd ai
    using assms(2) by (simp add: dst_micros_def upto_rec1 [of 0] probe_micros_def)
  let ?buf1 = "poke 8 (?block w1 sd1) (write_seq 0 (write_header (sd_pid sd1) buf))"
  let ?buf2 = "write_header (sd_pid sd2) ?buf1"
  let ?buf3 = "write_cksum ?ml (poke 8 (?block w2 sd2) (write_seq 0 ?buf2))"
  let ?s = "([sender_micros c w1 sd1 [ai1] 0, sender_micros c w2 sd2 [ai2] 0], buf, [])"
  have "run_schedule ?ml [0, 0, 0, 1, 1, 1, 0, 0] ?s
      = ([?rest w1 sd1 ai1, Cksum # Sendto ai2 # ?rest w2 sd2 ai2], ?buf3, [(ai1, take (packet_len ?ml) ?buf3)])"
    unfolding ms by simp
  then have reach: "senders_reach ?ml ?s ([?rest w1 sd1 ai1, Cksum # Sendto ai2 # ?rest w2 sd2 ai2], ?buf3,
      [(ai1, take (packet_len ?ml) ?buf3)])"
    using run_schedule_reach [of ?ml ?s] by metis
  let ?st = "\<lparr>sendbuf = ?buf2, probes_made = 0, sent = []\<rparr> :: 'a send_state"
  have sp: "send_probe c w2 sd2 ai1 0 ?st = Inr \<lparr>sendbuf = ?buf3, probes_made = 1,
      sent = [(ai1, take (packet_len ?ml) ?buf3)]\<rparr>"
    using assms(1) by (simp add: send_probe_def Let_def fill_sendbuf_def write_payload_def probe_of_def)
  have "length ?buf1 = BUFSIZE"
    using assms(1,3) load_bounds [OF assms(1)]
    by (simp add: write_header_def write_seq_def BUFSIZE_def)
  then have "has_header (sd_pid sd2) ?buf2" by (rule has_header_write)
  then have "probe_packet sd2 0 (take (packet_len ?ml) ?buf3)"
    using send_probe_packet(2) [OF sp] by auto
  then show ?thesis using reach by (intro exI conjI) (assumption, simp_all)
qed


theorem race_echo_requests_witness:
  "\<exists>ths buf' pkt. senders_reach (c_max_load initial_config)
      (map (\<lambda>(w, sd, ais). sender_micros initial_config w sd ais 0)
        [(example_outside, sender_of 4711 1 3 98, [''10.0.0.1'']), (example_outside, sender_of 4711 2 3 99, [''10.0.0.2''])],
       replicate BUFSIZE 0, []) (ths, buf', [(''10.0.0.1'', pkt)])
    \<and> field 0 2 pkt = [8, 0] \<and> field 4 2 pkt = le_bytes 2 (word_of_int (sd_pid (sender_of 4711 1 3 98)) :: u16)"
proof -
  let ?ts = "[(example_outside, sender_of 4711 1 3 98, [''10.0.0.1'']), (example_outside, sender_of 4711 2 3 99, [''10.0.0.2''])]"
  have load: "load_ok (c_max_load initial_config)" by (simp add: load_ok_def initial_config_def)
  have "0 < c_pfr_ping_req initial_config" "length (replicate BUFSIZE (0 :: u8)) = BUFSIZE"
    by (simp_all add: initial_config_def)
  from first_probes_swapped [OF load this, of example_outside "sender_of 4711 1 3 98" "''10.0.0.1''"
      example_outside "sender_of 4711 2 3 99" "''10.0.0.2''"]
  obtain ths buf' pkt where reach: "senders_reach (c_max_load initial_config)
      (map (\<lambda>(w, sd, ais). sender_micros initial_config w sd ais 0) ?ts, replicate BUFSIZE 0, [])
      (ths, buf', [(''10.0.0.1'', pkt)])" by auto
  have "field 0 2 pkt = [8, 0]
      \<and> field 4 2 pkt = le_bytes 2 (word_of_int (sd_pid (sender_of 4711 1 3 98)) :: u16)"
    by (rule race_echo_requests [OF reach load, of _ "''10.0.0.1''"]) (simp_all add: sender_of_def)
  then show ?thesis using reach by blast
qed


end
