(* ===== verification/Pfr_Log_Thread.thy ===== *)
theory Pfr_Log_Thread
  imports Pfr_Sql_Log Pfr_Routes Ping_Proc
begin

text \<open>
  The thread that writes the log to the database, beside the other threads (\<open>pfr_route_scan_sql\<close> in
  \<open>src/src/pfr_rdata.cpp\<close>, started in \<open>src/src/pfrd.cpp\<close>).

  \<open>main\<close> starts the thread after the scan and does not wait for it, and the thread takes no lock
  around its loop over \<open>r\<close>.  Meanwhile \<open>main\<close> frees the samples of an old round and removes silent
  destinations, and \<open>readloop\<close> stores the answers of the next round.  The thread is modelled with its
  iterator: a step is the body of its loop for the destination the iterator stands on, and \<open>++\<close>.  The
  others make changes between the steps.
\<close>


section \<open>The thread and the others\<close>

text \<open>\<open>ls_at\<close> is the key the iterator stands on, \<open>None\<close> is \<open>r.end()\<close>.\<close>

record log_state =
  ls_at :: "string option"
  ls_shared :: "rdata \<times> double"
  ls_log :: pfr_sql_log

definition next_key :: "string \<Rightarrow> r_map \<Rightarrow> string option" where
  "next_key k m = find (\<lambda>x. k < x) (sm_keys m)"

definition log_start :: "rdata \<times> double \<Rightarrow> pfr_sql_log \<Rightarrow> log_state" where
  "log_start sh l = \<lparr>ls_at = (case sm_keys (r (fst sh)) of [] \<Rightarrow> None | k # _ \<Rightarrow> Some k),
     ls_shared = sh, ls_log = l\<rparr>"

definition log_step :: "config \<Rightarrow> int \<Rightarrow> log_state \<Rightarrow> log_state res" where
  "log_step c probe_id st =
     (case ls_at st of
        None \<Rightarrow> Inr st
      | Some k \<Rightarrow>
          (if sm_find (r (fst (ls_shared st))) k = None
           then Inl (Undefined_Behaviour ''iterator of an erased element'')
           else res_map (\<lambda>(sh, l). \<lparr>ls_at = next_key k (r (fst sh)), ls_shared = sh, ls_log = l\<rparr>)
             (sql_dst c probe_id k (ls_shared st, ls_log st))))"

text \<open>
  What the others do: a step of \<open>pfr_route_free\<close> in the round \<open>probe_id\<close>, an answer that \<open>proc_v4\<close> stores,
  the removal of a destination by \<open>pfr_delete\<close>.
\<close>

datatype log_event =
    Log_Thread
  | Free_Dst string
  | Store_Answer string int int int tparm
  | Remove_Dst string

fun others :: "int \<Rightarrow> log_event \<Rightarrow> rdata \<Rightarrow> rdata" where
  "others probe_id Log_Thread s = s"
| "others probe_id (Free_Dst d) s = free_dst (probe_id - 2) d s"
| "others probe_id (Store_Answer src p peer_id seq tp) s = store_sample src p peer_id seq tp s"
| "others probe_id (Remove_Dst d) s = s\<lparr>r := sm_erase d (r s), route := sm_erase d (route s)\<rparr>"

definition log_event_step :: "config \<Rightarrow> int \<Rightarrow> log_event \<Rightarrow> log_state \<Rightarrow> log_state res" where
  "log_event_step c probe_id ev st =
     (if ev = Log_Thread then log_step c probe_id st
      else Inr (st\<lparr>ls_shared := (others probe_id ev (fst (ls_shared st)), snd (ls_shared st))\<rparr>))"

definition log_run :: "config \<Rightarrow> int \<Rightarrow> log_event list \<Rightarrow> log_state \<Rightarrow> log_state res" where
  "log_run c probe_id = fold_res (log_event_step c probe_id)"


section \<open>What the thread reads\<close>

definition log_view :: "int \<Rightarrow> rdata \<Rightarrow> string \<Rightarrow> peer_map \<times> rt_parm option option" where
  "log_view n s d = (peers_of (r s) d n, route_at (route s) d (n - 1))"

text \<open>Events that keep the destinations and, of each, the samples of this round and the route before.\<close>

fun harmless :: "int \<Rightarrow> string set \<Rightarrow> log_event \<Rightarrow> bool" where
  "harmless n ks Log_Thread \<longleftrightarrow> True"
| "harmless n ks (Free_Dst d) \<longleftrightarrow> d \<in> ks"
| "harmless n ks (Store_Answer src p _ _ _) \<longleftrightarrow> src \<in> ks \<and> p \<noteq> n"
| "harmless n ks (Remove_Dst d) \<longleftrightarrow> d \<notin> ks"

lemma peers_of_store:
  assumes "p \<noteq> n"
  shows "peers_of (r (store_sample src p k seq tp s)) d n = peers_of (r s) d n"
  using assms by (auto simp: store_sample_def peers_of_def sm_at_def split: option.split)

lemma store_sample_keys:
  "sm_find (r s) src \<noteq> None \<Longrightarrow>
    sm_find (r (store_sample src p k seq tp s)) d \<noteq> None \<longleftrightarrow> sm_find (r s) d \<noteq> None"
  by (auto simp: store_sample_def split: option.split)

lemma others_view:
  assumes "harmless n (set (sm_keys (r s))) ev"
  shows "sm_keys (r (others n ev s)) = sm_keys (r s)"
    and "d \<in> set (sm_keys (r s)) \<Longrightarrow> log_view n (others n ev s) d = log_view n s d"
proof -
  have "sm_find (r (others n ev s)) d \<noteq> None \<longleftrightarrow> sm_find (r s) d \<noteq> None" for d
  proof (cases ev)
    case (Store_Answer src p k seq tp)
    then show ?thesis using assms store_sample_keys [of s src] by (simp add: sm_in_keys)
  qed (use assms in \<open>auto simp: sm_in_keys free_dst_def set_peers_def\<close>)
  then show "sm_keys (r (others n ev s)) = sm_keys (r s)" by (rule sm_keys_eqI)
  assume d: "d \<in> set (sm_keys (r s))"
  show "log_view n (others n ev s) d = log_view n s d"
  proof (cases ev)
    case (Store_Answer src p k seq tp)
    then have "route (others n ev s) = route s" by (simp add: store_sample_def split: option.split)
    then show ?thesis using Store_Answer assms peers_of_store by (simp add: log_view_def)
  next
    case (Remove_Dst e)
    then have "e \<noteq> d" using assms d by auto
    then show ?thesis by (simp add: Remove_Dst log_view_def peers_of_def route_at_def sm_at_def)
  qed (simp_all add: log_view_def)
qed


section \<open>The thread alone and in company\<close>

text \<open>The body reads of \<open>r\<close> and \<open>route\<close> only the view of its destination, and changes no other view.\<close>

definition sql_out ::
  "config \<Rightarrow> int \<Rightarrow> string \<Rightarrow> peer_map \<times> rt_parm option option \<Rightarrow> double \<Rightarrow> pfr_sql_log \<Rightarrow> pfr_sql_log res" where
  "sql_out c n k = (\<lambda>(ps, prev) m l.
     res_bind (scan_select ''metric0'' n ps m) (\<lambda>sel.
     res_bind (sql_row 0 k n ps (snd sel)) (\<lambda>row.
     if n < 0 then Inr l
     else res_bind (sql_case n prev (snd sel)) (\<lambda>q. sql_insert (c_pfr_ping_req c) (row\<lparr>lr_ccase := q\<rparr>) l))))"

lemma sql_dst_out:
  "sql_dst c n k ((s, m), l) = res_map (\<lambda>l'. ((s\<lparr>r := set_peers k n (touch99 n (peers_of (r s) k n)) (r s),
      scan_new_cnt := scan_new_cnt s + (if n = 0 \<and> entries (peers_of (r s) k n) \<noteq> [] then 1 else 0)\<rparr>, Fin 50000), l'))
    (sql_out c n k (log_view n s k) m l)"
proof -
  have bind: "res_bind x (\<lambda>y. res_map f (g y)) = res_map f (res_bind x g)" for x :: "'a res" and f :: "'b \<Rightarrow> 'c" and g
    by (cases x) simp_all
  show ?thesis
    by (cases "n < 0") (simp_all add: sql_dst_def sql_out_def log_view_def Let_def bind [symmetric])
qed

lemma sql_dst_view:
  assumes "sql_dst c n k ((s, m), l) = Inr ((s1, m1), l1)" and "log_view n s' k = log_view n s k"
  shows "\<exists>s1'. sql_dst c n k ((s', m), l) = Inr ((s1', m1), l1)
    \<and> (\<forall>d. sm_find (r s1') d \<noteq> None \<longleftrightarrow> d = k \<or> sm_find (r s') d \<noteq> None)
    \<and> (\<forall>d. d \<noteq> k \<longrightarrow> log_view n s1' d = log_view n s' d)"
proof -
  let ?s1' = "s'\<lparr>r := set_peers k n (touch99 n (peers_of (r s') k n)) (r s'),
    scan_new_cnt := scan_new_cnt s' + (if n = 0 \<and> entries (peers_of (r s') k n) \<noteq> [] then 1 else 0)\<rparr>"
  have out: "sql_out c n k (log_view n s k) m l = Inr l1" "m1 = Fin 50000"
    using assms(1) by (auto simp: sql_dst_out res_map_Inr_iff)
  have "sql_dst c n k ((s', m), l) = Inr ((?s1', m1), l1)"
    unfolding sql_dst_out assms(2) out by simp
  moreover have "sm_find (r ?s1') d \<noteq> None \<longleftrightarrow> d = k \<or> sm_find (r s') d \<noteq> None" for d
    by (simp add: set_peers_def)
  moreover have "log_view n ?s1' d = log_view n s' d" if "d \<noteq> k" for d
    using that by (simp add: log_view_def)
  ultimately show ?thesis by blast
qed

lemma sql_dst_other:
  assumes "sql_dst c n k ((s, m), l) = Inr ((s1, m1), l1)" and "d \<noteq> k"
  shows "log_view n s1 d = log_view n s d"
  using assms by (auto simp: sql_dst_out res_map_Inr_iff log_view_def)

lemma next_key_sorted:
  assumes "sm_keys m = ks @ k # rest"
  shows "next_key k m = (case rest of [] \<Rightarrow> None | x # _ \<Rightarrow> Some x)"
proof -
  have "sorted_wrt (<) (ks @ k # rest)" using sorted_sm_keys [of m] assms by simp
  then have lt: "\<forall>x \<in> set ks. x < k" "\<forall>x \<in> set rest. k < x" by (auto simp: sorted_wrt_append)
  then have "find (\<lambda>x. k < x) ks = None" by (auto simp: find_None_iff)
  moreover have "find (\<lambda>x. k < x) rest = (case rest of [] \<Rightarrow> None | x # _ \<Rightarrow> Some x)"
    using lt(2) by (cases rest) simp_all
  ultimately show ?thesis by (simp add: next_key_def assms find_append)
qed

text \<open>A step of the thread is the body of the loop alone, as far as it reads the same.\<close>

lemma log_step_body:
  assumes keys: "sm_keys (r s') = done @ k # ks"
    and one: "sql_dst c n k ((s, m), l) = Inr ((s2, m2), l2)"
    and view: "\<forall>d \<in> set (k # ks). log_view n s' d = log_view n s d"
  obtains s2' where "log_step c n \<lparr>ls_at = Some k, ls_shared = (s', m), ls_log = l\<rparr>
      = Inr \<lparr>ls_at = (case ks of [] \<Rightarrow> None | x # _ \<Rightarrow> Some x), ls_shared = (s2', m2), ls_log = l2\<rparr>"
    and "sm_keys (r s2') = (done @ [k]) @ ks" and "\<forall>d \<in> set ks. log_view n s2' d = log_view n s2 d"
proof -
  have "log_view n s' k = log_view n s k" using view by simp
  then obtain s2' where one': "sql_dst c n k ((s', m), l) = Inr ((s2', m2), l2)"
    and known': "\<forall>d. sm_find (r s2') d \<noteq> None \<longleftrightarrow> d = k \<or> sm_find (r s') d \<noteq> None"
    and kept: "\<forall>d. d \<noteq> k \<longrightarrow> log_view n s2' d = log_view n s' d"
    using sql_dst_view [OF one] by blast
  have known: "sm_find (r s') k \<noteq> None" using keys sm_in_keys [of k "r s'"] by simp
  have "sm_find (r s2') d \<noteq> None \<longleftrightarrow> sm_find (r s') d \<noteq> None" for d
    using known' known by (cases "d = k") (simp_all del: not_None_eq)
  then have "sm_keys (r s2') = sm_keys (r s')" by (rule sm_keys_eqI)
  then have k2: "sm_keys (r s2') = (done @ [k]) @ ks" using keys by simp
  then have "next_key k (r s2') = (case ks of [] \<Rightarrow> None | x # _ \<Rightarrow> Some x)"
    using next_key_sorted [of "r s2'" "done" k ks] by simp
  then have "log_step c n \<lparr>ls_at = Some k, ls_shared = (s', m), ls_log = l\<rparr>
      = Inr \<lparr>ls_at = (case ks of [] \<Rightarrow> None | x # _ \<Rightarrow> Some x), ls_shared = (s2', m2), ls_log = l2\<rparr>"
    using known one' by (simp add: log_step_def del: not_None_eq)
  moreover have "log_view n s2' d = log_view n s2 d" if d: "d \<in> set ks" for d
  proof -
    have "d \<noteq> k" using d keys smap.distinct_keys [of "r s'"] by auto
    then show ?thesis using kept sql_dst_other [OF one, of d] view d by simp
  qed
  ultimately show thesis using that k2 by blast
qed

text \<open>
  The run beside the others is in step with the loop alone: same log, same minimum, the iterator on
  the first of the remaining destinations, and equal views of these.
\<close>

lemma log_run_simulates:
  assumes "fold_res (sql_dst c n) rest ((s, m), l) = Inr ((s1, m1), l1)"
    and "sm_keys (r s') = done @ rest"
    and "\<forall>d \<in> set rest. log_view n s' d = log_view n s d"
    and "\<forall>ev \<in> set evs. harmless n (set (done @ rest)) ev"
    and "length rest \<le> length (filter (\<lambda>ev. ev = Log_Thread) evs)"
  shows "\<exists>s1'. log_run c n evs \<lparr>ls_at = (case rest of [] \<Rightarrow> None | k # _ \<Rightarrow> Some k), ls_shared = (s', m), ls_log = l\<rparr>
      = Inr \<lparr>ls_at = None, ls_shared = (s1', m1), ls_log = l1\<rparr>"
  using assms
proof (induction evs arbitrary: rest "done" s s' m l)
  case Nil
  then show ?case by (simp add: log_run_def)
next
  case (Cons ev evs)
  show ?case
  proof (cases "ev = Log_Thread")
    case False
    have "harmless n (set (sm_keys (r s'))) ev" using Cons.prems(2,4) by simp
    then have "sm_keys (r (others n ev s')) = done @ rest"
      "\<forall>d \<in> set rest. log_view n (others n ev s') d = log_view n s d"
      using others_view [of n s' ev] Cons.prems(2,3) by simp_all
    from Cons.IH [OF Cons.prems(1) this] show ?thesis
      using Cons.prems(4,5) False by (simp add: log_run_def log_event_step_def)
  next
    case True
    show ?thesis
    proof (cases rest)
      case Nil
      then show ?thesis
        using Cons.IH [of "[]" s m l s' "done"] Cons.prems True
        by (simp add: log_run_def log_event_step_def log_step_def)
    next
      case (Cons k ks)
      obtain s2 m2 l2 where one: "sql_dst c n k ((s, m), l) = Inr ((s2, m2), l2)"
        and more: "fold_res (sql_dst c n) ks ((s2, m2), l2) = Inr ((s1, m1), l1)"
        using Cons.prems(1) unfolding \<open>rest = k # ks\<close> by (auto elim!: res_bind_InrE)
      obtain s2' where step: "log_step c n \<lparr>ls_at = Some k, ls_shared = (s', m), ls_log = l\<rparr>
          = Inr \<lparr>ls_at = (case ks of [] \<Rightarrow> None | x # _ \<Rightarrow> Some x), ls_shared = (s2', m2), ls_log = l2\<rparr>"
        and next_views: "sm_keys (r s2') = (done @ [k]) @ ks" "\<forall>d \<in> set ks. log_view n s2' d = log_view n s2 d"
        using log_step_body [OF Cons.prems(2) [unfolded \<open>rest = k # ks\<close>] one] Cons.prems(3) \<open>rest = k # ks\<close> by blast
      from Cons.IH [OF more next_views] show ?thesis
        using Cons.prems(4,5) step True \<open>rest = k # ks\<close> by (simp add: log_run_def log_event_step_def)
    qed
  qed
qed

section \<open>Properties\<close>

text \<open>
  C16. The log thread beside the other threads: as long as no destination comes or goes and the answers
  that arrive are of other rounds, whatever \<open>pfr_route_free\<close> frees and \<open>readloop\<close> stores between its
  steps, the thread ends and its log holds exactly the rows that it would have written alone.
\<close>

theorem log_thread_undisturbed:
  assumes "fold_res (sql_dst c n) (sm_keys (r s)) ((s, m), l) = Inr ((s1, m1), l1)"
    and "\<forall>ev \<in> set evs. harmless n (set (sm_keys (r s))) ev"
    and "size (r s) \<le> length (filter (\<lambda>ev. ev = Log_Thread) evs)"
  shows "\<exists>s'. log_run c n evs (log_start (s, m) l) = Inr \<lparr>ls_at = None, ls_shared = (s', m1), ls_log = l1\<rparr>"
  using log_run_simulates [OF assms(1), of s "[]" evs] assms(2,3)
  by (simp add: log_start_def size_std_map_def sm_keys_def)



section \<open>Examples\<close>

definition example_log :: pfr_sql_log where
  "example_log = \<lparr>allow_sql_log = Some True, ins_head = first_head, ins_multi = [], statements = []\<rparr>"

definition example_two :: rdata where
  "example_two = initial_rdata\<lparr>r := sm_put ''10.0.0.1'' sm_empty (sm_put ''10.0.0.2'' sm_empty sm_empty)\<rparr>"

lemma example_two_keys: "sm_keys (r example_two) = [''10.0.0.1'', ''10.0.0.2'']"
  by (simp add: example_two_def initial_rdata_def sm_keys_def sm_put.rep_eq)

lemma example_two_alone:
  obtains s1 m1 l1 where "fold_res (sql_dst initial_config 2) (sm_keys (r example_two)) ((example_two, Fin 50000), example_log)
    = Inr ((s1, m1), l1)"
proof -
  have "case fold_res (sql_dst initial_config 2) (sm_keys (r example_two)) ((example_two, Fin 50000), example_log)
    of Inl _ \<Rightarrow> False | Inr _ \<Rightarrow> True" by code_simp
  then show thesis using that by (auto split: sum.splits)
qed

theorem log_thread_undisturbed_witness:
  "\<exists>s' s1 m1 l1. fold_res (sql_dst initial_config 2) (sm_keys (r example_two)) ((example_two, Fin 50000), example_log)
      = Inr ((s1, m1), l1)
    \<and> log_run initial_config 2 [Log_Thread, Free_Dst ''10.0.0.2'',
        Store_Answer ''10.0.0.1'' 3 1 0 (tparm_new (Fin 12) (Fin 0) 0 7), Log_Thread]
      (log_start (example_two, Fin 50000) example_log)
      = Inr \<lparr>ls_at = None, ls_shared = (s', m1), ls_log = l1\<rparr>"
proof -
  obtain s1 m1 l1 where alone: "fold_res (sql_dst initial_config 2) (sm_keys (r example_two))
      ((example_two, Fin 50000), example_log) = Inr ((s1, m1), l1)" by (rule example_two_alone)
  have "size (r example_two) = 2" using example_two_keys by (auto simp: size_std_map_def sm_keys_def map_eq_Cons_conv)
  then show ?thesis
    using log_thread_undisturbed [OF alone, of "[Log_Thread, Free_Dst ''10.0.0.2'',
        Store_Answer ''10.0.0.1'' 3 1 0 (tparm_new (Fin 12) (Fin 0) 0 7), Log_Thread]"] alone
    by (simp add: example_two_keys)
qed


end
