(* ===== verification/Pfr_Late.thy ===== *)
theory Pfr_Late
  imports Pfr_Log_Thread Pfr_Main
begin

text \<open>
  Answers that arrive while a round is evaluated (\<open>src/src/pfrd.cpp\<close>, \<open>ping_readloop.cpp\<close>).

  \<open>main\<close> holds \<open>mt_req_send\<close> while it evaluates, but \<open>readloop\<close> stores a packet before it locks: the
  packet of its current pass may be stored at any point of the loops of \<open>pfr_calc_avg_rtt\<close>,
  \<open>pfr_calc_stddev_rtt\<close> and \<open>pfr_route_scan\<close>.  The three loops are modelled with their iterators, one
  step of \<open>main\<close> per destination and one between the loops, and the stored answers as events between
  the steps.  (Within the body for a destination the code has no defined order: both threads would be
  in the same map.)
\<close>


section \<open>The loops, step by step\<close>

datatype eval_phase = Averages | Deviations | Scanning | Evaluated

text \<open>\<open>ev_at\<close> is the key the iterator of the loop stands on, \<open>None\<close> is \<open>r.end()\<close>.\<close>

record eval_state =
  ev_phase :: eval_phase
  ev_at :: "string option"
  ev_shared :: "rdata \<times> double"

definition first_key :: "r_map \<Rightarrow> string option" where
  "first_key m = (case sm_keys m of [] \<Rightarrow> None | k # _ \<Rightarrow> Some k)"

definition eval_start :: "rdata \<times> double \<Rightarrow> eval_state" where
  "eval_start sh = \<lparr>ev_phase = Averages, ev_at = first_key (r (fst sh)), ev_shared = sh\<rparr>"

fun eval_body ::
  "config \<Rightarrow> perf_cont \<Rightarrow> int \<Rightarrow> eval_phase \<Rightarrow> string \<Rightarrow> rdata \<times> double \<Rightarrow> (rdata \<times> double) res" where
  "eval_body c ppm n Averages k (s, m) = res_map (\<lambda>s'. (s', m)) (calc_avg_dst c ppm n k s)"
| "eval_body c ppm n Deviations k (s, m) = res_map (\<lambda>s'. (s', m)) (calc_stddev_dst n k s)"
| "eval_body c ppm n Scanning k (s, m) = scan_dst c n k (s, m)"
| "eval_body c ppm n Evaluated k (s, m) = Inr (s, m)"

fun next_phase :: "eval_phase \<Rightarrow> eval_phase" where
  "next_phase Averages = Deviations"
| "next_phase Deviations = Scanning"
| "next_phase Scanning = Evaluated"
| "next_phase Evaluated = Evaluated"

definition eval_step :: "config \<Rightarrow> perf_cont \<Rightarrow> int \<Rightarrow> eval_state \<Rightarrow> eval_state res" where
  "eval_step c ppm n st =
     (case ev_at st of
        None \<Rightarrow>
          (let ph = next_phase (ev_phase st)
           in Inr (st\<lparr>ev_phase := ph,
                ev_at := (if ph = Evaluated then None else first_key (r (fst (ev_shared st))))\<rparr>))
      | Some k \<Rightarrow>
          (if sm_find (r (fst (ev_shared st))) k = None
           then Inl (Undefined_Behaviour ''iterator of an erased element'')
           else res_map (\<lambda>sh. st\<lparr>ev_at := next_key k (r (fst sh)), ev_shared := sh\<rparr>)
             (eval_body c ppm n (ev_phase st) k (ev_shared st))))"

text \<open>An event is a step of \<open>main\<close> or an answer that \<open>proc_v4\<close> stores.\<close>

datatype eval_event = Main_Step | Late_Answer string int int int tparm

fun late_answer :: "eval_event \<Rightarrow> rdata \<Rightarrow> rdata" where
  "late_answer Main_Step s = s"
| "late_answer (Late_Answer src p peer_id seq tp) s = store_sample src p peer_id seq tp s"

definition eval_event_step ::
  "config \<Rightarrow> perf_cont \<Rightarrow> int \<Rightarrow> eval_event \<Rightarrow> eval_state \<Rightarrow> eval_state res" where
  "eval_event_step c ppm n ev st =
     (if ev = Main_Step then eval_step c ppm n st
      else Inr (st\<lparr>ev_shared := apfst (late_answer ev) (ev_shared st)\<rparr>))"

definition eval_run :: "config \<Rightarrow> perf_cont \<Rightarrow> int \<Rightarrow> eval_event list \<Rightarrow> eval_state \<Rightarrow> eval_state res" where
  "eval_run c ppm n = fold_res (eval_event_step c ppm n)"

text \<open>The same code with nobody beside it.\<close>

definition evaluate_alone :: "config \<Rightarrow> perf_cont \<Rightarrow> int \<Rightarrow> rdata \<times> double \<Rightarrow> (rdata \<times> double) res" where
  "evaluate_alone c ppm n = (\<lambda>(s, m).
     res_bind (pfr_calc_avg_rtt c ppm n s) (\<lambda>s1.
     res_bind (pfr_calc_stddev_rtt n s1) (\<lambda>s2.
     pfr_route_scan c n (s2, m))))"


section \<open>An answer of another round commutes with the bodies\<close>

text \<open>Answers of known destinations to probes of other rounds than \<open>n\<close>.\<close>

fun late_for :: "int \<Rightarrow> (string \<Rightarrow> bool) \<Rightarrow> eval_event \<Rightarrow> bool" where
  "late_for n known Main_Step \<longleftrightarrow> True"
| "late_for n known (Late_Answer src p _ _ _) \<longleftrightarrow> known src \<and> p \<noteq> n"

definition is_known :: "r_map \<Rightarrow> string \<Rightarrow> bool" where
  "is_known m d \<longleftrightarrow> sm_find m d \<noteq> None"

lemma modify_other_commute:
  assumes "p \<noteq> n"
  shows "sm_modify sm_empty src (sm_modify sm_empty p f) (set_peers d n ps m)
    = set_peers d n ps (sm_modify sm_empty src (sm_modify sm_empty p f) m)"
proof (cases "src = d")
  case True
  have "sm_modify sm_empty p f (sm_put n ps x) = sm_put n ps (sm_modify sm_empty p f x)" for x
    using assms by (intro sm_eqI) simp
  then show ?thesis using True by (intro sm_eqI) (simp add: set_peers_def)
next
  case False
  then show ?thesis by (intro sm_eqI) (auto simp: set_peers_def)
qed

lemma seqs_of_set_other: "p \<noteq> n \<Longrightarrow> seqs_of (set_peers d n ps m) src p k = seqs_of m src p k"
  by (simp add: seqs_of_def)

text \<open>What the body for \<open>d\<close> reads, and how it writes.\<close>

lemma store_sample_frame:
  "route (store_sample src p k seq tp s) = route s"
  "route_log1 (store_sample src p k seq tp s) = route_log1 s"
  "avg_rtt_new_cnt (store_sample src p k seq tp s) = avg_rtt_new_cnt s"
  "scan_new_cnt (store_sample src p k seq tp s) = scan_new_cnt s"
  by (simp_all add: store_sample_def split: option.split)

lemma store_sample_round:
  assumes "p \<noteq> n"
  shows "store_sample src p k seq tp (s\<lparr>r := set_peers d n ps (r s)\<rparr>)
      = (store_sample src p k seq tp s)\<lparr>r := set_peers d n ps (r (store_sample src p k seq tp s))\<rparr>"
    and "store_sample src p k seq tp (s\<lparr>r := set_peers d n ps (r s), avg_rtt_new_cnt := a\<rparr>)
      = (store_sample src p k seq tp s)\<lparr>r := set_peers d n ps (r (store_sample src p k seq tp s)), avg_rtt_new_cnt := a\<rparr>"
    and "store_sample src p k seq tp (s\<lparr>r := set_peers d n ps (r s), route_log1 := l\<rparr>)
      = (store_sample src p k seq tp s)\<lparr>r := set_peers d n ps (r (store_sample src p k seq tp s)), route_log1 := l\<rparr>"
    and "store_sample src p k seq tp (s\<lparr>r := set_peers d n ps (r s), route := rt, scan_new_cnt := sc, route_log1 := l\<rparr>)
      = (store_sample src p k seq tp s)\<lparr>r := set_peers d n ps (r (store_sample src p k seq tp s)), route := rt,
          scan_new_cnt := sc, route_log1 := l\<rparr>"
  using assms by (simp_all add: store_sample_def seqs_of_set_other modify_other_commute split: option.split)

lemma res_map_comp: "res_map f (res_map g m) = res_map (\<lambda>x. f (g x)) m"
  by (cases m) simp_all

lemma res_map_bind: "res_map f (res_bind m g) = res_bind m (\<lambda>x. res_map f (g x))"
  by (cases m) simp_all

lemma res_bind_cong: "(\<And>x. f x = g x) \<Longrightarrow> res_bind m f = res_bind m g"
  by (cases m) simp_all

lemma eval_body_late:
  assumes "p \<noteq> n"
  shows "eval_body c ppm n ph d (apfst (store_sample src p k seq tp) sh)
    = res_map (apfst (store_sample src p k seq tp)) (eval_body c ppm n ph d sh)"
proof -
  obtain s m where sh: "sh = (s, m)" by (cases sh)
  note late = peers_of_store [OF assms] store_sample_frame store_sample_round [OF assms]
  show ?thesis
  proof (cases ph)
    case Averages
    then show ?thesis by (simp add: sh calc_avg_dst_def Let_def late res_map_comp)
  next
    case Deviations
    then show ?thesis by (simp add: sh calc_stddev_dst_def Let_def late res_map_comp)
  next
    case Scanning
    have "eval_body c ppm n Scanning d (store_sample src p k seq tp s, m)
        = res_map (apfst (store_sample src p k seq tp)) (eval_body c ppm n Scanning d (s, m))"
      unfolding eval_body.simps scan_dst_def case_prod_conv Let_def res_map_bind
    proof (simp only: late, intro res_bind_cong, goal_cases)
      case (1 sel z)
      consider "n = 0" | "0 < n" | "n < 0" by linarith
      then show ?case
        by cases (use assms in \<open>simp_all add: store_sample_frame store_sample_round res_map_bind split: list.split\<close>)
    qed
    then show ?thesis by (simp add: sh Scanning)
  qed (simp add: sh)
qed

lemma is_known_set_peers: "is_known (set_peers d n ps m) x \<longleftrightarrow> x = d \<or> is_known m x"
  unfolding is_known_def by (rule known_set_peers)

text \<open>No body adds or removes a destination.\<close>

lemma eval_body_keys:
  assumes "eval_body c ppm n ph d sh = Inr sh'" and "is_known (r (fst sh)) d"
  shows "is_known (r (fst sh')) = is_known (r (fst sh))"
proof -
  obtain s m s' m' where sh: "sh = (s, m)" "sh' = (s', m')" by (cases sh; cases sh')
  have "ph = Evaluated \<and> s' = s \<or> (\<exists>ps. r s' = set_peers d n ps (r s))"
  proof (cases ph)
    case Scanning
    then have "r s' = set_peers d n (touch99 n (peers_of (r s) d n)) (r s)"
      using assms(1) by (auto simp: sh scan_dst_def Let_def elim!: res_bind_InrE split: if_splits list.splits)
    then show ?thesis by blast
  qed (use assms(1) in \<open>auto simp: sh calc_avg_dst_def calc_stddev_dst_def Let_def res_map_Inr_iff\<close>)
  then show ?thesis
    using assms(2) by (auto simp: sh is_known_set_peers fun_eq_iff)
qed

lemma is_known_keys: "is_known m = is_known m' \<Longrightarrow> sm_keys m = sm_keys m'"
  by (intro sm_keys_eqI) (simp add: is_known_def fun_eq_iff)

lemma late_answer_fun:
  "late_answer Main_Step = (\<lambda>s. s)" "late_answer (Late_Answer src p k seq tp) = store_sample src p k seq tp"
  by (simp_all add: fun_eq_iff)

lemma res_map_id [simp]: "res_map (\<lambda>x. x) m = m" "res_map (apfst (\<lambda>x. x)) m' = m'"
  by (cases m; simp) (cases m'; simp add: apfst_def map_prod_def)

lemma late_answer_known: "late_for n (is_known (r s)) ev \<Longrightarrow> is_known (r (late_answer ev s)) = is_known (r s)"
  using store_sample_keys by (cases ev) (auto simp: is_known_def fun_eq_iff)

lemma eval_step_known:
  assumes "eval_step c ppm n st = Inr st'"
  shows "is_known (r (fst (ev_shared st'))) = is_known (r (fst (ev_shared st)))"
proof (cases "ev_at st")
  case None
  then show ?thesis using assms by (auto simp: eval_step_def Let_def)
next
  case (Some d)
  then obtain sh where "eval_body c ppm n (ev_phase st) d (ev_shared st) = Inr sh"
    and "is_known (r (fst (ev_shared st))) d" and "ev_shared st' = sh"
    using assms by (auto simp: eval_step_def is_known_def res_map_Inr_iff split: if_splits)
  then show ?thesis using eval_body_keys by blast
qed

abbreviation with_late :: "eval_event \<Rightarrow> eval_state \<Rightarrow> eval_state" where
  "with_late ev st \<equiv> st\<lparr>ev_shared := apfst (late_answer ev) (ev_shared st)\<rparr>"

text \<open>So an answer may be stored after the step in place of before it.\<close>

lemma eval_body_event:
  assumes "late_for n (is_known (r s)) ev"
  shows "eval_body c ppm n ph d (late_answer ev s, m) = res_map (apfst (late_answer ev)) (eval_body c ppm n ph d (s, m))"
proof (cases ev)
  case (Late_Answer src p peer_id seq tp)
  then show ?thesis using assms eval_body_late [of p n c ppm ph d src peer_id seq tp "(s, m)"]
    by (simp add: late_answer_fun)
qed (simp add: late_answer_fun)

lemma eval_step_late:
  assumes late: "late_for n (is_known (r (fst (ev_shared st)))) ev"
  shows "eval_step c ppm n (with_late ev st) = res_map (with_late ev) (eval_step c ppm n st)"
proof -
  obtain s m where sh: "ev_shared st = (s, m)" by (cases "ev_shared st")
  have known: "is_known (r (late_answer ev s)) = is_known (r s)"
    using late late_answer_known [of n s ev] by (simp add: sh)
  show ?thesis
  proof (cases "ev_at st")
    case None
    then show ?thesis using is_known_keys [OF known] by (simp add: eval_step_def Let_def first_key_def sh)
  next
    case (Some d)
    have body: "eval_body c ppm n (ev_phase st) d (late_answer ev s, m)
        = res_map (apfst (late_answer ev)) (eval_body c ppm n (ev_phase st) d (s, m))"
      using late by (intro eval_body_event) (simp add: sh)
    have next_late: "next_key d (r (late_answer ev s')) = next_key d (r s')"
      if "eval_body c ppm n (ev_phase st) d (s, m) = Inr (s', m')" "is_known (r s) d" for s' m'
    proof -
      have "is_known (r s') = is_known (r s)" using eval_body_keys [OF that(1)] that(2) by simp
      then have "late_for n (is_known (r s')) ev" using late by (simp add: sh)
      from is_known_keys [OF late_answer_known [OF this]] show ?thesis by (simp add: next_key_def)
    qed
    have same: "sm_find (r (late_answer ev s)) d = None \<longleftrightarrow> sm_find (r s) d = None"
      using fun_cong [OF known, of d] unfolding is_known_def by blast
    show ?thesis
    proof (cases "eval_body c ppm n (ev_phase st) d (s, m)")
      case (Inr sh')
      obtain s' m' where "sh' = (s', m')" by (cases sh')
      then show ?thesis using Inr next_late [of s' m'] same by (simp add: eval_step_def sh Some body is_known_def)
    qed (use same in \<open>simp add: eval_step_def sh Some body\<close>)
  qed
qed


section \<open>All answers before all steps\<close>

definition main_steps :: "config \<Rightarrow> perf_cont \<Rightarrow> int \<Rightarrow> nat \<Rightarrow> eval_state \<Rightarrow> eval_state res" where
  "main_steps c ppm n k = fold_res (\<lambda>_. eval_step c ppm n) (replicate k ())"

lemma main_steps_simps:
  "main_steps c ppm n 0 st = Inr st"
  "main_steps c ppm n (Suc k) st = res_bind (eval_step c ppm n st) (main_steps c ppm n k)"
  by (simp_all add: main_steps_def)

lemma with_late_known:
  assumes "late_for n (is_known (r (fst (ev_shared st)))) ev"
  shows "is_known (r (fst (ev_shared (with_late ev st)))) = is_known (r (fst (ev_shared st)))"
  using late_answer_known [OF assms] by simp

lemma eval_step_lates:
  assumes "\<forall>ev \<in> set evs. late_for n (is_known (r (fst (ev_shared st)))) ev"
  shows "eval_step c ppm n (fold with_late evs st) = res_map (fold with_late evs) (eval_step c ppm n st)"
  using assms
proof (induction evs arbitrary: st)
  case (Cons ev evs)
  have "eval_step c ppm n (fold with_late evs (with_late ev st))
      = res_map (fold with_late evs) (eval_step c ppm n (with_late ev st))"
    using Cons with_late_known [of n st ev] by simp
  then show ?case using eval_step_late [of n st ev c ppm] Cons.prems by (simp add: res_map_comp)
qed (simp add: id_def)

lemma eval_run_late_first:
  assumes "\<forall>ev \<in> set evs. late_for n (is_known (r (fst (ev_shared st)))) ev"
  shows "eval_run c ppm n evs st
    = main_steps c ppm n (length (filter (\<lambda>ev. ev = Main_Step) evs)) (fold with_late evs st)"
  using assms
proof (induction evs arbitrary: st)
  case Nil
  then show ?case by (simp add: eval_run_def main_steps_simps)
next
  case (Cons ev evs)
  show ?case
  proof (cases "ev = Main_Step")
    case False
    have "eval_run c ppm n evs (with_late ev st)
        = main_steps c ppm n (length (filter (\<lambda>ev. ev = Main_Step) evs)) (fold with_late evs (with_late ev st))"
      using Cons with_late_known [of n st ev] by simp
    then show ?thesis using False by (simp add: eval_run_def eval_event_step_def)
  next
    case True
    have "with_late Main_Step = (\<lambda>st. st)" by (simp add: fun_eq_iff late_answer_fun apfst_def map_prod_def)
    then show ?thesis
      using Cons eval_step_lates [of evs n st c ppm] eval_step_known [of c ppm n st]
      by (cases "eval_step c ppm n st") (simp_all add: True eval_run_def eval_event_step_def main_steps_simps)
  qed
qed

lemma lates_start:
  assumes "\<forall>ev \<in> set evs. late_for n (is_known (r s)) ev"
  shows "fold with_late evs (eval_start (s, m)) = eval_start (fold late_answer evs s, m)
    \<and> is_known (r (fold late_answer evs s)) = is_known (r s)"
  using assms
proof (induction evs arbitrary: s)
  case (Cons ev evs)
  have known: "is_known (r (late_answer ev s)) = is_known (r s)" using Cons.prems late_answer_known [of n s ev] by simp
  then have "with_late ev (eval_start (s, m)) = eval_start (late_answer ev s, m)"
    by (simp add: eval_start_def first_key_def is_known_keys [OF known])
  then show ?case using Cons.IH [of "late_answer ev s"] Cons.prems known by simp
qed simp


section \<open>The steps are the loops\<close>

text \<open>A loop over the rest of the destinations, whatever steps follow.\<close>

lemma main_steps_loop:
  assumes "sm_keys (r (fst sh)) = done @ rest" and "ph \<noteq> Evaluated"
  shows "main_steps c ppm n (length rest + k) \<lparr>ev_phase = ph, ev_at = (case rest of [] \<Rightarrow> None | x # _ \<Rightarrow> Some x), ev_shared = sh\<rparr>
    = res_bind (fold_res (eval_body c ppm n ph) rest sh) (\<lambda>sh'.
        main_steps c ppm n k \<lparr>ev_phase = ph, ev_at = None, ev_shared = sh'\<rparr>)"
  using assms
proof (induction rest arbitrary: "done" sh)
  case (Cons x xs)
  have "is_known (r (fst sh)) x" using Cons.prems(1) sm_in_keys [of x "r (fst sh)"] by (simp add: is_known_def)
  then have there: "sm_find (r (fst sh)) x \<noteq> None" by (simp add: is_known_def)
  show ?case
  proof (cases "eval_body c ppm n ph x sh")
    case (Inr sh')
    have "sm_keys (r (fst sh')) = (done @ [x]) @ xs"
      using is_known_keys [OF eval_body_keys [OF Inr \<open>is_known _ x\<close>]] Cons.prems(1) by simp
    note keys = this
    then have "next_key x (r (fst sh')) = (case xs of [] \<Rightarrow> None | y # _ \<Rightarrow> Some y)"
      by (simp add: next_key_sorted)
    then show ?thesis
      using Cons.IH [OF keys Cons.prems(2)] Inr there by (simp add: main_steps_simps eval_step_def del: not_None_eq)
  qed (use there in \<open>simp add: main_steps_simps eval_step_def del: not_None_eq\<close>)
qed simp

lemma main_steps_phase:
  assumes "ph \<noteq> Evaluated"
  shows "main_steps c ppm n (size (r (fst sh)) + Suc k) \<lparr>ev_phase = ph, ev_at = first_key (r (fst sh)), ev_shared = sh\<rparr>
    = res_bind (fold_res (eval_body c ppm n ph) (sm_keys (r (fst sh))) sh) (\<lambda>sh'. main_steps c ppm n k
        \<lparr>ev_phase = next_phase ph, ev_at = (if next_phase ph = Evaluated then None else first_key (r (fst sh'))), ev_shared = sh'\<rparr>)"
  using main_steps_loop [of sh "[]" "sm_keys (r (fst sh))" ph c ppm n "Suc k"] assms
  by (cases "next_phase ph = Evaluated")
    (simp_all add: size_std_map_def sm_keys_def first_key_def main_steps_simps eval_step_def Let_def)

lemma main_steps_evaluated:
  "main_steps c ppm n k \<lparr>ev_phase = Evaluated, ev_at = None, ev_shared = sh\<rparr>
    = Inr \<lparr>ev_phase = Evaluated, ev_at = None, ev_shared = sh\<rparr>"
  by (induction k) (simp_all add: main_steps_simps eval_step_def Let_def)

text \<open>The loops keep the destinations, so that all three have the same number of passes.\<close>

lemma loop_size:
  assumes "fold_res (eval_body c ppm n ph) (sm_keys (r (fst sh))) sh = Inr sh'"
  shows "size (r (fst sh')) = size (r (fst sh))"
proof -
  have "is_known (r (fst sh')) = is_known (r (fst sh))"
  proof (rule fold_res_invariant [OF assms])
    fix x u v assume "x \<in> set (sm_keys (r (fst sh)))" "is_known (r (fst u)) = is_known (r (fst sh))"
      and body: "eval_body c ppm n ph x u = Inr v"
    note a = this
    then have "is_known (r (fst u)) x" by (simp add: is_known_def sm_in_keys)
    from eval_body_keys [OF body this] show "is_known (r (fst v)) = is_known (r (fst sh))" using a(2) by simp
  qed simp
  from is_known_keys [OF this] show ?thesis by (simp add: size_std_map_def sm_keys_def map_equality_iff)
qed

lemma fold_res_fst: "fold_res (\<lambda>k (s, m). res_map (\<lambda>s'. (s', m)) (f k s)) ks (s, m) = res_map (\<lambda>s'. (s', m)) (fold_res f ks s)"
proof (induction ks arbitrary: s)
  case (Cons k ks)
  then show ?case by (cases "f k s") simp_all
qed simp

lemma loop_alone:
  "fold_res (eval_body c ppm n Averages) (sm_keys (r s)) (s, m) = res_map (\<lambda>s'. (s', m)) (pfr_calc_avg_rtt c ppm n s)"
  "fold_res (eval_body c ppm n Deviations) (sm_keys (r s)) (s, m) = res_map (\<lambda>s'. (s', m)) (pfr_calc_stddev_rtt n s)"
  "fold_res (eval_body c ppm n Scanning) (sm_keys (r s)) (s, m) = pfr_route_scan c n (s, m)"
proof -
  have "eval_body c ppm n Averages = (\<lambda>k (s, m). res_map (\<lambda>s'. (s', m)) (calc_avg_dst c ppm n k s))"
    "eval_body c ppm n Deviations = (\<lambda>k (s, m). res_map (\<lambda>s'. (s', m)) (calc_stddev_dst n k s))"
    "eval_body c ppm n Scanning = scan_dst c n"
    by (simp_all add: fun_eq_iff)
  then show "fold_res (eval_body c ppm n Averages) (sm_keys (r s)) (s, m) = res_map (\<lambda>s'. (s', m)) (pfr_calc_avg_rtt c ppm n s)"
    "fold_res (eval_body c ppm n Deviations) (sm_keys (r s)) (s, m) = res_map (\<lambda>s'. (s', m)) (pfr_calc_stddev_rtt n s)"
    "fold_res (eval_body c ppm n Scanning) (sm_keys (r s)) (s, m) = pfr_route_scan c n (s, m)"
    by (simp_all add: fold_res_fst pfr_calc_avg_rtt_def pfr_calc_stddev_rtt_def pfr_route_scan_def)
qed

lemma main_steps_alone:
  assumes "3 * (size (r (fst sh)) + 1) \<le> k"
  shows "main_steps c ppm n k (eval_start sh)
    = res_map (\<lambda>sh'. \<lparr>ev_phase = Evaluated, ev_at = None, ev_shared = sh'\<rparr>) (evaluate_alone c ppm n sh)"
proof -
  obtain s m where sh: "sh = (s, m)" by (cases sh)
  let ?z = "size (r s)"
  obtain j where k: "k = ?z + Suc (?z + Suc (?z + Suc j))"
    using assms le_Suc_ex [of "3 * (?z + 1)" k] by (auto simp: sh)
  show ?thesis
  proof (cases "pfr_calc_avg_rtt c ppm n s")
    case (Inr s1)
    have z1: "size (r s1) = ?z" using loop_size [of c ppm n Averages "(s, m)" "(s1, m)"] by (simp add: loop_alone Inr)
    show ?thesis
    proof (cases "pfr_calc_stddev_rtt n s1")
      case (Inr s2)
      have z2: "size (r s2) = ?z"
        using loop_size [of c ppm n Deviations "(s1, m)" "(s2, m)"] z1 by (simp add: loop_alone Inr)
      show ?thesis
        using main_steps_phase [of Averages c ppm n "(s, m)" "?z + Suc (?z + Suc j)"]
          main_steps_phase [of Deviations c ppm n "(s1, m)" "?z + Suc j"] main_steps_phase [of Scanning c ppm n "(s2, m)" j]
        by (cases "pfr_route_scan c n (s2, m)")
          (simp_all add: sh k z1 z2 eval_start_def evaluate_alone_def loop_alone Inr \<open>pfr_calc_avg_rtt c ppm n s = Inr s1\<close>
            main_steps_evaluated)
    next
      case (Inl e)
      then show ?thesis
        using main_steps_phase [of Averages c ppm n "(s, m)" "?z + Suc (?z + Suc j)"]
          main_steps_phase [of Deviations c ppm n "(s1, m)" "?z + Suc j"]
        by (simp add: sh k z1 eval_start_def evaluate_alone_def loop_alone \<open>pfr_calc_avg_rtt c ppm n s = Inr s1\<close>)
    qed
  next
    case (Inl e)
    then show ?thesis
      using main_steps_phase [of Averages c ppm n "(s, m)" "?z + Suc (?z + Suc j)"]
      by (simp add: sh k eval_start_def evaluate_alone_def loop_alone)
  qed
qed

text \<open>\<open>evaluate_alone\<close> is what \<open>evaluate_round\<close> does after \<open>pfr_route_update\<close>.\<close>

lemma evaluate_round_alone:
  "evaluate_round l i d =
     res_bind (pfr_route_update (l_popen l) (conf d) (probe_no d) (map d_ipv4 (dsts d))
       (measured d, routers d)) (\<lambda>(s1, w1).
     res_map (\<lambda>(s, min_rtt). d\<lparr>measured := s, routers := w1, conf := (conf d)\<lparr>c_min_rtt := min_rtt\<rparr>\<rparr>)
       (evaluate_alone (conf d) (i_perf i) (probe_no d) (s1, c_min_rtt (conf d))))"
  by (simp add: evaluate_round_def evaluate_alone_def res_map_bind)


section \<open>Properties\<close>

text \<open>
  C17. Answers that come during the evaluation: wherever \<open>readloop\<close> stores answers of known destinations
  to probes of other rounds between the steps of the three loops, the loops end exactly as if these
  answers had all been stored before the evaluation began, errors included: reception and
  evaluation may be taken one after the other.
\<close>

theorem late_answers_first:
  assumes "\<forall>ev \<in> set evs. late_for n (is_known (r s)) ev"
    and "3 * (size (r s) + 1) \<le> length (filter (\<lambda>ev. ev = Main_Step) evs)"
  shows "eval_run c ppm n evs (eval_start (s, m))
    = res_map (\<lambda>sh. \<lparr>ev_phase = Evaluated, ev_at = None, ev_shared = sh\<rparr>)
        (evaluate_alone c ppm n (fold late_answer evs s, m))"
proof -
  have "is_known (r (fold late_answer evs s)) = is_known (r s)" using lates_start [OF assms(1)] by simp
  from is_known_keys [OF this] have "size (r (fold late_answer evs s)) = size (r s)"
    by (metis size_std_map_def sm_keys_def length_map)
  then have "3 * (size (r (fst (fold late_answer evs s, m))) + 1) \<le> length (filter (\<lambda>ev. ev = Main_Step) evs)"
    using assms(2) by simp
  note alone = main_steps_alone [OF this, of c ppm n]
  have "\<forall>ev \<in> set evs. late_for n (is_known (r (fst (ev_shared (eval_start (s, m)))))) ev"
    using assms(1) by (simp add: eval_start_def)
  from eval_run_late_first [OF this] show ?thesis using alone lates_start [OF assms(1)] by simp
qed


section \<open>Examples\<close>

text \<open>One destination; an answer of the round before arrives after the first of the averages.\<close>

definition example_events :: "eval_event list" where
  "example_events = [Main_Step, Late_Answer ''10.0.0.1'' 0 2 1 (tparm_new (Fin 9) (Fin 0) 0 3),
     Main_Step, Main_Step, Main_Step, Main_Step, Main_Step]"

lemma example_round_keys: "sm_keys (r example_round) = [''10.0.0.1'']"
  by (simp add: example_round_def initial_rdata_def set_peers_def sm_modify_def sm_keys_def sm_put.rep_eq)

theorem late_answers_first_witness:
  "\<exists>sh. eval_run initial_config sm_empty 1 example_events (eval_start (example_round, Fin 50000))
      = Inr \<lparr>ev_phase = Evaluated, ev_at = None, ev_shared = sh\<rparr>
    \<and> evaluate_alone initial_config sm_empty 1
        (store_sample ''10.0.0.1'' 0 2 1 (tparm_new (Fin 9) (Fin 0) 0 3) example_round, Fin 50000) = Inr sh"
proof -
  let ?late = "store_sample ''10.0.0.1'' 0 2 1 (tparm_new (Fin 9) (Fin 0) 0 3) example_round"
  have "peers_of (r ?late) d 1 = peers_of (r example_round) d 1" for d by (simp add: peers_of_store)
  moreover have "sm_find (r ?late) d \<noteq> None \<longleftrightarrow> sm_find (r example_round) d \<noteq> None" for d
    by (rule store_sample_keys) (simp add: example_round_def set_peers_def)
  ultimately have "round_answered sm_empty 1 ?late"
    using round_answered_example unfolding round_answered_def by simp
  moreover have "route ?late = sm_empty" by (simp add: store_sample_frame example_round_def initial_rdata_def)
  ultimately obtain sh where "evaluate_alone initial_config sm_empty 1 (?late, Fin 50000) = Inr sh"
    using evaluation_passes [of 1 sm_empty ?late initial_config "Fin 50000"]
    by (auto simp: evaluate_alone_def route_at_def)
  moreover have "size (r example_round) = 1" "is_known (r example_round) ''10.0.0.1''"
    using example_round_keys by (auto simp: size_std_map_def sm_keys_def map_eq_Cons_conv is_known_def example_round_def set_peers_def)
  ultimately show ?thesis
    using late_answers_first [of example_events 1 example_round initial_config sm_empty "Fin 50000"]
    by (simp add: example_events_def)
qed

end
