(* ===== verification/Ping_Wrap.thy ===== *)
theory Ping_Wrap
  imports C_String Bytes
begin

text \<open>
  The error messages (\<open>src/src/error.cpp\<close>) and the wrappers of the system calls
  (\<open>ping_wrapsock.cpp\<close>, \<open>ping_wrapunix.cpp\<close>, \<open>ping_calloc.cpp\<close>, \<open>ping_host_serv.cpp\<close>,
  \<open>ping_signal.cpp\<close>, \<open>ping_sock_ntop_host.cpp\<close>): a wrapper makes its call and ends the process when that fails.

  The system call is a parameter of its wrapper, a function of the arguments it gets; a call that
  fills memory of the caller returns that, too.  A pointer that may be null is an option.
\<close>


section \<open>Error messages\<close>

text \<open>
  What a message depends on beside its text: whether the build has \<open>vsnprintf\<close>, \<open>daemon_proc\<close>, and
  \<open>strerror(errno)\<close>.
\<close>

record err_env =
  have_vsnprintf :: bool
  daemon_proc :: bool
  errno_text :: string

datatype err_output = Syslog int string | Stderr string

definition MAXLINE :: nat where
  "MAXLINE = 4096"

definition LOG_ERR :: int where "LOG_ERR = 3"
definition LOG_INFO :: int where "LOG_INFO = 6"

text \<open>\<open>snprintf\<close> into the rest of a buffer of \<open>n\<close> bytes: the last one is for the terminating 0.\<close>

definition snprintf :: "nat \<Rightarrow> string \<Rightarrow> string" where
  "snprintf n s = take (n - 1) s"

text \<open>
  \<open>buf\<close> has \<open>MAXLINE + 1\<close> bytes, one of them for the terminating 0.  \<open>msg\<close> is the formatted message.
  \<open>syslog\<close> takes \<open>buf\<close> as its format.
\<close>

definition err_doit :: "err_env \<Rightarrow> bool \<Rightarrow> int \<Rightarrow> string \<Rightarrow> err_output res" where
  "err_doit e errnoflag level msg =
     (let buf = (if have_vsnprintf e then snprintf MAXLINE msg else msg)
      in if length buf > MAXLINE then Inl (Undefined_Behaviour ''buffer overflow'')
         else (let n = length buf;
                   buf1 = (if errnoflag then buf @ snprintf (MAXLINE - n) ('': '' @ errno_text e) else buf);
                   buf2 = buf1 @ [CHR 0x0A]
               in if length buf2 > MAXLINE then Inl (Undefined_Behaviour ''buffer overflow'')
                  else if \<not> daemon_proc e then Inr (Stderr buf2)
                  else if CHR ''%'' \<in> set buf2 then Inl (Undefined_Behaviour ''format string'')
                  else Inr (Syslog level buf2)))"

definition err_ret :: "err_env \<Rightarrow> string \<Rightarrow> err_output res" where
  "err_ret e msg = err_doit e True LOG_INFO msg"

definition err_msg :: "err_env \<Rightarrow> string \<Rightarrow> err_output res" where
  "err_msg e msg = err_doit e False LOG_INFO msg"

definition err_sys :: "err_env \<Rightarrow> string \<Rightarrow> 'a res" where
  "err_sys e msg = res_bind (err_doit e True LOG_ERR msg) (\<lambda>_. Inl (Exit 1))"

definition err_quit :: "err_env \<Rightarrow> string \<Rightarrow> 'a res" where
  "err_quit e msg = res_bind (err_doit e False LOG_ERR msg) (\<lambda>_. Inl (Exit 1))"


section \<open>Sockets\<close>

text \<open>
  \<open>Accept\<close> tries again after a connection that was aborted; its parameter is what \<open>accept\<close> returns,
  call after call, with \<open>errno\<close>; without another result the call blocks (\<open>None\<close>).
\<close>

datatype accept_errno = EPROTO | ECONNABORTED | Accept_errno int

fun Accept :: "err_env \<Rightarrow> (int \<times> accept_errno) list \<Rightarrow> int res option" where
  "Accept e [] = None"
| "Accept e ((n, errno) # others) =
     (if n < 0
      then (if errno = EPROTO \<or> errno = ECONNABORTED then Accept e others else Some (err_sys e ''accept error''))
      else Some (Inr n))"

definition Bind :: "err_env \<Rightarrow> (int \<Rightarrow> 'b \<Rightarrow> 'c \<Rightarrow> int) \<Rightarrow> int \<Rightarrow> 'b \<Rightarrow> 'c \<Rightarrow> unit res" where
  "Bind e bind fd sa salen =
     (if bind fd sa salen < (0 :: int) then err_sys e ''bind error'' else Inr ())"

definition Connect :: "err_env \<Rightarrow> (int \<Rightarrow> 'b \<Rightarrow> 'c \<Rightarrow> int) \<Rightarrow> int \<Rightarrow> 'b \<Rightarrow> 'c \<Rightarrow> unit res" where
  "Connect e connect fd sa salen =
     (if connect fd sa salen < (0 :: int) then err_sys e ''connect error'' else Inr ())"

definition Getpeername :: "err_env \<Rightarrow> (int \<Rightarrow> 'b \<Rightarrow> int \<times> 'r) \<Rightarrow> int \<Rightarrow> 'b \<Rightarrow> 'r res" where
  "Getpeername e getpeername fd salen =
     (let (n, x) = getpeername fd salen in if n < (0 :: int) then err_sys e ''getpeername error'' else Inr x)"

definition Getsockname :: "err_env \<Rightarrow> (int \<Rightarrow> 'b \<Rightarrow> int \<times> 'r) \<Rightarrow> int \<Rightarrow> 'b \<Rightarrow> 'r res" where
  "Getsockname e getsockname fd salen =
     (let (n, x) = getsockname fd salen in if n < (0 :: int) then err_sys e ''getsockname error'' else Inr x)"

definition Getsockopt :: "err_env \<Rightarrow> (int \<Rightarrow> 'b \<Rightarrow> 'c \<Rightarrow> 'd \<Rightarrow> int \<times> 'r) \<Rightarrow> int \<Rightarrow> 'b \<Rightarrow> 'c \<Rightarrow> 'd \<Rightarrow> 'r res" where
  "Getsockopt e getsockopt fd level optname optlen =
     (let (n, x) = getsockopt fd level optname optlen in if n < (0 :: int) then err_sys e ''getsockopt error'' else Inr x)"

text \<open>The environment variable \<open>LISTENQ\<close> takes the place of the argument; \<open>atoi\<close> reads it.\<close>

definition Listen :: "err_env \<Rightarrow> (string \<Rightarrow> string option) \<Rightarrow> (int \<Rightarrow> int \<Rightarrow> int) \<Rightarrow> int \<Rightarrow> int \<Rightarrow> unit res" where
  "Listen e getenv listen fd backlog =
     (let backlog1 = (case getenv ''LISTENQ'' of None \<Rightarrow> backlog | Some ptr \<Rightarrow> atoi ptr)
      in if listen fd backlog1 < 0 then err_sys e ''listen error'' else Inr ())"

definition Recv :: "err_env \<Rightarrow> (int \<Rightarrow> 'b \<Rightarrow> 'c \<Rightarrow> int \<times> 'r) \<Rightarrow> int \<Rightarrow> 'b \<Rightarrow> 'c \<Rightarrow> (int \<times> 'r) res" where
  "Recv e recv fd nbytes flags =
     (let (n, x) = recv fd nbytes flags in if n < (0 :: int) then err_sys e ''recv error'' else Inr (n, x))"

definition Recvfrom :: "err_env \<Rightarrow> (int \<Rightarrow> 'b \<Rightarrow> 'c \<Rightarrow> int \<times> 'r) \<Rightarrow> int \<Rightarrow> 'b \<Rightarrow> 'c \<Rightarrow> (int \<times> 'r) res" where
  "Recvfrom e recvfrom fd nbytes flags =
     (let (n, x) = recvfrom fd nbytes flags in if n < (0 :: int) then err_sys e ''recvfrom error'' else Inr (n, x))"

definition Recvmsg :: "err_env \<Rightarrow> (int \<Rightarrow> 'b \<Rightarrow> 'c \<Rightarrow> int \<times> 'r) \<Rightarrow> int \<Rightarrow> 'b \<Rightarrow> 'c \<Rightarrow> (int \<times> 'r) res" where
  "Recvmsg e recvmsg fd msg flags =
     (let (n, x) = recvmsg fd msg flags in if n < (0 :: int) then err_sys e ''recvmsg error'' else Inr (n, x))"

definition Select :: "err_env \<Rightarrow> ('a \<Rightarrow> 'b \<Rightarrow> 'c \<Rightarrow> int \<times> 'r) \<Rightarrow> 'a \<Rightarrow> 'b \<Rightarrow> 'c \<Rightarrow> (int \<times> 'r) res" where
  "Select e select nfds fdsets timeout =
     (let (n, x) = select nfds fdsets timeout in if n < (0 :: int) then err_sys e ''select error'' else Inr (n, x))"

definition Send :: "err_env \<Rightarrow> (int \<Rightarrow> 'b list \<Rightarrow> 'c \<Rightarrow> int) \<Rightarrow> int \<Rightarrow> 'b list \<Rightarrow> 'c \<Rightarrow> unit res" where
  "Send e send fd buf flags =
     (if send fd buf flags \<noteq> int (length buf) then err_sys e ''send error'' else Inr ())"

definition Sendto :: "err_env \<Rightarrow> (int \<Rightarrow> 'b list \<Rightarrow> 'c \<Rightarrow> 'd \<Rightarrow> 'f \<Rightarrow> int) \<Rightarrow> int \<Rightarrow> 'b list \<Rightarrow> 'c \<Rightarrow> 'd \<Rightarrow> 'f \<Rightarrow> unit res" where
  "Sendto e sendto fd buf flags sa salen =
     (if sendto fd buf flags sa salen \<noteq> int (length buf) then err_sys e ''sendto error'' else Inr ())"

text \<open>The message as the list of its parts.\<close>

definition Sendmsg :: "err_env \<Rightarrow> (int \<Rightarrow> 'b list list \<Rightarrow> int \<Rightarrow> int) \<Rightarrow> int \<Rightarrow> 'b list list \<Rightarrow> int \<Rightarrow> unit res" where
  "Sendmsg e sendmsg fd msg flags =
     (let nbytes = sum_list (map (\<lambda>p. int (length p)) msg)
      in if sendmsg fd msg flags \<noteq> nbytes then err_sys e ''sendmsg error'' else Inr ())"

definition Setsockopt :: "err_env \<Rightarrow> (int \<Rightarrow> 'b \<Rightarrow> 'c \<Rightarrow> 'd \<Rightarrow> int) \<Rightarrow> int \<Rightarrow> 'b \<Rightarrow> 'c \<Rightarrow> 'd \<Rightarrow> unit res" where
  "Setsockopt e setsockopt fd level optname optval =
     (if setsockopt fd level optname optval < (0 :: int) then err_sys e ''setsockopt error'' else Inr ())"

definition Shutdown :: "err_env \<Rightarrow> (int \<Rightarrow> 'b \<Rightarrow> int) \<Rightarrow> int \<Rightarrow> 'b \<Rightarrow> unit res" where
  "Shutdown e shutdown fd how =
     (if shutdown fd how < (0 :: int) then err_sys e ''shutdown error'' else Inr ())"

definition Sockatmark :: "err_env \<Rightarrow> (int \<Rightarrow> int) \<Rightarrow> int \<Rightarrow> int res" where
  "Sockatmark e sockatmark fd =
     (let n = sockatmark fd in if n < (0 :: int) then err_sys e ''sockatmark error'' else Inr n)"

definition Socket :: "err_env \<Rightarrow> ('a \<Rightarrow> 'b \<Rightarrow> 'c \<Rightarrow> int) \<Rightarrow> 'a \<Rightarrow> 'b \<Rightarrow> 'c \<Rightarrow> int res" where
  "Socket e socket family socktype protocol =
     (let n = socket family socktype protocol in if n < (0 :: int) then err_sys e ''socket error'' else Inr n)"

definition Socketpair :: "err_env \<Rightarrow> ('a \<Rightarrow> 'b \<Rightarrow> 'c \<Rightarrow> int \<times> 'r) \<Rightarrow> 'a \<Rightarrow> 'b \<Rightarrow> 'c \<Rightarrow> 'r res" where
  "Socketpair e socketpair family socktype protocol =
     (let (n, x) = socketpair family socktype protocol in if n < (0 :: int) then err_sys e ''socketpair error'' else Inr x)"


section \<open>Files, processes and signals\<close>

definition Calloc :: "err_env \<Rightarrow> ('a \<Rightarrow> 'b \<Rightarrow> 'r option) \<Rightarrow> 'a \<Rightarrow> 'b \<Rightarrow> 'r res" where
  "Calloc e calloc nuemb nbytes =
     (case calloc nuemb nbytes of None \<Rightarrow> err_sys e ''calloc error'' | Some ptr \<Rightarrow> Inr ptr)"

definition Close :: "err_env \<Rightarrow> (int \<Rightarrow> int) \<Rightarrow> int \<Rightarrow> unit res" where
  "Close e close fd =
     (if close fd = (- 1 :: int) then err_sys e ''close error'' else Inr ())"

definition Dup2 :: "err_env \<Rightarrow> ('a \<Rightarrow> 'b \<Rightarrow> int) \<Rightarrow> 'a \<Rightarrow> 'b \<Rightarrow> unit res" where
  "Dup2 e dup2 fd1 fd2 =
     (if dup2 fd1 fd2 = (- 1 :: int) then err_sys e ''dup2 error'' else Inr ())"

definition Fcntl :: "err_env \<Rightarrow> (int \<Rightarrow> 'b \<Rightarrow> 'c \<Rightarrow> int) \<Rightarrow> int \<Rightarrow> 'b \<Rightarrow> 'c \<Rightarrow> int res" where
  "Fcntl e fcntl fd cmd arg =
     (let n = fcntl fd cmd arg in if n = (- 1 :: int) then err_sys e ''fcntl error'' else Inr n)"

definition Gettimeofday :: "err_env \<Rightarrow> int \<times> 'r \<Rightarrow> 'r res" where
  "Gettimeofday e gettimeofday =
     (let (n, x) = gettimeofday in if n \<noteq> (0 :: int) then err_sys e ''gettimeofday error'' else Inr x)"

definition Ioctl :: "err_env \<Rightarrow> (int \<Rightarrow> 'b \<Rightarrow> 'c \<Rightarrow> int \<times> 'r) \<Rightarrow> int \<Rightarrow> 'b \<Rightarrow> 'c \<Rightarrow> (int \<times> 'r) res" where
  "Ioctl e ioctl fd request arg =
     (let (n, x) = ioctl fd request arg in if n = (- 1 :: int) then err_sys e ''ioctl error'' else Inr (n, x))"

definition Fork :: "err_env \<Rightarrow> int \<Rightarrow> int res" where
  "Fork e fork =
     (let n = fork in if n = (- 1 :: int) then err_sys e ''fork error'' else Inr n)"

definition Malloc :: "err_env \<Rightarrow> ('a \<Rightarrow> 'r option) \<Rightarrow> 'a \<Rightarrow> 'r res" where
  "Malloc e malloc nbytes =
     (case malloc nbytes of None \<Rightarrow> err_sys e ''malloc error'' | Some ptr \<Rightarrow> Inr ptr)"

text \<open>\<open>MAP_FAILED\<close> is \<open>None\<close>.\<close>

definition Mmap :: "err_env \<Rightarrow> ('a \<Rightarrow> 'b \<Rightarrow> 'c \<Rightarrow> 'd \<Rightarrow> int \<Rightarrow> 'g \<Rightarrow> 'r option) \<Rightarrow> 'a \<Rightarrow> 'b \<Rightarrow> 'c \<Rightarrow> 'd \<Rightarrow> int \<Rightarrow> 'g \<Rightarrow> 'r res" where
  "Mmap e mmap addr len prot flags fd offset =
     (case mmap addr len prot flags fd offset of None \<Rightarrow> err_sys e ''mmap error'' | Some ptr \<Rightarrow> Inr ptr)"

definition Open :: "err_env \<Rightarrow> (string \<Rightarrow> 'b \<Rightarrow> 'c \<Rightarrow> int) \<Rightarrow> string \<Rightarrow> 'b \<Rightarrow> 'c \<Rightarrow> int res" where
  "Open e sys_open pathname oflag mode =
     (let n = sys_open pathname oflag mode in if n = (- 1 :: int) then err_sys e (''open error for '' @ pathname) else Inr n)"

definition Pipe :: "err_env \<Rightarrow> int \<times> 'r \<Rightarrow> 'r res" where
  "Pipe e pipe =
     (let (n, x) = pipe in if n < (0 :: int) then err_sys e ''pipe error'' else Inr x)"

definition Read :: "err_env \<Rightarrow> (int \<Rightarrow> 'b \<Rightarrow> int \<times> 'r) \<Rightarrow> int \<Rightarrow> 'b \<Rightarrow> (int \<times> 'r) res" where
  "Read e read fd nbytes =
     (let (n, x) = read fd nbytes in if n = (- 1 :: int) then err_sys e ''read error'' else Inr (n, x))"

definition Sigaddset :: "err_env \<Rightarrow> ('a \<Rightarrow> 'b \<Rightarrow> int \<times> 'r) \<Rightarrow> 'a \<Rightarrow> 'b \<Rightarrow> 'r res" where
  "Sigaddset e sigaddset sigs signo =
     (let (n, x) = sigaddset sigs signo in if n = (- 1 :: int) then err_sys e ''sigaddset error'' else Inr x)"

definition Sigdelset :: "err_env \<Rightarrow> ('a \<Rightarrow> 'b \<Rightarrow> int \<times> 'r) \<Rightarrow> 'a \<Rightarrow> 'b \<Rightarrow> 'r res" where
  "Sigdelset e sigdelset sigs signo =
     (let (n, x) = sigdelset sigs signo in if n = (- 1 :: int) then err_sys e ''sigdelset error'' else Inr x)"

definition Sigemptyset :: "err_env \<Rightarrow> int \<times> 'r \<Rightarrow> 'r res" where
  "Sigemptyset e sigemptyset =
     (let (n, x) = sigemptyset in if n = (- 1 :: int) then err_sys e ''sigemptyset error'' else Inr x)"

definition Sigfillset :: "err_env \<Rightarrow> int \<times> 'r \<Rightarrow> 'r res" where
  "Sigfillset e sigfillset =
     (let (n, x) = sigfillset in if n = (- 1 :: int) then err_sys e ''sigfillset error'' else Inr x)"

definition Sigismember :: "err_env \<Rightarrow> ('a \<Rightarrow> 'b \<Rightarrow> int) \<Rightarrow> 'a \<Rightarrow> 'b \<Rightarrow> int res" where
  "Sigismember e sigismember sigs signo =
     (let n = sigismember sigs signo in if n = (- 1 :: int) then err_sys e ''sigismember error'' else Inr n)"

definition Sigpending :: "err_env \<Rightarrow> int \<times> 'r \<Rightarrow> 'r res" where
  "Sigpending e sigpending =
     (let (n, x) = sigpending in if n = (- 1 :: int) then err_sys e ''sigpending error'' else Inr x)"

definition Sigprocmask :: "err_env \<Rightarrow> ('a \<Rightarrow> 'b \<Rightarrow> int \<times> 'r) \<Rightarrow> 'a \<Rightarrow> 'b \<Rightarrow> 'r res" where
  "Sigprocmask e sigprocmask how sigs =
     (let (n, x) = sigprocmask how sigs in if n = (- 1 :: int) then err_sys e ''sigprocmask error'' else Inr x)"

definition Strdup :: "err_env \<Rightarrow> ('a \<Rightarrow> 'r option) \<Rightarrow> 'a \<Rightarrow> 'r res" where
  "Strdup e strdup str =
     (case strdup str of None \<Rightarrow> err_sys e ''strdup error'' | Some ptr \<Rightarrow> Inr ptr)"

definition Sysconf :: "err_env \<Rightarrow> ('a \<Rightarrow> int) \<Rightarrow> 'a \<Rightarrow> int res" where
  "Sysconf e sysconf name =
     (let n = sysconf name in if n = (- 1 :: int) then err_sys e ''sysconf error'' else Inr n)"

definition Unlink :: "err_env \<Rightarrow> (string \<Rightarrow> int) \<Rightarrow> string \<Rightarrow> unit res" where
  "Unlink e unlink pathname =
     (if unlink pathname = (- 1 :: int) then err_sys e (''unlink error for '' @ pathname) else Inr ())"

definition Wait :: "err_env \<Rightarrow> int \<times> 'r \<Rightarrow> (int \<times> 'r) res" where
  "Wait e wait =
     (let (n, x) = wait in if n = (- 1 :: int) then err_sys e ''wait error'' else Inr (n, x))"

definition Waitpid :: "err_env \<Rightarrow> ('a \<Rightarrow> 'b \<Rightarrow> int \<times> 'r) \<Rightarrow> 'a \<Rightarrow> 'b \<Rightarrow> (int \<times> 'r) res" where
  "Waitpid e waitpid pid options =
     (let (n, x) = waitpid pid options in if n = (- 1 :: int) then err_sys e ''waitpid error'' else Inr (n, x))"

definition Write :: "err_env \<Rightarrow> (int \<Rightarrow> 'b list \<Rightarrow> int) \<Rightarrow> int \<Rightarrow> 'b list \<Rightarrow> unit res" where
  "Write e write fd buf =
     (if write fd buf \<noteq> int (length buf) then err_sys e ''write error'' else Inr ())"


text \<open>
  The repository's own \<open>signal\<close>, by \<open>sigaction\<close> with a handler and flags.  \<open>sa_interrupt\<close> and \<open>sa_restart\<close>
  are the system's constants, 0 where it does not define them.
\<close>

definition SIGALRM :: int where "SIGALRM = 14"

definition signal_flags :: "int \<Rightarrow> int \<Rightarrow> int \<Rightarrow> int" where
  "signal_flags sa_interrupt sa_restart signo = (if signo = SIGALRM then sa_interrupt else sa_restart)"

definition signal :: "int \<Rightarrow> int \<Rightarrow> (int \<Rightarrow> 'h \<Rightarrow> int \<Rightarrow> int \<times> 'h) \<Rightarrow> int \<Rightarrow> 'h \<Rightarrow> 'h option" where
  "signal sa_interrupt sa_restart sigaction signo func =
     (let (n, oact) = sigaction signo func (signal_flags sa_interrupt sa_restart signo)
      in if n < 0 then None else Some oact)"

definition Signal :: "err_env \<Rightarrow> int \<Rightarrow> int \<Rightarrow> (int \<Rightarrow> 'h \<Rightarrow> int \<Rightarrow> int \<times> 'h) \<Rightarrow> int \<Rightarrow> 'h \<Rightarrow> 'h res" where
  "Signal e sa_interrupt sa_restart sigaction signo func =
     (case signal sa_interrupt sa_restart sigaction signo func of
        None \<Rightarrow> err_sys e ''signal error''
      | Some sigfunc \<Rightarrow> Inr sigfunc)"


section \<open>Addresses\<close>

text \<open>\<open>getaddrinfo\<close> takes the hints and returns its code and the list; \<open>None\<close> is a null pointer.\<close>

record addr_hints =
  ai_flags :: int
  ai_family :: int
  ai_socktype :: int

definition AI_CANONNAME :: int where "AI_CANONNAME = 2"

definition hints_for :: "int \<Rightarrow> int \<Rightarrow> addr_hints" where
  "hints_for family socktype = \<lparr>ai_flags = AI_CANONNAME, ai_family = family, ai_socktype = socktype\<rparr>"

definition host_serv ::
  "(string option \<Rightarrow> string option \<Rightarrow> addr_hints \<Rightarrow> int \<times> 'r) \<Rightarrow> string option \<Rightarrow> string option \<Rightarrow> int \<Rightarrow> int \<Rightarrow> 'r option" where
  "host_serv getaddrinfo host serv family socktype =
     (let (n, ai) = getaddrinfo host serv (hints_for family socktype) in if n \<noteq> 0 then None else Some ai)"

definition Host_serv ::
  "err_env \<Rightarrow> (int \<Rightarrow> string) \<Rightarrow> (string option \<Rightarrow> string option \<Rightarrow> addr_hints \<Rightarrow> int \<times> 'r)
    \<Rightarrow> string option \<Rightarrow> string option \<Rightarrow> int \<Rightarrow> int \<Rightarrow> 'r res" where
  "Host_serv e gai_strerror getaddrinfo host serv family socktype =
     (let (n, ai) = getaddrinfo host serv (hints_for family socktype)
      in if n \<noteq> 0
         then err_quit e (''host_serv error for '' @ (case host of None \<Rightarrow> ''(no hostname)'' | Some h \<Rightarrow> h) @ '', ''
           @ (case serv of None \<Rightarrow> ''(no service name)'' | Some s \<Rightarrow> s) @ '': '' @ gai_strerror n)
         else Inr ai)"


text \<open>
  A socket's address as text.  \<open>inet_ntop\<close> for IPv4 is the system's; the buffer has 128 bytes.  The cases
  for IPv6 and the link layer are not compiled.
\<close>

datatype sockaddr = Sockaddr_in "u8 list" | Sockaddr_un string | Sockaddr_other int

definition sock_ntop_host :: "(u8 list \<Rightarrow> string option) \<Rightarrow> sockaddr \<Rightarrow> int \<Rightarrow> string option" where
  "sock_ntop_host inet_ntop sa salen =
     (case sa of
        Sockaddr_in sin_addr \<Rightarrow> inet_ntop sin_addr
      | Sockaddr_un sun_path \<Rightarrow>
          Some (if sun_path = [] then ''(no pathname bound)'' else snprintf 128 sun_path)
      | Sockaddr_other sa_family \<Rightarrow>
          Some (snprintf 128 (''sock_ntop_host: unknown AF_xxx: '' @ to_string sa_family @ '', len '' @ to_string salen)))"

definition Sock_ntop_host :: "err_env \<Rightarrow> (u8 list \<Rightarrow> string option) \<Rightarrow> sockaddr \<Rightarrow> int \<Rightarrow> string res" where
  "Sock_ntop_host e inet_ntop sa salen =
     (case sock_ntop_host inet_ntop sa salen of
        None \<Rightarrow> err_sys e ''sock_ntop_host error''
      | Some ptr \<Rightarrow> Inr ptr)"


section \<open>Facts\<close>

lemma err_doit_cases:
  "err_doit e errnoflag level msg =
    (if \<not> have_vsnprintf e \<and> MAXLINE \<le> length msg then Inl (Undefined_Behaviour ''buffer overflow'')
     else (let text = take (MAXLINE - 1) msg;
               buf = text @ (if errnoflag then take (MAXLINE - 1 - length text) ('': '' @ errno_text e) else []) @ [CHR 0x0A]
           in if \<not> daemon_proc e then Inr (Stderr buf)
              else if CHR ''%'' \<in> set buf then Inl (Undefined_Behaviour ''format string'') else Inr (Syslog level buf)))"
proof -
  have "length (take (MAXLINE - 1) msg @ take (MAXLINE - 1 - length (take (MAXLINE - 1) msg)) s @ [CHR 0x0A]) \<le> MAXLINE" for s
    by (simp add: MAXLINE_def)
  moreover have "length msg < MAXLINE \<Longrightarrow> take (MAXLINE - 1) msg = msg" by simp
  moreover have "MAXLINE - n - 1 = MAXLINE - 1 - n" for n by simp
  ultimately show ?thesis
    by (cases "have_vsnprintf e"; cases "length msg < MAXLINE")
      (auto simp: err_doit_def snprintf_def Let_def MAXLINE_def)
qed

text \<open>
  The buffer of the error messages: \<open>err_doit\<close> writes beyond its \<open>MAXLINE + 1\<close> bytes exactly if the
  build has no \<open>vsnprintf\<close> and the message has \<open>MAXLINE\<close> characters or more, whatever the error text
  appended to it; a message it prints is the given one, cut to \<open>MAXLINE - 1\<close> characters, with as much
  of the error text as fits, and a newline.
\<close>

lemma err_doit_fits:
  "(err_doit e errnoflag level msg = Inl (Undefined_Behaviour ''buffer overflow'')
      \<longleftrightarrow> \<not> have_vsnprintf e \<and> MAXLINE \<le> length msg)
    \<and> (case err_doit e errnoflag level msg of
          Inr (Stderr buf) \<Rightarrow> length buf \<le> MAXLINE \<and> (\<exists>rest. buf = take (MAXLINE - 1) msg @ rest @ [CHR 0x0A])
        | _ \<Rightarrow> True)"
  by (auto simp: err_doit_cases Let_def MAXLINE_def min_def)

text \<open>The process ends with a fatal error, and nothing else happens, as long as it logs to \<open>stderr\<close>.\<close>

lemma err_sys_exits:
  assumes "\<not> daemon_proc e" and "length msg < MAXLINE"
  shows "err_sys e msg = Inl (Exit 1)" and "err_quit e msg = Inl (Exit 1)"
  using assms by (simp_all add: err_sys_def err_quit_def err_doit_cases Let_def)

lemma accept_retries:
  assumes "\<forall>(n, errno) \<in> set aborted. n < 0 \<and> (errno = EPROTO \<or> errno = ECONNABORTED)" and "0 \<le> n"
  shows "Accept e (aborted @ (n, errno) # more_results) = Some (Inr n)"
  using assms by (induction aborted) auto

end
