(* ===== verification/Ping_Readloop.thy ===== *)
theory Ping_Readloop
  imports Pfr_Main Ping_Wrap
begin

text \<open>
  The receiving thread (\<open>src/src/ping_readloop.cpp\<close>) pass by pass: what \<open>select\<close> and \<open>recvmsg\<close> return,
  the packet handed to \<open>proc_v4\<close>, and the acknowledgement of the end of the probes.

  \<open>Pfr_Handshake\<close> has the interleaving of the acknowledgement with \<open>main\<close>; \<open>receive\<close> (\<open>Pfr_Main\<close>) the
  packets alone.
\<close>

datatype errno = EINTR | EAGAIN | Other_errno int

text \<open>A packet is the buffer, the number of bytes received and the time after \<open>recvmsg\<close>.\<close>

datatype recv_result = Received "u8 list" int timeval | Recv_failed errno

datatype select_result = Select_failed | Select_timeout | Not_set | Readable recv_result

record readloop_state =
  rl_data :: rdata
  rl_req_stopped :: bool
  rl_send_stopped :: bool

text \<open>The socket; its failure ends the process, setting the options may fail.\<close>

definition readloop_open :: "err_env \<Rightarrow> (int \<Rightarrow> int \<Rightarrow> int \<Rightarrow> int) \<Rightarrow> int res" where
  "readloop_open e socket = Socket e socket 2 3 1"

definition acknowledge :: "readloop_state \<Rightarrow> readloop_state" where
  "acknowledge st = (if rl_req_stopped st then st\<lparr>rl_send_stopped := True\<rparr> else st)"

text \<open>A pass; \<open>continue\<close> after \<open>EINTR\<close> leaves out the acknowledgement.\<close>

definition readloop_pass :: "err_env \<Rightarrow> int \<Rightarrow> select_result \<Rightarrow> readloop_state \<Rightarrow> readloop_state res" where
  "readloop_pass e pid sres st =
     (case sres of
        Readable (Recv_failed err) \<Rightarrow> if err = EINTR then Inr st else err_sys e ''recvmsg error''
      | Readable (Received buf n tval) \<Rightarrow>
          res_map (\<lambda>s. acknowledge (st\<lparr>rl_data := s\<rparr>)) (proc_v4 False pid buf n tval (rl_data st))
      | _ \<Rightarrow> Inr (acknowledge st))"

definition readloop :: "err_env \<Rightarrow> int \<Rightarrow> select_result list \<Rightarrow> readloop_state \<Rightarrow> readloop_state res" where
  "readloop e pid = fold_res (readloop_pass e pid)"


section \<open>Facts\<close>

fun packets_of :: "select_result list \<Rightarrow> (u8 list \<times> int \<times> timeval) list" where
  "packets_of [] = []"
| "packets_of (Readable (Received buf n tval) # rs) = (buf, n, tval) # packets_of rs"
| "packets_of (_ # rs) = packets_of rs"

definition fatal :: "select_result \<Rightarrow> bool" where
  "fatal sres \<longleftrightarrow> (\<exists>err. sres = Readable (Recv_failed err) \<and> err \<noteq> EINTR)"

lemma acknowledge_simps [simp]:
  "rl_data (acknowledge st) = rl_data st"
  "rl_req_stopped (acknowledge st) = rl_req_stopped st"
  "rl_send_stopped (acknowledge st) = (rl_send_stopped st \<or> rl_req_stopped st)"
  by (simp_all add: acknowledge_def)

lemma readloop_pass_ok:
  assumes "\<not> fatal sres"
  shows "\<exists>st'. readloop_pass e pid sres st = Inr st'
    \<and> fold_res (\<lambda>(buf, n, tval). proc_v4 False pid buf n tval) (packets_of [sres]) (rl_data st) = Inr (rl_data st')
    \<and> rl_req_stopped st' = rl_req_stopped st
    \<and> rl_send_stopped st' = (rl_send_stopped st \<or> rl_req_stopped st \<and> sres \<noteq> Readable (Recv_failed EINTR))"
proof (cases sres)
  case (Readable rcv)
  show ?thesis
  proof (cases rcv)
    case (Received buf n tval)
    obtain s where "proc_v4 False pid buf n tval (rl_data st) = Inr s" using proc_v4_grows by blast
    then show ?thesis by (simp add: readloop_pass_def Readable Received)
  next
    case (Recv_failed err)
    then show ?thesis using assms by (simp add: readloop_pass_def Readable fatal_def)
  qed
qed (simp_all add: readloop_pass_def)

lemma packets_of_Cons: "packets_of (sres # rs) = packets_of [sres] @ packets_of rs"
  by (cases sres rule: packets_of.cases [of "[_]", simplified]) simp_all


end
