(* ===== verification/Pfr_Print.thy ===== *)
theory Pfr_Print
  imports Pfr_Sql_Log Pfr_Dst_List
begin

text \<open>
  The functions that print (\<open>src/src/pfr_rdata.cpp\<close>, \<open>pfr_dst.cpp\<close>, \<open>pfr_dst_list.cpp\<close>,
  \<open>pfr_telemetry.cpp\<close>), as the lines they print.

  They look the entries of their loops up again with \<open>[]\<close>, which finds the entry of the iterator; a
  null pointer is an error.  A line for the log file is the list of its arguments, since the library of
  the log makes the text; a line for \<open>std::cout\<close> is the text.
\<close>


section \<open>Measurements and routes\<close>

text \<open>\<open>pfr_route_print\<close>; its last line has the number of the last round it printed.\<close>

definition route_line :: "string \<Rightarrow> int \<Rightarrow> rt_parm \<Rightarrow> string" where
  "route_line dst_ip probe_id rt =
     ''ROUTE_PRINT: dst_ip: '' @ dst_ip @ '' : probe_id: '' @ to_string probe_id
       @ '' :prev_peer: '' @ to_string (prev_peer rt) @ '' :prev_min: '' @ show_double (pmin_rtt rt)
       @ '' :peer_id: '' @ to_string (curr_peer rt) @ '' : cmin_rtt : '' @ show_double (cmin_rtt rt)"

definition print_route :: "string \<Rightarrow> int \<times> rt_parm option \<Rightarrow> int \<times> string list \<Rightarrow> (int \<times> string list) res" where
  "print_route dst_ip = (\<lambda>(p, rt) (_, out).
     case rt of None \<Rightarrow> Inl null_deref | Some x \<Rightarrow> Inr (p, out @ [route_line dst_ip p x]))"

definition pfr_route_print :: "int \<Rightarrow> route_map \<Rightarrow> string list res" where
  "pfr_route_print probe_id m =
     res_map (\<lambda>(p, out). out @ [''ROUTE_FREE: probe_id: '' @ to_string p])
       (fold_res (\<lambda>(dst_ip, rts). fold_res (print_route dst_ip) (entries rts)) (entries m) (probe_id, []))"

text \<open>\<open>pfr_log_print\<close>, which \<open>main\<close> calls in every round.\<close>

definition pfr_log_print :: "int \<Rightarrow> log_map \<Rightarrow> (string \<times> int \<times> int \<times> tlog) list" where
  "pfr_log_print curr_probe_id m =
     concat (map (\<lambda>(dst_ip, ls). map (\<lambda>(p, l). (dst_ip, curr_probe_id, p, l)) (entries ls)) (entries m))"

text \<open>\<open>pfr_print_avg_rtt\<close>: the entry 99 of every peer, where a missing one is a null pointer.\<close>

definition avg_line :: "string \<Rightarrow> int \<Rightarrow> int \<Rightarrow> tparm \<Rightarrow> string" where
  "avg_line dst_ip p peer_id tp =
     ''dst_ip: '' @ dst_ip @ '' :probe_id '' @ to_string p @ '' :peer_id: '' @ to_string peer_id
       @ '': avg_rtt: '' @ show_double (tp_avg_rtt tp)"

definition print_avg_peer :: "string \<Rightarrow> int \<Rightarrow> int \<times> seq_map \<Rightarrow> string list \<Rightarrow> string list res" where
  "print_avg_peer dst_ip p = (\<lambda>(peer_id, seqs) out.
     case sm_at None seqs 99 of None \<Rightarrow> Inl null_deref | Some tp \<Rightarrow> Inr (out @ [avg_line dst_ip p peer_id tp]))"

definition pfr_print_avg_rtt :: "r_map \<Rightarrow> string list res" where
  "pfr_print_avg_rtt m =
     fold_res (\<lambda>(dst_ip, ps). fold_res (\<lambda>(p, peers). fold_res (print_avg_peer dst_ip p) (entries peers)) (entries ps))
       (entries m) []"

text \<open>\<open>print_rdata\<close>: a line per peer with all of its samples; it counts them in \<open>printr_new_cnt\<close>.\<close>

definition print_sample :: "int \<times> tparm option \<Rightarrow> string \<times> int \<Rightarrow> (string \<times> int) res" where
  "print_sample = (\<lambda>(q, tp) (line, cnt).
     case tp of
       None \<Rightarrow> Inl null_deref
     | Some x \<Rightarrow> Inr (line @ ''seq_num: '' @ to_string q @ ''->{ rtt: '' @ show_double (tp_rtt x) @ '' } '', cnt + 1))"

definition print_peer :: "int \<times> seq_map \<Rightarrow> string list \<times> int \<Rightarrow> (string list \<times> int) res" where
  "print_peer = (\<lambda>(peer_id, seqs) (out, cnt).
     res_map (\<lambda>(line, cnt'). (out @ [line], cnt'))
       (fold_res print_sample (entries seqs) (''peer_id: '' @ to_string peer_id @ '' '', cnt)))"

definition print_probe :: "int \<times> peer_map \<Rightarrow> string list \<times> int \<Rightarrow> (string list \<times> int) res" where
  "print_probe = (\<lambda>(p, peers) (out, cnt).
     fold_res print_peer (entries peers) (out @ [''probe_id: '' @ to_string p @ '' ''], cnt))"

definition print_rdata :: "r_map \<Rightarrow> int \<Rightarrow> (string list \<times> int) res" where
  "print_rdata m printr_new_cnt =
     fold_res (\<lambda>(dst_ip, ps) (out, cnt). fold_res print_probe (entries ps) (out @ [''dst_ip: '' @ dst_ip], cnt))
       (entries m) ([], printr_new_cnt)"


section \<open>Destinations and telemetry\<close>

definition pfr_dst_print :: "pfr_dst \<Rightarrow> string" where
  "pfr_dst_print d = to_string (d_id d) @ '':'' @ d_ipv4 d @ '':'' @ d_ipv6 d @ '':'' @ d_descr d"

text \<open>\<open>nlist\<close> is the number of rows the database returned, not that of the destinations.\<close>

definition dst_list_print :: "nat \<Rightarrow> pfr_dst list \<Rightarrow> string list res" where
  "dst_list_print nlist ds =
     fold_res (\<lambda>i out. if i < length ds then Inr (out @ [pfr_dst_print (ds ! i)])
       else Inl (Undefined_Behaviour ''vector index'')) [0..<nlist] []"

text \<open>\<open>pfr_perf_peers_cont::log\<close>.\<close>

definition perf_log :: "perf_cont \<Rightarrow> (string \<times> int \<times> int) list" where
  "perf_log ppm = concat (map (\<lambda>(pe_ip, peers).
     concat (map (\<lambda>(k, perfs). map (\<lambda>p. (pe_ip, k, p)) (sm_keys perfs)) (entries peers))) (entries ppm))"


section \<open>Facts\<close>

lemma print_avg_peer_total:
  assumes "\<forall>(k, seqs) \<in> set ks. \<exists>tp. sm_find seqs 99 = Some (Some tp)"
  shows "fold_res (print_avg_peer d p) ks out
    = Inr (out @ map (\<lambda>(k, seqs). avg_line d p k (the (sm_at None seqs 99))) ks)"
  using assms by (induction ks arbitrary: out) (auto simp: print_avg_peer_def sm_at_def)

text \<open>\<open>pfr_print_avg_rtt\<close> returns when every peer of every round has its summary.\<close>

lemma print_avg_total:
  assumes "\<forall>(d, ps) \<in> set (entries m). \<forall>(p, peers) \<in> set (entries ps). \<forall>(k, seqs) \<in> set (entries peers).
    \<exists>tp. sm_find seqs 99 = Some (Some tp)"
  shows "\<exists>out. pfr_print_avg_rtt m = Inr out"
proof -
  have rounds: "\<exists>out'. fold_res (\<lambda>(p, peers). fold_res (print_avg_peer d p) (entries peers)) pps out = Inr out'"
    if "\<forall>(p, peers) \<in> set pps. \<forall>(k, seqs) \<in> set (entries peers). \<exists>tp. sm_find seqs 99 = Some (Some tp)" for d pps out
    using that by (induction pps arbitrary: out) (auto simp: print_avg_peer_total)
  have "\<exists>out'. fold_res (\<lambda>(dst_ip, ps). fold_res (\<lambda>(p, peers). fold_res (print_avg_peer dst_ip p) (entries peers)) (entries ps))
      dps out = Inr out'"
    if "\<forall>(d, ps) \<in> set dps. \<forall>(p, peers) \<in> set (entries ps). \<forall>(k, seqs) \<in> set (entries peers).
      \<exists>tp. sm_find seqs 99 = Some (Some tp)" for dps out
    using that
  proof (induction dps arbitrary: out)
    case (Cons x dps)
    obtain d ps where x: "x = (d, ps)" by (cases x)
    obtain out1 where "fold_res (\<lambda>(p, peers). fold_res (print_avg_peer d p) (entries peers)) (entries ps) out = Inr out1"
      using rounds [of "entries ps" d out] Cons.prems x by auto
    then show ?case using Cons.IH [of out1] Cons.prems x by simp
  qed simp
  from this [of "entries m" "[]"] show ?thesis using assms by (simp add: pfr_print_avg_rtt_def)
qed

lemma dst_list_print_iff:
  "(\<exists>out. dst_list_print nlist ds = Inr out) \<longleftrightarrow> nlist \<le> length ds"
proof (induction nlist)
  case (Suc n)
  show ?case
  proof (cases "n \<le> length ds")
    case True
    then obtain out where "dst_list_print n ds = Inr out" using Suc by blast
    then show ?thesis by (auto simp: dst_list_print_def fold_res_append)
  next
    case False
    then have "\<not> (\<exists>out. dst_list_print n ds = Inr out)" using Suc by blast
    then show ?thesis using False by (cases "dst_list_print n ds") (auto simp: dst_list_print_def fold_res_append)
  qed
qed (simp add: dst_list_print_def)

lemma log_print_entries:
  "(d, n, p, l) \<in> set (pfr_log_print cp m) \<longleftrightarrow> n = cp \<and> log_at m d p = Some l"
  by (force simp: pfr_log_print_def log_at_def sm_at_def entries_iff_find split: option.splits)

end
