(* ===== verification/Ping_Inet_Ntop.thy ===== *)
theory Ping_Inet_Ntop
  imports Ping_Proc Ipv4
begin

unbundle bit_operations_syntax

text \<open>
  The text of network addresses: \<open>inet_ntop\<close> of \<open>src/src/ping_inet_ntop.cpp\<close>, the copy of the function
  for hosts whose C library has none (the file is compiled to nothing elsewhere).

  The buffer \<open>tmp\<close> is the text written to it so far; every write is checked against its size, and one
  beyond it is undefined behaviour.  \<open>n\<close> is the \<open>size\<close> of \<open>dst\<close>.
\<close>

definition EAFNOSUPPORT :: int where "EAFNOSUPPORT = 97"

definition ENOSPC :: int where "ENOSPC = 28"

text \<open>The result: the null pointer with \<open>errno\<close>, or \<open>dst\<close> with its text.\<close>

datatype ntop_result = Null int | Text string

definition overflow :: cpp_error where
  "overflow = Undefined_Behaviour ''buffer overflow''"

text \<open>\<open>*tp++ = c\<close> and \<open>sprintf(tp, ...); tp += strlen(tp)\<close> on a buffer of \<open>cap\<close> bytes.\<close>

definition put_char :: "nat \<Rightarrow> char \<Rightarrow> string \<Rightarrow> string res" where
  "put_char cap c t = (if length t < cap then Inr (t @ [c]) else Inl overflow)"

definition put_str :: "nat \<Rightarrow> string \<Rightarrow> string \<Rightarrow> string res" where
  "put_str cap s t = (if length t + length s + 1 \<le> cap then Inr (t @ s) else Inl overflow)"


section \<open>\<open>inet_ntop4\<close>\<close>

text \<open>\<open>strlen(tmp) > size\<close> lets a text through that fills \<open>dst\<close> and leaves no room for its end.\<close>

definition ntop4 :: "u8 list \<Rightarrow> nat \<Rightarrow> ntop_result res" where
  "ntop4 src n =
     res_bind (put_str 16 (dotted (unat (src ! 0)) (unat (src ! 1)) (unat (src ! 2)) (unat (src ! 3))) []) (\<lambda>tmp.
     if length tmp > n then Inr (Null ENOSPC)
     else res_map Text (put_str n tmp []))"


section \<open>\<open>inet_ntop6\<close>\<close>

text \<open>\<open>sprintf("%x")\<close>.\<close>

definition hex_char :: "nat \<Rightarrow> char" where
  "hex_char n = ''0123456789abcdef'' ! n"

fun hex_text :: "nat \<Rightarrow> string" where
  "hex_text n = (if n < 16 then [hex_char n] else hex_text (n div 16) @ [hex_char (n mod 16)])"

declare hex_text.simps [simp del]

text \<open>The words of the address, high byte first.\<close>

definition ntop_words :: "u8 list \<Rightarrow> u32 list" where
  "ntop_words src = fold (\<lambda>i ws. ws[i div 2 := ws ! (i div 2) OR push_bit ((1 - i mod 2) * 8) (ucast (src ! i))])
     [0..<16] (replicate 8 0)"

text \<open>A run of zero words; the base \<open>-1\<close> stands for none, and its length is not read then.\<close>

record run =
  run_base :: int
  run_len :: int

definition no_run :: run where "no_run = \<lparr>run_base = -1, run_len = 0\<rparr>"

definition longer :: "run \<Rightarrow> run \<Rightarrow> run" where
  "longer cur best = (if run_base best = -1 \<or> run_len cur > run_len best then cur else best)"

text \<open>The body of the loop over the words: the best run so far and the current one.\<close>

definition scan_word :: "u32 list \<Rightarrow> nat \<Rightarrow> run \<times> run \<Rightarrow> run \<times> run" where
  "scan_word ws i = (\<lambda>(best, cur).
     if ws ! i = 0 then
       (best, if run_base cur = -1 then \<lparr>run_base = int i, run_len = 1\<rparr> else cur\<lparr>run_len := run_len cur + 1\<rparr>)
     else if run_base cur \<noteq> -1 then (longer cur best, cur\<lparr>run_base := -1\<rparr>)
     else (best, cur))"

definition best_run :: "u32 list \<Rightarrow> run" where
  "best_run ws =
     (let (best, cur) = fold (scan_word ws) [0..<8] (no_run, no_run);
          best = (if run_base cur \<noteq> -1 then longer cur best else best)
      in if run_base best \<noteq> -1 \<and> run_len best < 2 then best\<lparr>run_base := -1\<rparr> else best)"

text \<open>\<open>sizeof "ffff:ffff:ffff:ffff:ffff:ffff:255.255.255.255"\<close>.\<close>

definition TMP6 :: nat where "TMP6 = 46"

definition inside :: "run \<Rightarrow> nat \<Rightarrow> bool" where
  "inside best i \<longleftrightarrow> run_base best \<noteq> -1 \<and> int i \<ge> run_base best \<and> int i < run_base best + run_len best"

definition encapsulated :: "u32 list \<Rightarrow> run \<Rightarrow> nat \<Rightarrow> bool" where
  "encapsulated ws best i \<longleftrightarrow> i = 6 \<and> run_base best = 0
     \<and> (run_len best = 6 \<or> run_len best = 5 \<and> ws ! 5 = 0xffff)"

text \<open>The loop that writes the text, over the indices that are left.\<close>

fun format_words :: "u8 list \<Rightarrow> u32 list \<Rightarrow> run \<Rightarrow> nat list \<Rightarrow> string \<Rightarrow> ntop_result res" where
  "format_words src ws best [] t = Inr (Text t)"
| "format_words src ws best (i # ks) t =
     (if inside best i then
        res_bind (if int i = run_base best then put_char TMP6 CHR '':'' t else Inr t) (format_words src ws best ks)
      else
        res_bind (if i \<noteq> 0 then put_char TMP6 CHR '':'' t else Inr t) (\<lambda>t.
        if encapsulated ws best i then
          res_map (\<lambda>res. case res of Null e \<Rightarrow> Null e | Text s \<Rightarrow> Text (t @ s))
            (ntop4 (drop 12 src) (TMP6 - length t))
        else res_bind (put_str TMP6 (hex_text (unat (ws ! i))) t) (format_words src ws best ks)))"

definition ntop6 :: "u8 list \<Rightarrow> nat \<Rightarrow> ntop_result res" where
  "ntop6 src n =
     (let ws = ntop_words src; best = best_run ws
      in res_bind (format_words src ws best [0..<8] []) (\<lambda>res. case res of
           Null e \<Rightarrow> Inr (Null e)
         | Text t \<Rightarrow>
             res_bind (if run_base best \<noteq> -1 \<and> run_base best + run_len best = 8
               then put_char TMP6 CHR '':'' t else Inr t) (\<lambda>t.
             if \<not> length t < TMP6 then Inl overflow
             else if length t + 1 > n then Inr (Null ENOSPC)
             else res_map Text (put_str n t []))))"

definition ntop :: "int \<Rightarrow> u8 list \<Rightarrow> nat \<Rightarrow> ntop_result res" where
  "ntop af src n =
     (if af = AF_INET then ntop4 src n
      else if af = AF_INET6 then ntop6 src n
      else Inr (Null EAFNOSUPPORT))"

section \<open>The words and the best run\<close>

lemma ntop_words_bytes:
  "ntop_words src = map (\<lambda>j. push_bit 8 (ucast (src ! (2 * j))) OR ucast (src ! (2 * j + 1))) [0..<8]"
proof -
  let ?f = "\<lambda>i ws. ws[i div 2 := ws ! (i div 2) OR push_bit ((1 - i mod 2) * 8) (ucast (src ! i))]"
  let ?w = "\<lambda>j. push_bit 8 (ucast (src ! (2 * j))) OR ucast (src ! (2 * j + 1)) :: u32"
  have "fold ?f (concat (map (\<lambda>j. [2 * j, 2 * j + 1]) [0..<k])) (replicate 8 0) = map ?w [0..<k] @ replicate (8 - k) 0"
    if "k \<le> 8" for k
    using that
  proof (induction k)
    case (Suc k)
    then have "replicate (8 - k) (0 :: u32) = 0 # replicate (8 - Suc k) 0" by (metis Suc_diff_le diff_Suc_Suc replicate_Suc)
    then show ?case using Suc by (simp add: list_update_append nth_append)
  qed simp
  note pairs = this [of 8]
  have "[0..<16] = concat (map (\<lambda>j. [2 * j, 2 * j + 1]) [0..<8])" by (simp add: upt_rec)
  then show ?thesis using pairs by (simp only: ntop_words_def) simp
qed

lemma unat_ntop_word:
  "unat (push_bit 8 (ucast a) OR ucast b :: u32) = 256 * unat (a :: u8) + unat (b :: u8)"
proof -
  have "push_bit 8 (ucast a) OR ucast b = (of_le_bytes [b, a] :: u32)" by (simp add: or.commute)
  also have "\<dots> = of_nat (le_nat [b, a])" by (rule of_le_bytes_of_nat) simp
  finally have "unat (push_bit 8 (ucast a) OR ucast b :: u32) = le_nat [b, a] mod 2 ^ 32"
    by (simp only: unat_of_nat) simp
  then show ?thesis using le_nat_less [of "[b, a]"] by simp
qed

text \<open>Zero words at \<open>b\<close> to \<open>b + l - 1\<close>, all before \<open>n\<close>.\<close>

definition zero_run :: "u32 list \<Rightarrow> nat \<Rightarrow> nat \<Rightarrow> nat \<Rightarrow> bool" where
  "zero_run ws n b l \<longleftrightarrow> 1 \<le> l \<and> b + l \<le> n \<and> (\<forall>i. b \<le> i \<and> i < b + l \<longrightarrow> ws ! i = 0)"

text \<open>\<open>best\<close> is a run that is longer than the run at \<open>b\<close> of length \<open>l\<close>, or as long and no later.\<close>

definition beats :: "run \<Rightarrow> nat \<Rightarrow> nat \<Rightarrow> bool" where
  "beats best b l \<longleftrightarrow> run_base best \<noteq> -1 \<and> (int l < run_len best \<or> int l = run_len best \<and> run_base best \<le> int b)"

definition is_run :: "u32 list \<Rightarrow> nat \<Rightarrow> run \<Rightarrow> bool" where
  "is_run ws n c \<longleftrightarrow> (\<exists>b l. c = \<lparr>run_base = int b, run_len = int l\<rparr> \<and> zero_run ws n b l)"

definition scan_inv :: "u32 list \<Rightarrow> nat \<Rightarrow> run \<times> run \<Rightarrow> bool" where
  "scan_inv ws n = (\<lambda>(best, cur).
     (run_base best = -1 \<or> is_run ws n best)
     \<and> (if run_base cur = -1 then n = 0 \<or> ws ! (n - 1) \<noteq> 0
        else is_run ws n cur \<and> run_base cur + run_len cur = int n \<and> run_base best < run_base cur
          \<and> (run_base cur = 0 \<or> ws ! (nat (run_base cur) - 1) \<noteq> 0))
     \<and> (\<forall>b l. zero_run ws n b l \<longrightarrow> run_base cur \<noteq> -1 \<and> run_base cur \<le> int b \<or> beats best b l))"

lemma zero_run_Suc:
  "zero_run ws (Suc n) b l \<longleftrightarrow> zero_run ws n b l \<or> 1 \<le> l \<and> b + l = Suc n \<and> (\<forall>i. b \<le> i \<and> i \<le> n \<longrightarrow> ws ! i = 0)"
  by (auto simp: zero_run_def le_Suc_eq less_Suc_eq_le)

lemma is_run_Suc: "is_run ws n c \<Longrightarrow> is_run ws (Suc n) c"
  unfolding is_run_def zero_run_Suc by blast

lemma is_runE:
  assumes "is_run ws n c"
  obtains b l where "c = \<lparr>run_base = int b, run_len = int l\<rparr>" and "zero_run ws n b l"
  using assms unfolding is_run_def by blast

text \<open>A zero word extends the current run or begins one.\<close>

lemma scan_inv_zero:
  assumes inv: "scan_inv ws n (best, cur)" and z: "ws ! n = 0"
  shows "scan_inv ws (Suc n) (scan_word ws n (best, cur))"
proof (cases "run_base cur = -1")
  case True
  have start: "n = 0 \<or> ws ! (n - 1) \<noteq> 0" using inv True by (simp add: scan_inv_def)
  have "int n \<le> int b \<or> beats best b l" if run: "zero_run ws (Suc n) b l" for b l
  proof (cases "zero_run ws n b l")
    case False
    then have "\<forall>i. b \<le> i \<and> i \<le> n \<longrightarrow> ws ! i = 0" using run zero_run_Suc by blast
    then have "ws ! (n - 1) = 0" if "b < n" using that by simp
    then have "\<not> b < n" using start by auto
    then show ?thesis by simp
  qed (use inv True in \<open>auto simp: scan_inv_def\<close>)
  moreover have "is_run ws (Suc n) \<lparr>run_base = int n, run_len = 1\<rparr>"
    unfolding is_run_def using z by (intro exI [of _ n] exI [of _ 1]) (auto simp: zero_run_def less_Suc_eq_le)
  moreover have "run_base best < int n"
    using inv by (auto simp: scan_inv_def zero_run_def elim!: is_runE)
  ultimately show ?thesis using inv True start is_run_Suc by (auto simp: scan_inv_def scan_word_def z)
next
  case False
  then obtain b l where cur: "cur = \<lparr>run_base = int b, run_len = int l\<rparr>" "zero_run ws n b l" "b + l = n"
    and less: "run_base best < int b" and start: "b = 0 \<or> ws ! (b - 1) \<noteq> 0"
    using inv by (auto simp: scan_inv_def elim!: is_runE)
  have zeros: "\<forall>i. b \<le> i \<and> i \<le> n \<longrightarrow> ws ! i = 0" using cur z by (auto simp: zero_run_def le_less)
  have "b \<le> b' \<or> beats best b' l'" if run: "zero_run ws (Suc n) b' l'" for b' l'
  proof (cases "zero_run ws n b' l'")
    case False
    then have "\<forall>i. b' \<le> i \<and> i \<le> n \<longrightarrow> ws ! i = 0" using run zero_run_Suc by blast
    moreover have "b' \<le> b - 1 \<and> b - 1 \<le> n" if "b' < b" using that cur(3) by auto
    ultimately have "ws ! (b - 1) = 0" if "b' < b" using that by blast
    then have "\<not> b' < b" using start by auto
    then show ?thesis by simp
  qed (use inv cur in \<open>auto simp: scan_inv_def\<close>)
  moreover have "zero_run ws (Suc n) b (l + 1)" using zeros cur(3) by (auto simp: zero_run_def)
  then have "is_run ws (Suc n) \<lparr>run_base = int b, run_len = int l + 1\<rparr>"
    unfolding is_run_def by (intro exI [of _ b] exI [of _ "l + 1"]) simp
  ultimately show ?thesis
    using inv less start cur(3) is_run_Suc by (auto simp: scan_inv_def scan_word_def z cur(1))
qed

text \<open>Another word ends it.\<close>

lemma scan_inv_word:
  assumes inv: "scan_inv ws n (best, cur)" and nz: "ws ! n \<noteq> 0"
  shows "scan_inv ws (Suc n) (scan_word ws n (best, cur))"
proof -
  have same: "zero_run ws (Suc n) b l \<longleftrightarrow> zero_run ws n b l" for b l
    using nz unfolding zero_run_Suc by auto
  show ?thesis
  proof (cases "run_base cur = -1")
    case True
    then show ?thesis using inv nz is_run_Suc by (auto simp: scan_inv_def scan_word_def same)
  next
    case False
    then obtain b l where cur: "cur = \<lparr>run_base = int b, run_len = int l\<rparr>" "zero_run ws n b l" "b + l = n"
      and less: "run_base best < int b"
      using inv by (auto simp: scan_inv_def elim!: is_runE)
    have "beats (longer cur best) b' l'" if run: "zero_run ws n b' l'" for b' l'
    proof -
      have "b \<le> b' \<or> beats best b' l'" using inv cur run by (auto simp: scan_inv_def)
      moreover have "b' + l' \<le> b + l" using run cur(3) by (simp add: zero_run_def)
      ultimately show ?thesis using less by (auto simp: beats_def longer_def cur(1))
    qed
    then show ?thesis
      using inv nz is_run_Suc less by (auto simp: scan_inv_def scan_word_def same longer_def cur(1))
  qed
qed

lemma scan_inv_fold: "scan_inv ws n (fold (scan_word ws) [0..<n] (no_run, no_run))"
proof (induction n)
  case 0
  then show ?case by (simp add: scan_inv_def no_run_def zero_run_def)
next
  case (Suc n)
  obtain best cur where st: "fold (scan_word ws) [0..<n] (no_run, no_run) = (best, cur)"
    by (cases "fold (scan_word ws) [0..<n] (no_run, no_run)")
  then show ?case
    using Suc scan_inv_zero [of ws n best cur] scan_inv_word [of ws n best cur] by (cases "ws ! n = 0") simp_all
qed

text \<open>The best run: the leftmost of the longest runs of at least two zero words, if there is one.\<close>

lemma best_run_cases:
  obtains (none) "run_base (best_run ws) = -1" and "\<And>b l. zero_run ws 8 b l \<Longrightarrow> l < 2"
  | (some) b l where "best_run ws = \<lparr>run_base = int b, run_len = int l\<rparr>" and "2 \<le> l" and "zero_run ws 8 b l"
    and "\<And>b' l'. zero_run ws 8 b' l' \<Longrightarrow> l' < l \<or> l' = l \<and> b \<le> b'"
proof -
  obtain best cur where st: "fold (scan_word ws) [0..<8] (no_run, no_run) = (best, cur)"
    by (cases "fold (scan_word ws) [0..<8] (no_run, no_run)")
  have inv: "scan_inv ws 8 (best, cur)" using scan_inv_fold [of ws 8] st by simp
  define last where "last = (if run_base cur \<noteq> -1 then longer cur best else best)"
  have valid: "run_base last = -1 \<or> is_run ws 8 last"
    using inv by (auto simp: last_def longer_def scan_inv_def)
  have beaten: "beats last b l" if run: "zero_run ws 8 b l" for b l
  proof (cases "run_base cur = -1")
    case False
    then obtain b' l' where "cur = \<lparr>run_base = int b', run_len = int l'\<rparr>" "b' + l' = 8" "run_base best < int b'"
      using inv by (auto simp: scan_inv_def elim!: is_runE)
    moreover have "run_base cur \<le> int b \<or> beats best b l" using inv run by (auto simp: scan_inv_def)
    moreover have "b + l \<le> 8" using run by (simp add: zero_run_def)
    ultimately show ?thesis by (auto simp: last_def longer_def beats_def)
  qed (use inv run in \<open>auto simp: last_def scan_inv_def\<close>)
  have best: "best_run ws = (if run_base last \<noteq> -1 \<and> run_len last < 2 then last\<lparr>run_base := -1\<rparr> else last)"
    by (simp add: best_run_def st last_def Let_def)
  show thesis
  proof (cases "run_base last = -1 \<or> run_len last < 2")
    case True
    show thesis
    proof (rule none)
      show "run_base (best_run ws) = -1" using True by (auto simp: best)
      show "l < 2" if "zero_run ws 8 b l" for b l using beaten [OF that] True by (auto simp: beats_def)
    qed
  next
    case False
    then obtain b l where last: "last = \<lparr>run_base = int b, run_len = int l\<rparr>" "zero_run ws 8 b l"
      using valid by (auto elim: is_runE)
    show thesis
    proof (rule some [of b l])
      show "l' < l \<or> l' = l \<and> b \<le> b'" if "zero_run ws 8 b' l'" for b' l'
        using beaten [OF that] by (auto simp: beats_def last)
    qed (use last False in \<open>simp_all add: best\<close>)
  qed
qed


section \<open>The text\<close>

lemma hex_text_unfold: "hex_text n = (if n < 16 then [hex_char n] else hex_text (n div 16) @ [hex_char (n mod 16)])"
  by (rule hex_text.simps)

lemma length_hex_text: "n < 65536 \<Longrightarrow> length (hex_text n) \<le> 4"
proof -
  have one: "length (hex_text n) = 1" if "n < 16" for n using that by (subst hex_text_unfold) simp
  have two: "length (hex_text n) \<le> 2" if "n < 256" for n
    using that one [of "n div 16"] by (subst hex_text_unfold) (simp add: less_mult_imp_div_less)
  have three: "length (hex_text n) \<le> 3" if "n < 4096" for n
    using that two [of "n div 16"] by (subst hex_text_unfold) (simp add: less_mult_imp_div_less)
  show "length (hex_text n) \<le> 4" if "n < 65536"
    using that three [of "n div 16"] by (subst hex_text_unfold) (simp add: less_mult_imp_div_less)
qed

definition tail4 :: "u8 list \<Rightarrow> string" where
  "tail4 src = dotted (unat (src ! 12)) (unat (src ! 13)) (unat (src ! 14)) (unat (src ! 15))"

text \<open>What the loop writes, where nothing overflows.\<close>

fun spell :: "u8 list \<Rightarrow> u32 list \<Rightarrow> run \<Rightarrow> nat list \<Rightarrow> string" where
  "spell src ws best [] = []"
| "spell src ws best (i # ks) =
     (if inside best i then (if int i = run_base best then '':'' else []) @ spell src ws best ks
      else (if i \<noteq> 0 then '':'' else []) @ (if encapsulated ws best i then tail4 src
        else hex_text (unat (ws ! i)) @ spell src ws best ks))"

lemma ntop4_fits:
  assumes "length (dotted a b c d) < n" and "a < 256" "b < 256" "c < 256" "d < 256"
    and "unat (src ! 0) = a" "unat (src ! 1) = b" "unat (src ! 2) = c" "unat (src ! 3) = d"
  shows "ntop4 src n = Inr (Text (dotted a b c d))"
proof -
  have "length (dotted a b c d) \<le> 15"
    using length_octet_le [of a] length_octet_le [of b] length_octet_le [of c] length_octet_le [of d] assms
    by (simp add: length_dotted)
  then show ?thesis using assms by (simp add: ntop4_def put_str_def)
qed

lemma unat_u8_less: "unat (b :: u8) < 256"
  using unsigned_less [of b, where 'a = nat] by simp

lemma format_words_spell:
  assumes "length src = 16" and "length t + length (spell src ws best ks) \<le> 45"
  shows "format_words src ws best ks t = Inr (Text (t @ spell src ws best ks))"
  using assms(2)
proof (induction ks arbitrary: t)
  case (Cons i ks)
  show ?case
  proof (cases "inside best i")
    case True
    then show ?thesis using Cons by (cases "int i = run_base best") (simp_all add: put_char_def TMP6_def)
  next
    case False
    define u where "u = t @ (if i \<noteq> 0 then '':'' else [])"
    have sep: "(if i \<noteq> 0 then put_char TMP6 CHR '':'' t else Inr t) = Inr u"
      using Cons.prems False by (simp add: u_def put_char_def TMP6_def)
    show ?thesis
    proof (cases "encapsulated ws best i")
      case True
      then have "length u + length (tail4 src) \<le> 45" using Cons.prems False by (simp add: u_def)
      then have "ntop4 (drop 12 src) (TMP6 - length u) = Inr (Text (tail4 src))"
        unfolding tail4_def using assms(1) by (intro ntop4_fits) (simp_all add: TMP6_def unat_u8_less)
      then show ?thesis using True False sep by (simp add: u_def)
    next
      case nenc: False
      have len: "length u + length (hex_text (unat (ws ! i))) + length (spell src ws best ks) \<le> 45"
        using Cons.prems False nenc by (simp add: u_def)
      then show ?thesis
        using Cons.IH [of "u @ hex_text (unat (ws ! i))"] False nenc sep
        by (simp add: put_str_def TMP6_def) (simp add: u_def)
    qed
  qed
qed simp

text \<open>Groups with a colon between them.\<close>

fun join :: "string list \<Rightarrow> string" where
  "join [] = []"
| "join [x] = x"
| "join (x # y # zs) = x @ CHR '':'' # join (y # zs)"

lemma join_snoc: "join (xs @ [x]) = (if xs = [] then x else join xs @ CHR '':'' # x)"
  by (induction xs rule: join.induct) simp_all

definition word_group :: "u32 list \<Rightarrow> nat \<Rightarrow> string" where
  "word_group ws i = hex_text (unat (ws ! i))"

abbreviation sep_group :: "u32 list \<Rightarrow> nat \<Rightarrow> string" where
  "sep_group ws i \<equiv> (if i \<noteq> 0 then '':'' else []) @ word_group ws i"

lemma concat_groups: "concat (map (sep_group ws) [0..<n]) = join (map (word_group ws) [0..<n])"
  by (induction n) (simp_all add: join_snoc)

lemma concat_later_groups:
  "0 \<notin> set ks \<Longrightarrow> concat (map (sep_group ws) ks) = (if ks = [] then [] else CHR '':'' # join (map (word_group ws) ks))"
  by (induction ks rule: rev_induct) (auto simp: join_snoc)

lemma spell_plain:
  assumes "\<And>i. i \<in> set ks \<Longrightarrow> \<not> inside best i \<and> \<not> encapsulated ws best i"
  shows "spell src ws best (ks @ js) = concat (map (sep_group ws) ks) @ spell src ws best js"
  using assms by (induction ks) (simp_all add: word_group_def)

lemma spell_skip:
  assumes "\<And>i. i \<in> set ks \<Longrightarrow> inside best i \<and> int i \<noteq> run_base best"
  shows "spell src ws best (ks @ js) = spell src ws best js"
  using assms by (induction ks) simp_all

lemma spell_run:
  assumes "best = \<lparr>run_base = int b, run_len = int l\<rparr>" and "1 \<le> l"
  shows "spell src ws best ([b..<b + l] @ js) = CHR '':'' # spell src ws best js"
proof -
  have "[b..<b + l] = b # [Suc b..<b + l]" using assms(2) by (simp add: upt_conv_Cons)
  moreover have "spell src ws best ([Suc b..<b + l] @ js) = spell src ws best js"
    by (rule spell_skip) (auto simp: inside_def assms(1))
  ultimately show ?thesis using assms(2) by (simp add: inside_def assms(1))
qed

text \<open>The groups after the best run: words, or the dotted form of the last four bytes.\<close>

definition groups_after :: "u8 list \<Rightarrow> u32 list \<Rightarrow> nat \<Rightarrow> nat \<Rightarrow> string list" where
  "groups_after src ws b l =
     (if b = 0 \<and> l = 6 then [tail4 src]
      else if b = 0 \<and> l = 5 \<and> ws ! 5 = 0xffff then [word_group ws 5, tail4 src]
      else map (word_group ws) [b + l..<8])"

lemma spell_after:
  assumes "best = \<lparr>run_base = int b, run_len = int l\<rparr>" and "2 \<le> l" and "b + l < 8"
  shows "spell src ws best [b + l..<8] = CHR '':'' # join (groups_after src ws b l)"
proof -
  have out: "\<not> inside best i" if "b + l \<le> i" for i using that by (simp add: inside_def assms(1))
  consider "b = 0" "l = 6" | "b = 0" "l = 5" "ws ! 5 = 0xffff" | "\<not> (b = 0 \<and> l = 6)" "\<not> (b = 0 \<and> l = 5 \<and> ws ! 5 = 0xffff)"
    by blast
  then show ?thesis
  proof cases
    case 1
    then show ?thesis using out by (simp add: upt_conv_Cons groups_after_def encapsulated_def assms(1))
  next
    case 2
    then show ?thesis using out by (simp add: upt_conv_Cons groups_after_def encapsulated_def assms(1) word_group_def)
  next
    case 3
    then have "\<not> encapsulated ws best i" for i by (simp add: encapsulated_def assms(1)) presburger
    then have "spell src ws best ([b + l..<8] @ []) = concat (map (sep_group ws) [b + l..<8]) @ spell src ws best []"
      using out by (intro spell_plain) simp
    also have "concat (map (sep_group ws) [b + l..<8]) = CHR '':'' # join (map (word_group ws) [b + l..<8])"
      using assms(2,3) by (subst concat_later_groups) simp_all
    finally show ?thesis using 3 by (auto simp: groups_after_def simp del: upt_rec_numeral)
  qed
qed

text \<open>The whole text, the colon for a run at the end included.\<close>

definition text6 :: "u8 list \<Rightarrow> u32 list \<Rightarrow> string" where
  "text6 src ws =
     (let best = best_run ws
      in spell src ws best [0..<8] @ (if run_base best \<noteq> -1 \<and> run_base best + run_len best = 8 then '':'' else []))"

lemma text6_none:
  assumes "run_base (best_run ws) = -1"
  shows "text6 src ws = join (map (word_group ws) [0..<8])"
proof -
  have "spell src ws (best_run ws) ([0..<8] @ []) = concat (map (sep_group ws) [0..<8]) @ spell src ws (best_run ws) []"
    by (rule spell_plain) (simp add: inside_def encapsulated_def assms)
  then show ?thesis unfolding concat_groups by (simp add: text6_def Let_def assms del: upt_rec_numeral)
qed

lemma text6_some:
  assumes best: "best_run ws = \<lparr>run_base = int b, run_len = int l\<rparr>" and l: "2 \<le> l" and run: "zero_run ws 8 b l"
  shows "text6 src ws = join (map (word_group ws) [0..<b]) @ ''::'' @ join (groups_after src ws b l)"
proof -
  have le: "b + l \<le> 8" using run by (simp add: zero_run_def)
  then have "[0..<8] = [0..<b] @ [b..<b + l] @ [b + l..<8]"
    using upt_add_eq_append [of 0 b l] upt_add_eq_append [of 0 "b + l" "8 - (b + l)"]
    by (simp del: upt_rec_numeral)
  moreover have "spell src ws (best_run ws) ([0..<b] @ js)
      = join (map (word_group ws) [0..<b]) @ spell src ws (best_run ws) js" for js
    unfolding concat_groups [symmetric] using l le
    by (intro spell_plain) (auto simp: inside_def encapsulated_def best)
  ultimately have "spell src ws (best_run ws) [0..<8]
      = join (map (word_group ws) [0..<b]) @ CHR '':'' # spell src ws (best_run ws) [b + l..<8]"
    using spell_run [OF best, of src ws "[b + l..<8]"] l by simp
  moreover have "spell src ws (best_run ws) [b + l..<8]
      = (if b + l = 8 then [] else CHR '':'' # join (groups_after src ws b l))"
    using spell_after [OF best l] le by simp
  moreover have "groups_after src ws b l = []" if "b + l = 8" using that l by (auto simp: groups_after_def)
  ultimately show ?thesis using le by (simp add: text6_def Let_def best del: upt_rec_numeral)
qed

lemma length_join: "\<forall>g \<in> set gs. length g \<le> 4 \<Longrightarrow> length (join gs) \<le> 5 * length gs"
  by (induction gs rule: join.induct) auto

lemma length_tail4: "length (tail4 src) \<le> 15"
  using length_octet_le [OF unat_u8_less, of "src ! 12"] length_octet_le [OF unat_u8_less, of "src ! 13"]
    length_octet_le [OF unat_u8_less, of "src ! 14"] length_octet_le [OF unat_u8_less, of "src ! 15"]
  by (simp add: tail4_def length_dotted)

text \<open>The buffer of 46 bytes is never filled.\<close>

lemma length_text6:
  assumes "\<forall>i < 8. unat (ws ! i) < 65536"
  shows "length (text6 src ws) \<le> 45"
proof -
  have group: "length (word_group ws i) \<le> 4" if "i < 8" for i
    using that assms length_hex_text by (simp add: word_group_def)
  have groups: "length (join (map (word_group ws) ks)) \<le> 5 * length ks" if "\<forall>i \<in> set ks. i < 8" for ks
    using length_join [of "map (word_group ws) ks"] group that by simp
  show ?thesis
  proof (cases rule: best_run_cases [of ws])
    case none
    then show ?thesis using groups [of "[0..<8]"] by (simp add: text6_none del: upt_rec_numeral)
  next
    case (some b l)
    have le: "b + l \<le> 8" using some(3) by (simp add: zero_run_def)
    have "length (join (groups_after src ws b l)) \<le> 5 * (8 - (b + l)) \<or> b = 0 \<and> length (join (groups_after src ws b l)) \<le> 20"
      using groups [of "[b + l..<8]"] group [of 5] length_tail4 [of src] by (auto simp: groups_after_def simp del: upt_rec_numeral)
    then show ?thesis
      using groups [of "[0..<b]"] le some(2) by (auto simp: text6_some [OF some(1-3)] simp del: upt_rec_numeral)
  qed
qed

lemma ntop6_text:
  assumes "length src = 16" and "\<forall>i < 8. unat (ntop_words src ! i) < 65536"
  shows "ntop6 src n = Inr (if n \<le> length (text6 src (ntop_words src)) then Null ENOSPC
    else Text (text6 src (ntop_words src)))"
proof -
  let ?ws = "ntop_words src" and ?best = "best_run (ntop_words src)"
  have len: "length (text6 src ?ws) \<le> 45" by (rule length_text6 [OF assms(2)])
  then have "length [] + length (spell src ?ws ?best [0..<8]) \<le> 45" by (simp add: text6_def Let_def del: upt_rec_numeral)
  from format_words_spell [OF assms(1) this]
  show ?thesis
    using len by (auto simp: ntop6_def text6_def Let_def put_char_def put_str_def TMP6_def simp del: upt_rec_numeral)
qed


section \<open>Reading the text back\<close>

text \<open>
  The text form of RFC 4291: groups of hexadecimal digits with colons between them, one \<open>::\<close> for a run
  of zero words, and a dotted address in place of the last two.
\<close>

definition hex_digit :: "char \<Rightarrow> nat option" where
  "hex_digit c = find (\<lambda>i. hex_char i = c) [0..<16]"

definition read_word :: "string \<Rightarrow> nat option" where
  "read_word s = (if s = [] \<or> None \<in> set (map hex_digit s) then None
     else Some (foldl (\<lambda>a d. 16 * a + the d) 0 (map hex_digit s)))"

definition read_group :: "string \<Rightarrow> nat list option" where
  "read_group g =
     (if CHR ''.'' \<in> set g then
        (case map octet (split_on CHR ''.'' g) of
           [Some a, Some b, Some c, Some d] \<Rightarrow> Some [256 * a + b, 256 * c + d]
         | _ \<Rightarrow> None)
      else map_option (\<lambda>w. [w]) (read_word g))"

fun read_groups :: "string list \<Rightarrow> nat list option" where
  "read_groups [] = Some []"
| "read_groups (g # gs) = (case (read_group g, read_groups gs) of (Some v, Some vs) \<Rightarrow> Some (v @ vs) | _ \<Rightarrow> None)"

text \<open>A \<open>::\<close> at either end leaves two empty parts: one of them goes.\<close>

definition trim :: "string list \<Rightarrow> string list" where
  "trim gs =
     (let gs1 = (if take 2 gs = [[], []] then tl gs else gs)
      in if take 2 (rev gs1) = [[], []] then butlast gs1 else gs1)"

definition read6 :: "string \<Rightarrow> nat list option" where
  "read6 s =
     (let gs = trim (split_on CHR '':'' s)
      in if [] \<notin> set gs then
           (case read_groups gs of None \<Rightarrow> None | Some vs \<Rightarrow> if length vs = 8 then Some vs else None)
         else (case (read_groups (takeWhile (\<lambda>g. g \<noteq> []) gs), read_groups (tl (dropWhile (\<lambda>g. g \<noteq> []) gs))) of
                 (Some a, Some b) \<Rightarrow>
                   if length a + length b < 8 then Some (a @ replicate (8 - length a - length b) 0 @ b) else None
               | _ \<Rightarrow> None))"

lemma hex_digit_char: "n < 16 \<Longrightarrow> hex_digit (hex_char n) = Some n"
proof -
  have "\<forall>n \<in> set [0..<16]. hex_digit (hex_char n) = Some n" by code_simp
  then show "n < 16 \<Longrightarrow> hex_digit (hex_char n) = Some n" by simp
qed

lemma hex_text_chars: "c \<in> set (hex_text n) \<Longrightarrow> hex_digit c \<noteq> None"
proof (induction n rule: hex_text.induct)
  case (1 n)
  then show ?case by (subst (asm) (2) hex_text_unfold) (auto simp: hex_digit_char split: if_splits)
qed

lemma hex_text_no_colon: "CHR '':'' \<notin> set (hex_text n)" "CHR ''.'' \<notin> set (hex_text n)"
proof -
  have "hex_digit CHR '':'' = None" "hex_digit CHR ''.'' = None" by code_simp+
  then show "CHR '':'' \<notin> set (hex_text n)" "CHR ''.'' \<notin> set (hex_text n)" using hex_text_chars by metis+
qed

lemma hex_text_nonempty: "hex_text n \<noteq> []"
  by (subst hex_text_unfold) simp

lemma foldl_hex_text: "foldl (\<lambda>a d. 16 * a + the d) 0 (map hex_digit (hex_text n)) = n"
proof (induction n rule: hex_text.induct)
  case (1 n)
  show ?case
  proof (cases "n < 16")
    case True
    then show ?thesis by (subst hex_text_unfold) (simp add: hex_digit_char)
  next
    case False
    then show ?thesis using 1 by (subst hex_text_unfold) (simp add: hex_digit_char)
  qed
qed

lemma read_word_hex_text: "read_word (hex_text n) = Some n"
proof -
  have "None \<notin> set (map hex_digit (hex_text n))"
  proof
    assume "None \<in> set (map hex_digit (hex_text n))"
    then obtain c where "c \<in> set (hex_text n)" "hex_digit c = None" by auto
    then show False using hex_text_chars by blast
  qed
  then show ?thesis by (simp add: read_word_def hex_text_nonempty foldl_hex_text)
qed

lemma split_on_join:
  assumes "\<forall>g \<in> set gs. c \<notin> set g" and "c = CHR '':''" and "gs \<noteq> []"
  shows "split_on c (join gs @ c # s) = gs @ split_on c s" and "split_on c (join gs) = gs"
  using assms by (induction gs rule: join.induct) (simp_all add: split_on_append split_on_none)

text \<open>Reading the groups before and after a run.\<close>

definition plain_groups :: "string list \<Rightarrow> bool" where
  "plain_groups gs \<longleftrightarrow> (\<forall>g \<in> set gs. g \<noteq> [] \<and> CHR '':'' \<notin> set g)"

lemma while_plain:
  assumes "plain_groups xs"
  shows "takeWhile (\<lambda>g. g \<noteq> []) (xs @ [] # ys) = xs" and "dropWhile (\<lambda>g. g \<noteq> []) (xs @ [] # ys) = [] # ys"
  using assms by (induction xs) (auto simp: plain_groups_def)

lemma trim_plain: "plain_groups gs \<Longrightarrow> trim gs = gs"
proof -
  assume "plain_groups gs"
  then have "[] \<notin> set gs" by (auto simp: plain_groups_def)
  then have "take 2 gs \<noteq> [[], []]" "take 2 (rev gs) \<noteq> [[], []]"
    using set_take_subset [of 2 gs] set_take_subset [of 2 "rev gs"] by auto
  then show "trim gs = gs" by (simp add: trim_def)
qed

lemma trim_run:
  assumes "plain_groups xs" and "plain_groups ys"
  shows "trim ((if xs = [] then [[]] else xs) @ [] # (if ys = [] then [[]] else ys)) = xs @ [] # ys"
proof -
  have nx: "[] \<notin> set xs" and ny: "[] \<notin> set ys" using assms by (auto simp: plain_groups_def)
  let ?ys = "if ys = [] then [[]] else ys" and ?gs = "(if xs = [] then [[]] else xs) @ [] # (if ys = [] then [[]] else ys)"
  have front: "(if take 2 ?gs = [[], []] then tl ?gs else ?gs) = xs @ [] # ?ys"
    using nx by (cases xs) auto
  have rear: "(if take 2 (rev (xs @ [] # ?ys)) = [[], []] then butlast (xs @ [] # ?ys) else xs @ [] # ?ys) = xs @ [] # ys"
    using ny by (cases ys rule: rev_cases) (auto simp: butlast_append)
  show ?thesis unfolding trim_def front Let_def by (rule rear)
qed

lemma read6_none:
  assumes "plain_groups gs" and "gs \<noteq> []" and "read_groups gs = Some vs" and "length vs = 8"
  shows "read6 (join gs) = Some vs"
proof -
  have "split_on CHR '':'' (join gs) = gs" using assms(1,2) split_on_join(2) by (simp add: plain_groups_def)
  moreover have "[] \<notin> set gs" using assms(1) by (auto simp: plain_groups_def)
  ultimately show ?thesis using assms(3,4) by (simp add: read6_def trim_plain [OF assms(1)])
qed

lemma read6_some:
  assumes "plain_groups xs" and "plain_groups ys" and "read_groups xs = Some a" and "read_groups ys = Some b"
    and "length a + length b < 8"
  shows "read6 (join xs @ ''::'' @ join ys) = Some (a @ replicate (8 - length a - length b) 0 @ b)"
proof -
  have "split_on CHR '':'' (join xs @ CHR '':'' # CHR '':'' # join ys)
      = (if xs = [] then [[]] else xs) @ [] # (if ys = [] then [[]] else ys)"
    using assms(1,2) split_on_join(1) [of xs "CHR '':''" "CHR '':'' # join ys"] split_on_join(2) [of ys "CHR '':''"]
    by (cases "xs = []"; cases "ys = []") (simp_all add: plain_groups_def)
  then have "trim (split_on CHR '':'' (join xs @ CHR '':'' # CHR '':'' # join ys)) = xs @ [] # ys"
    using trim_run [OF assms(1,2)] by simp
  then show ?thesis
    using assms(3-5) while_plain [OF assms(1), of ys] by (simp add: read6_def)
qed

lemma read_groups_words: "read_groups (map (word_group ws) ks) = Some (map (\<lambda>i. unat (ws ! i)) ks)"
  by (induction ks) (simp_all add: read_group_def word_group_def hex_text_no_colon read_word_hex_text)

lemma plain_groups_words: "plain_groups (map (word_group ws) ks)"
  by (simp add: plain_groups_def word_group_def hex_text_no_colon hex_text_nonempty)

lemma read_group_tail4:
  "read_group (tail4 src) = Some [256 * unat (src ! 12) + unat (src ! 13), 256 * unat (src ! 14) + unat (src ! 15)]"
  by (simp add: read_group_def tail4_def dotted_def split_on_append split_on_none dot_notin_nat_to_string
      octet_nat_to_string unat_u8_less)

lemma plain_tail4: "tail4 src \<noteq> []" "CHR '':'' \<notin> set (tail4 src)"
  using nat_to_string_digits digit_not_special by (fastforce simp: tail4_def dotted_def)+

lemma ntop_words_nth: "i < 8 \<Longrightarrow> unat (ntop_words src ! i) = 256 * unat (src ! (2 * i)) + unat (src ! (2 * i + 1))"
  unfolding ntop_words_bytes by (simp add: unat_ntop_word del: upt_rec_numeral)

lemma ntop_words_less: "i < 8 \<Longrightarrow> unat (ntop_words src ! i) < 65536"
  using unat_u8_less [of "src ! (2 * i)"] unat_u8_less [of "src ! (2 * i + 1)"] by (simp add: ntop_words_nth)

lemma read_groups_after:
  "read_groups (groups_after src (ntop_words src) b l) = Some (map (\<lambda>i. unat (ntop_words src ! i)) [b + l..<8])"
proof -
  have four: "read_group (tail4 src) = Some [unat (ntop_words src ! 6), unat (ntop_words src ! 7)]"
    by (simp add: read_group_tail4 ntop_words_nth)
  have "read_groups [word_group (ntop_words src) 5] = Some [unat (ntop_words src ! 5)]"
    using read_groups_words [of "ntop_words src" "[5]"] by simp
  then have five: "read_group (word_group (ntop_words src) 5) = Some [unat (ntop_words src ! 5)]"
    by (simp split: option.splits)
  show ?thesis
    using read_groups_words [of "ntop_words src" "[b + l..<8]"] four five
    by (auto simp: groups_after_def upt_conv_Cons)
qed

lemma plain_groups_after: "plain_groups (groups_after src ws b l)"
  using plain_groups_words [of ws "[5]"] plain_groups_words [of ws "[b + l..<8]"] plain_tail4 [of src]
  by (simp add: groups_after_def plain_groups_def del: upt_rec_numeral)

text \<open>The text stands for the words it was made of.\<close>

lemma read6_text6:
  "read6 (text6 src (ntop_words src)) = Some (map (\<lambda>i. unat (ntop_words src ! i)) [0..<8])"
proof (cases rule: best_run_cases [of "ntop_words src"])
  case none
  show ?thesis
    unfolding text6_none [OF none(1)]
    by (rule read6_none [OF plain_groups_words]) (simp_all add: read_groups_words del: upt_rec_numeral)
next
  case (some b l)
  let ?w = "\<lambda>i. unat (ntop_words src ! i)"
  have le: "b + l \<le> 8" and zeros: "\<And>i. b \<le> i \<Longrightarrow> i < b + l \<Longrightarrow> ntop_words src ! i = 0"
    using some(3) by (auto simp: zero_run_def)
  have "[0..<8] = [0..<b] @ [b..<b + l] @ [b + l..<8]"
    using upt_add_eq_append [of 0 b l] upt_add_eq_append [of 0 "b + l" "8 - (b + l)"] le by (simp del: upt_rec_numeral)
  moreover have "map ?w [b..<b + l] = replicate l 0"
    using zeros by (intro replicate_eqI) auto
  ultimately have "map ?w [0..<8] = map ?w [0..<b] @ replicate l 0 @ map ?w [b + l..<8]"
    by (metis map_append)
  moreover have "8 - length (map ?w [0..<b]) - length (map ?w [b + l..<8]) = l" using le by (simp del: upt_rec_numeral)
  ultimately show ?thesis
    unfolding text6_some [OF some(1-3)]
    using read6_some [OF plain_groups_words plain_groups_after read_groups_words read_groups_after, of "ntop_words src" "[0..<b]" src b l]
      le some(2)
    by (simp del: upt_rec_numeral)
qed


section \<open>IPv4\<close>

text \<open>
  \<open>inet_ntop\<close> for IPv4: the text is the dotted form, \<open>ENOSPC\<close> is returned when it is longer than
  \<open>dst\<close>, and a \<open>dst\<close> of exactly its length is written past its end; with the 16 bytes
  (\<open>INET_ADDRSTRLEN\<close>) that \<open>proc_v4\<close> has, it is always the address \<open>proc_v4\<close> stores samples under.
\<close>

lemma ntop_dotted:
  "ntop AF_INET src n = (if n < length (inet_ntop4 src) then Inr (Null ENOSPC)
      else if n = length (inet_ntop4 src) then Inl overflow else Inr (Text (inet_ntop4 src)))
    \<and> ntop AF_INET src 16 = Inr (Text (inet_ntop4 src))"
proof -
  have len: "length (inet_ntop4 src) \<le> 15"
    using length_octet_le [OF unat_u8_less, of "src ! 0"] length_octet_le [OF unat_u8_less, of "src ! 1"]
      length_octet_le [OF unat_u8_less, of "src ! 2"] length_octet_le [OF unat_u8_less, of "src ! 3"]
    by (simp add: inet_ntop4_def length_dotted)
  have "ntop AF_INET src m = (if m < length (inet_ntop4 src) then Inr (Null ENOSPC)
      else if m = length (inet_ntop4 src) then Inl overflow else Inr (Text (inet_ntop4 src)))" for m
    using len unfolding ntop_def ntop4_def inet_ntop4_def [symmetric] by (auto simp: put_str_def)
  then show ?thesis using len by simp
qed


section \<open>Properties\<close>

text \<open>
  C34. \<open>inet_ntop\<close> for IPv6, every address and every size of \<open>dst\<close>: the 46 bytes of \<open>tmp\<close> always
  suffice, \<open>ENOSPC\<close> is returned exactly when the text with its end does not fit into \<open>dst\<close>, and the
  text, read as groups with one \<open>::\<close> for zeros and a dotted end, denotes the sixteen bytes it was made
  from: the code shortens the right run of zeros and no two addresses share a text.
\<close>

theorem ntop_roundtrip:
  assumes "length src = 16"
  shows "\<exists>t. ntop AF_INET6 src n = Inr (if n < length t + 1 then Null ENOSPC else Text t) \<and> length t < TMP6
    \<and> read6 t = Some (map (\<lambda>i. 256 * unat (src ! (2 * i)) + unat (src ! (2 * i + 1))) [0..<8])"
proof -
  let ?t = "text6 src (ntop_words src)"
  have less: "\<forall>i < 8. unat (ntop_words src ! i) < 65536" using ntop_words_less by blast
  have "ntop AF_INET6 src n = Inr (if n < length ?t + 1 then Null ENOSPC else Text ?t)"
    using ntop6_text [OF assms less] by (simp add: ntop_def AF_INET_def AF_INET6_def)
  moreover have "length ?t < TMP6" using length_text6 [OF less, of src] by (simp add: TMP6_def)
  moreover have "map (\<lambda>i. unat (ntop_words src ! i)) [0..<8]
      = map (\<lambda>i. 256 * unat (src ! (2 * i)) + unat (src ! (2 * i + 1))) [0..<8]"
    by (intro map_cong refl ntop_words_nth) (simp del: upt_rec_numeral)
  ultimately show ?thesis using read6_text6 [of src] by (intro exI [of _ ?t]) (simp del: upt_rec_numeral)
qed

section \<open>Examples\<close>

definition example_addr6 :: "u8 list" where
  "example_addr6 = [0x20, 1, 0xd, 0xb8, 0, 0, 0, 0, 0, 1, 0, 0, 0, 0, 0, 1]"

theorem ntop_roundtrip_witness:
  "\<exists>t. ntop AF_INET6 example_addr6 46 = Inr (Text t)
    \<and> read6 t = Some (map (\<lambda>i. 256 * unat (example_addr6 ! (2 * i)) + unat (example_addr6 ! (2 * i + 1))) [0..<8])"
proof -
  have "length example_addr6 = 16" by (simp add: example_addr6_def)
  from ntop_roundtrip [OF this, of 46] show ?thesis by (auto simp: TMP6_def simp del: upt_rec_numeral)
qed

end
