(* ===== verification/Spec2Isabelle.thy ===== *)
theory Spec2Isabelle
  imports Pfr_Answers Pfr_Start Pfr_Handshake Ping_Race Pfr_Late Ping_Readloop Pfr_Print Ping_Inet_Ntop
begin

text \<open>
  pfr, performance routing (\<open>src/src\<close>).  The daemon \<open>pfrd\<close> measures, round after round, the round trip
  time and the loss of every upstream peer to every destination with large traffic, and injects host
  routes through the best peer into the network by GoBGP.

  The parts of the program and how they interact, in the order of a round (\<open>main\<close> in \<open>pfrd.cpp\<close>):
  the configuration is read and the pid file is claimed; the peers and the customer's prefixes come
  from the database and the destinations from flows in shared memory; one sender thread per peer
  sends a train of ICMP echo requests to every destination; \<open>readloop\<close> receives the replies and stores
  them in the global map \<open>r\<close>, by destination, round, peer and sequence number; a handshake stops
  \<open>readloop\<close> while \<open>main\<close> evaluates the round: averages, deviations and medians per peer, the choice of
  the peer per destination (\<open>route\<close>, \<open>route_log1\<close>), the log to the database, the cleaning of old
  rounds and of silent destinations; then the routes are advertised.

  Theories and sources:

  \<^item> \<open>Pfr_Prelude\<close>: results \<open>cpp_error + 'a\<close> (a thrown exception, \<open>exit\<close>, or undefined behaviour), the
    loops \<open>fold_res\<close>, and the lemmas on loops that the components share.
  \<^item> \<open>Std_Map\<close>: \<open>std::map\<close> as a type with its iteration order; the locale \<open>ordered_map\<close>.
  \<^item> \<open>Double64\<close>: \<open>double\<close>, exactly: values with infinities and NaN, rounding to nearest, ties to even.
  \<^item> \<open>C_String\<close>, \<open>Bytes\<close>, \<open>Ipv4\<close>: conversions of the C and C++ library, the byte order of integers in
    memory (\<open>swap_endian\<close>), and IPv4 addresses (\<open>ping_inet_pton_ipv4.cpp\<close>).
  \<^item> \<open>Pfr_Config\<close>: \<open>load_configuration_file\<close> and \<open>thread_name\<close> of \<open>pfrd.cpp\<close>.
  \<^item> \<open>Pfr_Peers\<close>, \<open>Pfr_Telemetry\<close>: \<open>pfr_peers.cpp\<close>, \<open>pfr_telemetry.cpp\<close>.
  \<^item> \<open>Pfr_Customer\<close>, \<open>Pfr_Localnets\<close>, \<open>Pfr_Dst_List\<close>: \<open>pfr_customer.cpp\<close>, \<open>pfr_localnets.cpp\<close> and
    \<open>pfr_lib.cpp\<close>, \<open>pfr_dst_list.cpp\<close> with \<open>pfr_dst.cpp\<close>, \<open>pfr_sql.cpp\<close> and \<open>pfr_sql_list.cpp\<close>.
  \<^item> \<open>Ping_Wire\<close>, \<open>Ping_Send\<close>, \<open>Ping_Race\<close>, \<open>Ping_Proc\<close>: the packet and its checksum (\<open>ping_data.h\<close>,
    \<open>ping_in_cksum.cpp\<close>, \<open>tv_sub.cpp\<close>), \<open>ping_send_v4.cpp\<close> for one sender and for several that run
    together, \<open>ping_proc_v4.cpp\<close>.
  \<^item> \<open>Pfr_Rdata\<close>, \<open>Pfr_Scan\<close>, \<open>Pfr_Routes\<close>: \<open>pfr_rdata.cpp\<close>, in this order the averages, deviations and
    medians; \<open>pfr_route_scan\<close>; \<open>pfr_route_free\<close>, \<open>pfr_route_update\<close>, \<open>pfr_delete\<close> and \<open>pfr_delete_all\<close>.
  \<^item> \<open>Pfr_Sql_Log\<close>: \<open>pfr_sql_log.cpp\<close> and \<open>pfr_route_scan_sql\<close>, with the text of numbers in a stream.
  \<^item> \<open>Pfr_Rtr\<close>, \<open>Pfr_Gobgp\<close>: \<open>pfr_rtr.cpp\<close> and \<open>grpc/pfr_gobgp_grpc.cpp\<close>; the locale \<open>rib_backend\<close> is what
    the advertisement relies on, and the command line and the gRPC client both provide it.
  \<^item> \<open>Pfr_Main\<close>, \<open>Pfr_Round\<close>, \<open>Pfr_Loop\<close>, \<open>Pfr_Answers\<close>: \<open>pfrd.cpp\<close>: the start and the loop; one pass from the
    answers to the routers; pass after pass; and the same from the bytes that arrive, from the start on.
  \<^item> \<open>Pfr_Start\<close>: \<open>pfrd.cpp\<close>, too: the options, the processes of the daemonized mode, the start as a whole,
    and the time that a pass takes.
  \<^item> \<open>Pfr_Handshake\<close>, \<open>Pfr_Log_Thread\<close>, \<open>Pfr_Late\<close>, \<open>Ping_Readloop\<close>: the threads: \<open>main\<close> and \<open>readloop\<close> around
    the mutex \<open>mt_req_send\<close> as a step relation; the thread that writes the log, beside the others; the
    loops of an evaluation with answers that arrive meanwhile, which justifies that \<open>daemon_round\<close> takes
    reception and evaluation one after the other; \<open>readloop\<close> with the errors of the system.
  \<^item> \<open>Ping_Wrap\<close>: \<open>error.cpp\<close> and the wrappers of the system calls.
  \<^item> \<open>Ping_Inet_Ntop\<close>: \<open>ping_inet_ntop.cpp\<close>, the text of IPv4 and IPv6 addresses, with a reader of the text
    form (\<open>read6\<close>) as its specification; an undefined macro leaves the file empty in this build.
  \<^item> \<open>Pfr_Print\<close>: the functions that print, as the lines they print.

  State: the globals \<open>r\<close>, \<open>route\<close>, \<open>route_log1\<close> and the counters are the record \<open>rdata\<close>; the table of
  peers, the routers and the calls made to them are \<open>rtr_state\<close>; the globals of the configuration are
  \<open>config\<close> (with \<open>min_rtt\<close>, which the scan changes); \<open>daemon\<close> holds them all.  A pointer that may be
  null is an \<open>option\<close>, an access through null, a member that was never set or an index outside of its
  array is an error value, so that every property that says a step returns \<open>Inr\<close> also says that the
  step is free of them.

  The lemmas: each theory ends with the facts of its component, and its properties stand in text
  blocks of their own.  A loop over a map is described by what it does to each entry
  (\<open>fold_res_local\<close>, \<open>dst_pass\<close>), a step relation by an invariant (\<open>hs_inv\<close>, \<open>race_inv\<close>, \<open>perf_inv\<close>), the
  loop of \<open>main\<close> by what a pass keeps (\<open>steady\<close>, \<open>no_later\<close>), an interface by a locale with its
  interpretations on the definitions here.  This theory holds what spans components.

  Outside code is a parameter: \<open>boost::split\<close>, \<open>inet_aton\<close>, \<open>popen\<close>, \<open>getaddrinfo\<close>, \<open>setsockopt\<close>, the
  clock, the memory that \<open>malloc\<close> returns, the netconf session, the rows the database returns and its
  verdict on a statement, the flows in the shared memory.  Where a property relies on what such a
  function does, that is a hypothesis: \<open>token_split\<close> for \<open>boost::split\<close>, \<open>net_parser\<close> and
  \<open>address_parser\<close> for \<open>inet_aton\<close> together with it; \<open>split_runs\<close> and \<open>aton_dotted\<close> satisfy them.

  Bounds: the one loop by fuel is \<open>small_exp10\<close>, the decimal exponent of a double; 400 steps are enough,
  since a finite double is at least \<open>2 ^ -1074\<close>.  \<open>performance_peers\<close>, an endless loop, is a function of
  the number of its rounds; \<open>telemetry_step\<close> interleaves the threads of all routers.  Packets are
  bytes of a buffer of 1500, integers have their width.

  Not modelled: the options of the sockets other than those of \<open>send_v4\<close>; the texts of the log file; the
  wrappers under macros that nothing defines (\<open>HAVE_POLL\<close>, \<open>HAVE_KQUEUE\<close> and the like); the generated
  code of the protocol buffers; code that is not built (\<open>main.cpp\<close>, \<open>loop.cpp\<close>, \<open>pinger.cpp\<close>)
  or not called (\<open>ping_m.cpp\<close>).  The minimum \<open>min_rtt\<close>
  that the log thread shares with the scan is in the state of that thread alone: the next scan, minutes
  later, starts from the value that both leave.
\<close>

section \<open>From one component to another\<close>

unbundle bit_operations_syntax

text \<open>A packet of a sender, with the probe it carries.\<close>

definition sent_probe :: "config \<Rightarrow> outside \<Rightarrow> sender \<Rightarrow> u8 list \<Rightarrow> bool" where
  "sent_probe c w sd request \<longleftrightarrow> (\<exists>heap q j sendbuf sb. 0 \<le> q \<and> q < c_pfr_ping_req c
     \<and> fill_sendbuf heap (c_max_load c) (probe_of w sd q j) sendbuf = Inr sb \<and> has_header (sd_pid sd) sendbuf
     \<and> request = take (packet_len (c_max_load c)) sb)"

lemma send_probe_sent:
  assumes "send_probe c w sd ai q s = Inr s'" and "has_header (sd_pid sd) (sendbuf s)"
    and "0 \<le> q" and "q < c_pfr_ping_req c"
  shows "has_header (sd_pid sd) (sendbuf s') \<and> (\<exists>request. sent s' = sent s @ [(ai, request)] \<and> sent_probe c w sd request)"
proof -
  let ?j = "probes_made s"
  obtain sb where f: "fill_sendbuf (o_heap w ?j) (c_max_load c) (probe_of w sd q ?j) (sendbuf s) = Inr sb"
    and s': "sent s' = sent s @ [(ai, take (packet_len (c_max_load c)) sb)]"
    using assms(1) by (auto simp: send_probe_def Let_def res_map_Inr_iff)
  have "sent_probe c w sd (take (packet_len (c_max_load c)) sb)"
    using assms(2-4) f unfolding sent_probe_def by blast
  then show ?thesis using s' send_probe_packet(1) [OF assms(1,2)] by blast
qed

lemma send_dst_sent:
  assumes run: "send_dst getaddrinfo c w sd d s = Inr s'" and len: "length (sendbuf s) = BUFSIZE"
  shows "length (sendbuf s') = BUFSIZE \<and> (\<forall>x \<in> set (sent s'). x \<in> set (sent s)
    \<or> sent_probe c w sd (snd x) \<and> getaddrinfo (d_ipv4 d) = Some (fst x))"
proof -
  obtain ai where ai: "getaddrinfo (d_ipv4 d) = Some ai" and f: "fold_res (send_probe c w sd ai) [0..c_pfr_ping_req c - 1]
      (s\<lparr>sendbuf := write_header (sd_pid sd) (sendbuf s)\<rparr>) = Inr s'"
    using run by (auto simp: send_dst_def split: option.splits)
  let ?P = "\<lambda>u. has_header (sd_pid sd) (sendbuf u) \<and> (\<forall>x \<in> set (sent u). x \<in> set (sent s) \<or> sent_probe c w sd (snd x) \<and> fst x = ai)"
  have "?P s'"
  proof (rule fold_res_invariant [OF f])
    fix q u v assume "q \<in> set [0..c_pfr_ping_req c - 1]" "?P u" "send_probe c w sd ai q u = Inr v"
    then show "?P v" using send_probe_sent [of c w sd ai q u v] by auto
  qed (use has_header_write [OF len] in simp)
  then show ?thesis by (auto simp: has_header_def ai)
qed

lemma send_v4_sent:
  assumes run: "send_v4 getaddrinfo c w getpid k n th ds s = Inr s'" and len: "length (sendbuf s) = BUFSIZE"
    and x: "x \<in> set (sent s')" "x \<notin> set (sent s)"
  shows "sent_probe c w (sender_of getpid k n th) (snd x) \<and> (\<exists>d \<in> set ds. getaddrinfo (d_ipv4 d) = Some (fst x))"
proof -
  let ?sd = "sender_of getpid k n th"
  have f: "fold_res (send_dst getaddrinfo c w ?sd) ds s = Inr s'"
    using run by (simp add: send_v4_def sender_of_def Let_def split: option.splits)
  let ?P = "\<lambda>u. length (sendbuf u) = BUFSIZE \<and> (\<forall>x \<in> set (sent u). x \<in> set (sent s)
    \<or> sent_probe c w ?sd (snd x) \<and> (\<exists>d \<in> set ds. getaddrinfo (d_ipv4 d) = Some (fst x)))"
  have "?P s'"
  proof (rule fold_res_invariant [OF f])
    fix d u v assume "d \<in> set ds" "?P u" "send_dst getaddrinfo c w ?sd d u = Inr v"
    then show "?P v" using send_dst_sent [of getaddrinfo c w ?sd d u v] by blast
  qed (use len in simp)
  then show ?thesis using x by blast
qed

text \<open>The identifiers and times of a sender fit into the packet.\<close>

definition sender_ok :: "config \<Rightarrow> outside \<Rightarrow> int \<Rightarrow> int \<Rightarrow> bool" where
  "sender_ok c w k n \<longleftrightarrow> c_pfr_ping_req c \<le> 2 ^ 16 \<and> - (2 ^ 31) \<le> k \<and> k < 2 ^ 31 \<and> - (2 ^ 31) \<le> n \<and> n < 2 ^ 31
     \<and> (\<forall>j. timeval_ok (o_tv w j) \<and> uint (o_time w j) < 2 ^ 31)"

lemma pid_bits: "0 \<le> getpid AND (0xffff :: int)" "getpid AND (0xffff :: int) < 2 ^ 16"
proof -
  have "getpid AND (0xffff :: int) = take_bit 16 getpid" by (simp add: take_bit_eq_mask mask_eq_exp_minus_1)
  then show "0 \<le> getpid AND (0xffff :: int)" "getpid AND (0xffff :: int) < 2 ^ 16"
    using take_bit_nonnegative take_bit_int_less_exp by metis+
qed

text \<open>
  The echo of any packet of a sender is a packet as \<open>Pfr_Answers\<close> takes them: a reply to a probe of this
  sender.
\<close>

lemma sent_probe_reply:
  assumes sent: "sent_probe c w (sender_of getpid k n th) request" and ok: "sender_ok c w k n"
    and reply: "echo_reply_of request pkt" "ip_header_from src h"
  obtains a where "reply_packet (getpid AND 0xffff) a (h @ pkt @ old, 20 + int (length request), arrival)"
    and "rp_src a = src" "rp_at a = arrival" "pr_probe_id (rp_probe a) = n" "pr_peer_id (rp_probe a) = k"
    and "0 \<le> pr_seq (rp_probe a)" "pr_seq (rp_probe a) < c_pfr_ping_req c"
    and "\<exists>j. pr_tv (rp_probe a) = o_tv w j \<and> pr_time (rp_probe a) = o_time w j"
proof -
  let ?sd = "sender_of getpid k n th" and ?pid = "getpid AND 0xffff"
  obtain heap q j buf sb where q: "0 \<le> q" "q < c_pfr_ping_req c"
    and f: "fill_sendbuf heap (c_max_load c) (probe_of w ?sd q j) buf = Inr sb" "has_header (sd_pid ?sd) buf"
    and req: "request = take (packet_len (c_max_load c)) sb"
    using sent unfolding sent_probe_def by blast
  let ?a = "\<lparr>rp_src = src, rp_probe = probe_of w ?sd q j, rp_at = arrival\<rparr>"
  have sd: "sd_pid ?sd = ?pid" "sd_peer_id ?sd = k" "sd_probe_id ?sd = n" by (simp_all add: sender_of_def)
  have "load_ok (c_max_load c)" using f(1) by (simp add: fill_sendbuf_def split: if_splits)
  then have "packet_len (c_max_load c) \<le> BUFSIZE" using load_bounds by (simp add: BUFSIZE_def)
  moreover have "length sb = BUFSIZE" using fill_sendbuf_layout(1) [OF f] by (simp add: has_header_def)
  ultimately have len: "length request = packet_len (c_max_load c)" by (simp add: req)
  have "probe_ok ?pid (probe_of w ?sd q j)"
    using ok q pid_bits [of getpid] by (simp add: probe_ok_def probe_of_def sd sender_ok_def)
  then have "reply_packet ?pid ?a (h @ pkt @ old, 20 + int (packet_len (c_max_load c)), rp_at ?a)"
    using f reply req by (intro reply_packetI) (simp_all add: sd)
  then have "reply_packet ?pid ?a (h @ pkt @ old, 20 + int (length request), arrival)" by (simp add: len)
  moreover have "\<exists>j'. pr_tv (rp_probe ?a) = o_tv w j' \<and> pr_time (rp_probe ?a) = o_time w j'"
    by (auto simp: probe_of_def)
  ultimately show thesis using that [of ?a] q by (simp add: probe_of_def sd)
qed

text \<open>
  C4. A probe's way there and back: any packet that \<open>send_v4\<close> hands to the network is for one of its
  destinations, and when the probed host returns it as an echo reply behind an IP header (old bytes of
  the buffer may follow), \<open>proc_v4\<close> stores it under exactly that host, round, peer and a sequence number
  below \<open>pfr_ping_req\<close>, with the time from the sending to the arrival, unless an earlier answer is
  already there; no other entry changes.
\<close>

theorem probe_roundtrip:
  assumes run: "send_v4 getaddrinfo c w getpid k n th ds s0 = Inr s1" "length (sendbuf s0) = BUFSIZE" "sent s0 = []"
    and request: "(ai, request) \<in> set (sent s1)" and ok: "sender_ok c w k n"
    and reply: "echo_reply_of request pkt" "ip_header_from src h"
  shows "(\<exists>d \<in> set ds. getaddrinfo (d_ipv4 d) = Some ai)
    \<and> (\<exists>q j s'. 0 \<le> q \<and> q < c_pfr_ping_req c
      \<and> proc_v4 verbose (getpid AND 0xffff) (h @ pkt @ old) (20 + int (length request)) arrival s = Inr s'
      \<and> sm_at None (seqs_of (r s') (inet_ntop4 src) n k) q
        = (case sm_at None (seqs_of (r s) (inet_ntop4 src) n k) q of
             Some tp \<Rightarrow> Some tp
           | None \<Rightarrow> Some (tparm_new (rtt_of (tv_sub arrival (o_tv w j))) (Fin 0) 0 (uint (o_time w j))))
      \<and> (\<forall>d p k' q'. (d, p, k', q') \<noteq> (inet_ntop4 src, n, k, q)
          \<longrightarrow> sm_find (seqs_of (r s') d p k') q' = sm_find (seqs_of (r s) d p k') q'))"
proof -
  have sp: "sent_probe c w (sender_of getpid k n th) request" "\<exists>d \<in> set ds. getaddrinfo (d_ipv4 d) = Some ai"
    using send_v4_sent [OF run(1,2) request] run(3) by simp_all
  obtain a where a: "reply_packet (getpid AND 0xffff) a (h @ pkt @ old, 20 + int (length request), arrival)"
    "rp_src a = src" "rp_at a = arrival" "pr_probe_id (rp_probe a) = n" "pr_peer_id (rp_probe a) = k"
    "0 \<le> pr_seq (rp_probe a)" "pr_seq (rp_probe a) < c_pfr_ping_req c"
    "\<exists>j. pr_tv (rp_probe a) = o_tv w j \<and> pr_time (rp_probe a) = o_time w j"
    by (rule sent_probe_reply [OF sp(1) ok reply])
  then obtain j where j: "pr_tv (rp_probe a) = o_tv w j" "pr_time (rp_probe a) = o_time w j" by blast
  let ?q = "pr_seq (rp_probe a)" and ?s' = "store_reply a s"
  have stored: "?s' = store_sample (inet_ntop4 src) n k ?q
      (tparm_new (rtt_of (tv_sub arrival (o_tv w j))) (Fin 0) 0 (uint (o_time w j))) s"
    by (simp add: store_reply_def src_of_def sample_of_def a(2-5) j)
  have "proc_v4 verbose (getpid AND 0xffff) (h @ pkt @ old) (20 + int (length request)) arrival s = Inr ?s'"
    by (rule reply_packet_stored [OF a(1)])
  moreover have "sm_at None (seqs_of (r ?s') (inet_ntop4 src) n k) ?q
      = (case sm_at None (seqs_of (r s) (inet_ntop4 src) n k) ?q of
           Some tp \<Rightarrow> Some tp
         | None \<Rightarrow> Some (tparm_new (rtt_of (tv_sub arrival (o_tv w j))) (Fin 0) 0 (uint (o_time w j))))"
    unfolding stored by (auto simp: seqs_of_store_sample Let_def split: option.splits)
  moreover have "\<forall>d p k' q'. (d, p, k', q') \<noteq> (inet_ntop4 src, n, k, ?q)
      \<longrightarrow> sm_find (seqs_of (r ?s') d p k') q' = sm_find (seqs_of (r s) d p k') q'"
    unfolding stored by (auto simp: seqs_of_store_sample Let_def)
  ultimately show ?thesis using sp(2) a(6,7) by blast
qed

definition example_ip_header :: "u8 list" where
  "example_ip_header = [0x45, 0, 0, 0, 0, 0, 0, 0, 64, 1, 0, 0, 10, 0, 0, 1, 10, 229, 4, 1]"

definition still_outside :: outside where
  "still_outside = example_outside\<lparr>o_tv := (\<lambda>_. \<lparr>tv_sec = 1700000000, tv_usec = 0\<rparr>)\<rparr>"

theorem probe_roundtrip_witness:
  "\<exists>s1 request q s'. send_v4 Some initial_config still_outside 4711 1 3 99
      [pfr_dst_new 7 ''10.0.0.1'' [] []] example_sending = Inr s1
    \<and> (''10.0.0.1'', request) \<in> set (sent s1)
    \<and> proc_v4 False (4711 AND 0xffff) (example_ip_header @ poke 0 [0, 0, 0xAB, 0xCD] request @ [1, 2, 3])
        (20 + int (length request)) \<lparr>tv_sec = 1700000000, tv_usec = 12000\<rparr> initial_rdata = Inr s'
    \<and> sm_at None (seqs_of (r s') (inet_ntop4 [10, 0, 0, 1]) 3 1) q
      = Some (tparm_new (rtt_of (tv_sub \<lparr>tv_sec = 1700000000, tv_usec = 12000\<rparr> \<lparr>tv_sec = 1700000000, tv_usec = 0\<rparr>))
          (Fin 0) 0 1700000000)"
proof -
  let ?sd = "sender_of 4711 1 3 99" and ?ds = "[pfr_dst_new 7 ''10.0.0.1'' [] []]"
  obtain s1 trains where f: "fold_res (send_dst Some initial_config still_outside ?sd) ?ds example_sending = Inr s1"
    "sent s1 = sent example_sending @ concat trains"
    "list_all2 (\<lambda>d. probe_train ?sd (the (Some (d_ipv4 d))) [0..c_pfr_ping_req initial_config - 1]) ?ds trains"
    using send_dsts_trains [where getaddrinfo = Some and c = initial_config and w = still_outside and sd = ?sd
        and ds = ?ds and s = example_sending]
    by (auto simp: load_ok_def initial_config_def example_sending_def)
  have run: "send_v4 Some initial_config still_outside 4711 1 3 99 ?ds example_sending = Inr s1"
    using f(1) by (simp add: send_v4_def sender_of_def)
  obtain t where t: "trains = [t]" "probe_train ?sd ''10.0.0.1'' [0..4] t"
    using f(3) by (auto simp: list_all2_Cons1 pfr_dst_new_def initial_config_def)
  obtain request where "(''10.0.0.1'', request) \<in> set t"
    using t(2) by (cases t) (auto simp: probe_train_def upto.simps)
  then have req: "(''10.0.0.1'', request) \<in> set (sent s1)" using f(2) t(1) by simp
  have ok: "sender_ok initial_config still_outside 1 3"
    by (simp add: sender_ok_def initial_config_def still_outside_def example_outside_def timeval_ok_def)
  have rep: "echo_reply_of request (poke 0 [0, 0, 0xAB, 0xCD] request)" by (auto simp: echo_reply_of_def)
  have ip: "ip_header_from [10, 0, 0, 1] example_ip_header"
    by (simp add: ip_header_from_def example_ip_header_def field_def)
  have out: "o_tv still_outside j = \<lparr>tv_sec = 1700000000, tv_usec = 0\<rparr>" "uint (o_time still_outside j) = 1700000000" for j
    by (simp_all add: still_outside_def example_outside_def)
  have none: "sm_at None (seqs_of (r initial_rdata) d p k) q = None" for d p k q
    by (simp add: initial_rdata_def seqs_of_def peers_of_def)
  have empty: "length (sendbuf example_sending) = BUFSIZE" "sent example_sending = []" by (simp_all add: example_sending_def)
  show ?thesis
    using probe_roundtrip [OF run empty req ok rep ip, of False "[1, 2, 3]"
        "\<lparr>tv_sec = 1700000000, tv_usec = 12000\<rparr>" initial_rdata] run req
    unfolding out none by auto
qed

end
